(* ===== verification/Prelude.thy ===== *)
theory Prelude
  imports Main "HOL-Library.Word" "HOL-Library.Monad_Syntax"
begin

text \<open>
  What every component of the model shares: bytes, the machine's view of a buffer, and the part of
  the C library the sources call (\<open>memchr\<close>, \<open>memmove\<close>, \<open>memcmp\<close>, \<open>strncmp\<close>, \<open>strncasecmp\<close>,
  \<open>strtol\<close>, \<open>ctype.h\<close>).

  A C function that may read or write outside its object, dereference a null pointer or fail an
  \<open>assert\<close> is a HOL function into an \<open>option\<close> type: \<open>None\<close> is undefined behaviour or an abort, and
  \<open>Some v\<close> is a normal return with value \<open>v\<close>. A theorem of the form \<open>\<exists>v. f x = Some v\<close> is therefore a
  memory-safety theorem. A \<open>char *\<close> into a buffer is an offset into the list that holds the bytes
  of the whole object, so that \<open>length b\<close> is the size of the allocation and not the number of bytes
  that are in use. The data model is the LP64 one of the 64-bit Android targets, little endian.
\<close>

unbundle bit_operations_syntax

type_synonym byte = "8 word"

named_theorems layout \<open>equations that unfold buffer reads and writes\<close>
named_theorems ctype \<open>the character classes of the C locale\<close>

section \<open>Definitions\<close>

subsection \<open>Unsigned arithmetic at width 64 and 16\<close>

definition usub :: "nat \<Rightarrow> nat \<Rightarrow> nat" where
  "usub a b = (if b \<le> a then a - b else a + 2 ^ 64 - b)"

definition u16 :: "int \<Rightarrow> nat" where
  "u16 x = nat (x mod 65536)"

definition hi8 :: "nat \<Rightarrow> byte" where
  "hi8 x = of_nat (x div 256)"

definition lo8 :: "nat \<Rightarrow> byte" where
  "lo8 x = of_nat (x mod 256)"

definition be16 :: "nat \<Rightarrow> byte list" where
  "be16 x = [hi8 x, lo8 x]"

definition htons :: "nat \<Rightarrow> nat" where
  "htons x = (x mod 256) * 256 + (x div 256) mod 256"

subsection \<open>Reading and writing a buffer\<close>

definition rd :: "byte list \<Rightarrow> nat \<Rightarrow> byte option" where
  "rd b i = (if i < length b then Some (b ! i) else None)"

definition wr :: "byte list \<Rightarrow> nat \<Rightarrow> byte \<Rightarrow> byte list option" where
  "wr b i v = (if i < length b then Some (b[i := v]) else None)"

definition mem_read :: "byte list \<Rightarrow> nat \<Rightarrow> nat \<Rightarrow> byte list option" where
  "mem_read b p n = (if p + n \<le> length b then Some (take n (drop p b)) else None)"

definition mem_write :: "byte list \<Rightarrow> nat \<Rightarrow> byte list \<Rightarrow> byte list option" where
  "mem_write b p xs =
     (if p + length xs \<le> length b then Some (take p b @ xs @ drop (p + length xs) b) else None)"

text \<open>A \<open>size_t\<close> argument that the caller computes as a negative \<open>int\<close> is converted to a number
  close to \<open>2 ^ 64\<close>, which no object has room for.\<close>

definition memmove :: "byte list \<Rightarrow> int \<Rightarrow> int \<Rightarrow> int \<Rightarrow> byte list option" where
  "memmove b dst src n =
     (if dst < 0 \<or> src < 0 \<or> n < 0 then None
      else do { xs \<leftarrow> mem_read b (nat src) (nat n); mem_write b (nat dst) xs })"

definition memset :: "byte list \<Rightarrow> int \<Rightarrow> byte \<Rightarrow> int \<Rightarrow> byte list option" where
  "memset b dst v n =
     (if dst < 0 \<or> n < 0 then None else mem_write b (nat dst) (replicate (nat n) v))"

text \<open>\<open>(uint16_t)((data[i] << 8) + (uint8_t)data[i + 1])\<close> and the store of the same two bytes.\<close>

definition ANTOHS :: "byte list \<Rightarrow> nat \<Rightarrow> nat option" where
  "ANTOHS b i = do { h \<leftarrow> rd b i; l \<leftarrow> rd b (i + 1); Some (unat h * 256 + unat l) }"

definition SHTONA :: "byte list \<Rightarrow> nat \<Rightarrow> int \<Rightarrow> byte list option" where
  "SHTONA b i x = do { b \<leftarrow> wr b i (hi8 (u16 x)); wr b (i + 1) (lo8 (u16 x)) }"

subsection \<open>ctype.h in the C locale\<close>

definition isblank :: "byte \<Rightarrow> bool" where
  "isblank c = (c = 32 \<or> c = 9)"

definition isspace :: "byte \<Rightarrow> bool" where
  "isspace c = (c = 32 \<or> (9 \<le> c \<and> c \<le> 13))"

definition isdigit :: "byte \<Rightarrow> bool" where
  "isdigit c = (48 \<le> c \<and> c \<le> 57)"

definition tolower :: "byte \<Rightarrow> byte" where
  "tolower c = (if 65 \<le> c \<and> c \<le> 90 then c + 32 else c)"

definition toupper :: "byte \<Rightarrow> byte" where
  "toupper c = (if 97 \<le> c \<and> c \<le> 122 then c - 32 else c)"

subsection \<open>string.h\<close>

definition str :: "string \<Rightarrow> byte list" where
  "str s = map of_char s"

text \<open>\<open>memchr\<close> reads byte after byte and stops at the first match: the inner option is the null
  pointer, the outer one a read outside the object.\<close>

fun memchr :: "byte list \<Rightarrow> nat \<Rightarrow> byte \<Rightarrow> nat \<Rightarrow> nat option option" where
  "memchr b p c 0 = Some None"
| "memchr b p c (Suc n) =
     (if p < length b then (if b ! p = c then Some (Some p) else memchr b (Suc p) c n) else None)"

text \<open>\<open>strncmp(b + p, lit, n) == 0\<close> and \<open>strncasecmp(b + p, lit, n) == 0\<close> for a literal \<open>lit\<close> of
  \<open>n\<close> bytes without a null byte: a comparison stops at the first difference.\<close>

fun strneq :: "byte list \<Rightarrow> nat \<Rightarrow> byte list \<Rightarrow> bool option" where
  "strneq b p [] = Some True"
| "strneq b p (x # xs) =
     (if p < length b then (if b ! p = x then strneq b (Suc p) xs else Some False) else None)"

fun strncaseeq :: "byte list \<Rightarrow> nat \<Rightarrow> byte list \<Rightarrow> bool option" where
  "strncaseeq b p [] = Some True"
| "strncaseeq b p (x # xs) =
     (if p < length b
      then (if tolower (b ! p) = tolower x then strncaseeq b (Suc p) xs else Some False)
      else None)"

text \<open>\<open>memcmp(a + p, b + q, n) == 0\<close>: \<open>memcmp\<close> may read all of both ranges.\<close>

definition memeq :: "byte list \<Rightarrow> nat \<Rightarrow> byte list \<Rightarrow> nat \<Rightarrow> nat \<Rightarrow> bool option" where
  "memeq a p b q n = do { x \<leftarrow> mem_read a p n; y \<leftarrow> mem_read b q n; Some (x = y) }"

subsection \<open>strtol\<close>

definition LONG_MAX :: int where "LONG_MAX = 9223372036854775807"
definition LONG_MIN :: int where "LONG_MIN = - 9223372036854775808"

function skip_space :: "byte list \<Rightarrow> nat \<Rightarrow> nat option" where
  "skip_space b p =
     (if p < length b then (if isspace (b ! p) then skip_space b (Suc p) else Some p) else None)"
  by pat_completeness auto
termination
  by (relation "measure (\<lambda>(b, p). length b - p)") auto

definition digit_val :: "byte \<Rightarrow> nat option" where
  "digit_val c =
     (if 48 \<le> c \<and> c \<le> 57 then Some (unat c - 48)
      else if 97 \<le> c \<and> c \<le> 122 then Some (unat c - 87)
      else if 65 \<le> c \<and> c \<le> 90 then Some (unat c - 55) else None)"

definition is_digit_of :: "nat \<Rightarrow> byte \<Rightarrow> bool" where
  "is_digit_of base c = (case digit_val c of None \<Rightarrow> False | Some d \<Rightarrow> d < base)"

function strtol_digits :: "nat \<Rightarrow> byte list \<Rightarrow> nat \<Rightarrow> nat \<Rightarrow> (nat \<times> nat) option" where
  "strtol_digits base b p acc =
     (if p < length b
      then (if is_digit_of base (b ! p)
            then strtol_digits base b (Suc p) (acc * base + the (digit_val (b ! p)))
            else Some (acc, p))
      else None)"
  by pat_completeness auto
termination
  by (relation "measure (\<lambda>(base, b, p, acc). length b - p)") auto

text \<open>The base and the first digit after the sign: base 0 selects hexadecimal after \<open>0x\<close>, octal
  after a leading \<open>0\<close> and decimal otherwise. A \<open>0x\<close> that no hexadecimal digit follows is the
  number 0 that ends at the \<open>x\<close>.\<close>

definition strtol_base :: "nat \<Rightarrow> byte list \<Rightarrow> nat \<Rightarrow> (nat \<times> nat) option" where
  "strtol_base base b p =
     (if base \<noteq> 0 then Some (base, p)
      else do {
        c \<leftarrow> rd b p;
        if c \<noteq> 48 then Some (10, p)
        else do {
          x \<leftarrow> rd b (p + 1);
          if x = 120 \<or> x = 88
          then do { d \<leftarrow> rd b (p + 2); Some (if is_digit_of 16 d then (16, p + 2) else (8, p)) }
          else Some (8, p) } })"

text \<open>\<open>strtol(b + p, &end, base)\<close> for the bases 0 and 10 that the sources use: the value, held at
  the limits of a \<open>long\<close>, and the offset \<open>end\<close>.\<close>

definition strtol :: "byte list \<Rightarrow> nat \<Rightarrow> nat \<Rightarrow> (int \<times> nat) option" where
  "strtol b p base = do {
     q \<leftarrow> skip_space b p;
     s \<leftarrow> rd b q;
     let neg = (s = 45);
     let q = (if s = 45 \<or> s = 43 then q + 1 else q);
     (base, q) \<leftarrow> strtol_base base b q;
     (v, e) \<leftarrow> strtol_digits base b q 0;
     if e = q then Some (0, p)
     else Some (if neg then max LONG_MIN (- int v) else min LONG_MAX (int v), e) }"

declare skip_space.simps [simp del]
declare strtol_digits.simps [simp del]

section \<open>Lemmas\<close>

subsection \<open>Reads and writes\<close>

lemma rd_Some_iff [simp]: "rd b i = Some v \<longleftrightarrow> i < length b \<and> v = b ! i"
  by (auto simp: rd_def)

lemma rd_inside [simp]: "i < length b \<Longrightarrow> rd b i = Some (b ! i)"
  by simp

lemma wr_inside [simp]: "i < length b \<Longrightarrow> wr b i v = Some (b[i := v])"
  by (simp add: wr_def)

lemma wr_length: "wr b i v = Some b' \<Longrightarrow> length b' = length b"
  by (auto simp: wr_def split: if_splits)

lemma nat_numeral_plus_int [simp]: "nat (numeral k + int n) = numeral k + n"
  by (simp add: nat_add_distrib)

lemma ANTOHS_inside [layout]:
  "Suc i < length b \<Longrightarrow> ANTOHS b i = Some (unat (b ! i) * 256 + unat (b ! Suc i))"
  by (simp add: ANTOHS_def rd_def)

lemma ANTOHS_less: "ANTOHS b i = Some v \<Longrightarrow> v < 65536"
proof -
  assume "ANTOHS b i = Some v"
  then obtain h l :: byte where "v = unat h * 256 + unat l"
    by (auto simp: ANTOHS_def bind_eq_Some_conv)
  moreover have "unat h < 2 ^ LENGTH(8)" "unat l < 2 ^ LENGTH(8)"
    by (rule unsigned_less)+
  ultimately show ?thesis by simp
qed

lemma SHTONA_inside [layout]:
  "Suc i < length b \<Longrightarrow> SHTONA b i x = Some (b[i := hi8 (u16 x), Suc i := lo8 (u16 x)])"
  by (simp add: SHTONA_def)

lemma SHTONA_length: "SHTONA b i x = Some b' \<Longrightarrow> length b' = length b"
  by (auto simp: SHTONA_def bind_eq_Some_conv dest!: wr_length)

lemma unat_hi8: "x < 65536 \<Longrightarrow> unat (hi8 x) = x div 256"
  by (simp add: hi8_def unat_of_nat take_bit_eq_mod)

lemma unat_lo8: "unat (lo8 x) = x mod 256"
  by (simp add: lo8_def unat_of_nat take_bit_eq_mod)

lemma be16_value: "x < 65536 \<Longrightarrow> unat (hi8 x) * 256 + unat (lo8 x) = x"
  by (simp add: unat_hi8 unat_lo8)

text \<open>A buffer cut at the place of an access: the form in which layouts are computed.\<close>

lemma mem_read_append:
  "p = length us \<Longrightarrow> n = length ys \<Longrightarrow> mem_read (us @ ys @ vs) p n = Some ys"
  by (simp add: mem_read_def)

lemma mem_write_append:
  "p = length us \<Longrightarrow> length ys = length xs \<Longrightarrow> mem_write (us @ ys @ vs) p xs = Some (us @ xs @ vs)"
  by (simp add: mem_write_def)

lemma SHTONA_append:
  "i = length us \<Longrightarrow> SHTONA (us @ x # y # vs) i v = Some (us @ be16 (u16 v) @ vs)"
  by (simp add: SHTONA_def wr_def list_update_append be16_def)

lemma ANTOHS_append:
  "i = length us \<Longrightarrow> x < 65536 \<Longrightarrow> ANTOHS (us @ be16 x @ vs) i = Some x"
  by (simp add: ANTOHS_def rd_def nth_append be16_def be16_value)

lemma memmove_up_append:
  assumes "dst = int (length us + length gap)" "src = int (length us)" "n = int (length ys)"
    and "length gap \<le> length vs"
  shows "\<exists>junk. length junk = length gap \<and>
           memmove (us @ ys @ vs) dst src n = Some (us @ junk @ ys @ drop (length gap) vs)"
proof -
  let ?Z = "ys @ vs" and ?k = "length gap"
  have "mem_write (us @ ys @ vs) (length us + ?k) ys = Some (us @ take ?k ?Z @ ys @ drop ?k vs)"
    using assms(4) by (simp add: mem_write_def)
  moreover have "mem_read (us @ ys @ vs) (length us) (length ys) = Some ys"
    by (rule mem_read_append) simp_all
  ultimately show ?thesis
    using assms by (intro exI [of _ "take ?k ?Z"]) (simp add: memmove_def nat_add_distrib)
qed

lemma mem_write_length: "mem_write b p xs = Some b' \<Longrightarrow> length b' = length b"
  by (auto simp: mem_write_def split: if_splits)

lemma memmove_length: "memmove b d s n = Some b' \<Longrightarrow> length b' = length b"
  by (auto simp: memmove_def bind_eq_Some_conv split: if_splits dest: mem_write_length)

lemma memset_length: "memset b d v n = Some b' \<Longrightarrow> length b' = length b"
  by (auto simp: memset_def split: if_splits dest: mem_write_length)

lemma u16_of_nat: "x < 65536 \<Longrightarrow> u16 (int x) = x"
  by (simp add: u16_def)

lemma htons_htons: "x < 65536 \<Longrightarrow> htons (htons x) = x"
  by (simp add: htons_def)

subsection \<open>memchr\<close>

lemma memchr_in_range: "p + n \<le> length b \<Longrightarrow> \<exists>r. memchr b p c n = Some r"
  by (induction b p c n rule: memchr.induct) auto

lemma memchr_SomeD:
  "memchr b p c n = Some (Some q) \<Longrightarrow>
     p \<le> q \<and> q < p + n \<and> q < length b \<and> b ! q = c \<and> (\<forall>i. p \<le> i \<and> i < q \<longrightarrow> b ! i \<noteq> c)"
proof (induction b p c n rule: memchr.induct)
  case (2 b p c n)
  show ?case
  proof (cases "b ! p = c")
    case False
    with 2 show ?thesis
      by (auto split: if_splits) (metis le_antisym not_less_eq_eq)
  qed (use 2 in \<open>auto split: if_splits\<close>)
qed simp

lemma memchr_NoneD: "memchr b p c n = Some None \<Longrightarrow> p \<le> i \<Longrightarrow> i < p + n \<Longrightarrow> b ! i \<noteq> c"
proof (induction b p c n rule: memchr.induct)
  case (2 b p c n)
  then show ?case
    by (cases "i = p") (auto split: if_splits)
qed simp

lemma strneq_in_range: "p + length xs \<le> length b \<Longrightarrow> \<exists>r. strneq b p xs = Some r"
  by (induction b p xs rule: strneq.induct) auto

lemma strncaseeq_in_range: "p + length xs \<le> length b \<Longrightarrow> \<exists>r. strncaseeq b p xs = Some r"
  by (induction b p xs rule: strncaseeq.induct) auto

lemma strncaseeq_TrueD:
  "strncaseeq b p xs = Some True \<Longrightarrow> i < length xs \<Longrightarrow>
     p + i < length b \<and> tolower (b ! (p + i)) = tolower (xs ! i)"
proof (induction b p xs arbitrary: i rule: strncaseeq.induct)
  case (2 b p x xs)
  then show ?case
    by (cases i) (auto split: if_splits)
qed simp

lemma tolower_toupper [simp]: "tolower (toupper c) = tolower c"
proof -
  have "\<lbrakk>97 \<le> c; c \<le> 122\<rbrakk> \<Longrightarrow> 65 \<le> c - 32 \<and> c - 32 \<le> 90 \<and> \<not> c \<le> 90"
    by (auto simp: word_le_nat_alt unat_sub_if')
  then show ?thesis
    by (auto simp: tolower_def toupper_def)
qed

lemma tolower_tolower [simp]: "tolower (tolower c) = tolower c"
proof -
  have "\<lbrakk>65 \<le> c; c \<le> 90\<rbrakk> \<Longrightarrow> \<not> c + 32 \<le> 90"
    by (simp add: word_le_nat_alt unat_word_ariths)
  then show ?thesis
    by (auto simp: tolower_def)
qed

end
