(* ===== verification/Packets.thy ===== *)
theory Packets
  imports Prelude
begin

text \<open>
  The packet inspector and editor, \<open>src/app/src/main/cpp/byedpi/packets.c\<close>: recognising TLS hello
  messages and HTTP requests, finding the host name in them, the two response heuristics (redirect
  to another site, foreign TLS session id) and the three packet edits (new SNI in the fake hello,
  HTTP header tricks, TLS record splitting). Every function takes the whole buffer object as its
  byte list and the number of valid bytes separately, as the C functions do; a result \<open>None\<close> is a
  read or write outside that object.
\<close>

section \<open>Definitions\<close>

definition IS_TCP :: "32 word" where "IS_TCP = 1"
definition IS_UDP :: "32 word" where "IS_UDP = 2"
definition IS_HTTP :: "32 word" where "IS_HTTP = 4"
definition IS_HTTPS :: "32 word" where "IS_HTTPS = 8"

definition MH_HMIX :: "32 word" where "MH_HMIX = 1"
definition MH_SPACE :: "32 word" where "MH_SPACE = 2"
definition MH_DMIX :: "32 word" where "MH_DMIX = 4"

subsection \<open>The built-in fake packets\<close>

definition tls_data :: "byte list" where
  "tls_data = [
     22, 3, 1, 2, 0, 1, 0, 1, 252, 3, 3, 3, 95, 111, 44, 237, 19, 34,
     248, 220, 178, 242, 96, 72, 45, 114, 102, 111, 87, 221, 19, 157, 27, 55, 220, 250,
     54, 46, 186, 249, 146, 153, 58, 32, 249, 223, 12, 46, 138, 85, 137, 130, 49, 99,
     26, 239, 168, 190, 8, 88, 167, 163, 90, 24, 211, 150, 95, 4, 92, 180, 98, 175,
     137, 215, 15, 139, 0, 62, 19, 2, 19, 3, 19, 1, 192, 44, 192, 48, 0, 159,
     204, 169, 204, 168, 204, 170, 192, 43, 192, 47, 0, 158, 192, 36, 192, 40, 0, 107,
     192, 35, 192, 39, 0, 103, 192, 10, 192, 20, 0, 57, 192, 9, 192, 19, 0, 51,
     0, 157, 0, 156, 0, 61, 0, 60, 0, 53, 0, 47, 0, 255, 1, 0, 1, 117,
     0, 0, 0, 22, 0, 20, 0, 0, 17, 119, 119, 119, 46, 119, 105, 107, 105, 112,
     101, 100, 105, 97, 46, 111, 114, 103, 0, 11, 0, 4, 3, 0, 1, 2, 0, 10,
     0, 22, 0, 20, 0, 29, 0, 23, 0, 30, 0, 25, 0, 24, 1, 0, 1, 1,
     1, 2, 1, 3, 1, 4, 0, 16, 0, 14, 0, 12, 2, 104, 50, 8, 104, 116,
     116, 112, 47, 49, 46, 49, 0, 22, 0, 0, 0, 23, 0, 0, 0, 49, 0, 0,
     0, 13, 0, 42, 0, 40, 4, 3, 5, 3, 6, 3, 8, 7, 8, 8, 8, 9,
     8, 10, 8, 11, 8, 4, 8, 5, 8, 6, 4, 1, 5, 1, 6, 1, 3, 3,
     3, 1, 3, 2, 4, 2, 5, 2, 6, 2, 0, 43, 0, 9, 8, 3, 4, 3,
     3, 3, 2, 3, 1, 0, 45, 0, 2, 1, 1, 0, 51, 0, 38, 0, 36, 0,
     29, 0, 32, 17, 140, 184, 140, 232, 138, 8, 144, 30, 238, 25, 217, 221, 232, 212,
     6, 177, 209, 226, 171, 224, 22, 99, 214, 220, 218, 132, 164, 184, 75, 251, 14, 0,
     21, 0, 172, 0, 0, 0, 0, 0, 0] @ replicate 166 0"

definition http_data :: "byte list" where
  "http_data = str ''GET / HTTP/1.1'' @ [13, 10] @ str ''Host: www.wikipedia.org'' @ [13, 10, 13, 10]"

definition udp_data :: "byte list" where
  "udp_data = replicate 64 0"

subsection \<open>Searching\<close>

function strncasestr_from :: "byte list \<Rightarrow> nat \<Rightarrow> byte list \<Rightarrow> nat \<Rightarrow> nat option option" where
  "strncasestr_from a as b p = do {
     c \<leftarrow> rd b 0;
     r \<leftarrow> memchr a p c (usub as p);
     (case r of
        None \<Rightarrow> Some None
      | Some q \<Rightarrow>
          if q + length b > as then Some None
          else do {
            e \<leftarrow> strncaseeq a q b;
            if e then Some (Some q) else strncasestr_from a as b (q + 1) }) }"
  by pat_completeness auto
termination
  by (relation "measure (\<lambda>(a, as, b, p). length a - p)") (auto dest!: memchr_SomeD)

definition strncasestr :: "byte list \<Rightarrow> nat \<Rightarrow> byte list \<Rightarrow> nat option option" where
  "strncasestr a as b = strncasestr_from a as b 0"

subsection \<open>TLS\<close>

function tls_ext_loop :: "nat \<Rightarrow> byte list \<Rightarrow> nat \<Rightarrow> nat \<Rightarrow> nat option" where
  "tls_ext_loop type data sz skip =
     (if skip + 4 < sz
      then do {
        epyt \<leftarrow> ANTOHS data skip;
        if type = epyt then Some skip
        else do {
          len \<leftarrow> ANTOHS data (skip + 2);
          tls_ext_loop type data sz (skip + (len + 4)) } }
      else Some 0)"
  by pat_completeness auto
termination
  by (relation "measure (\<lambda>(type, data, sz, skip). sz - skip)") auto

definition find_tls_ext_offset :: "nat \<Rightarrow> byte list \<Rightarrow> nat \<Rightarrow> nat \<Rightarrow> nat option" where
  "find_tls_ext_offset type data sz skip =
     (if sz \<le> skip + 2 then Some 0
      else do {
        ext_len \<leftarrow> ANTOHS data skip;
        let skip = skip + 2;
        let sz = (if ext_len < usub sz skip then ext_len + skip else sz);
        tls_ext_loop type data sz skip })"

definition chello_ext_offset :: "nat \<Rightarrow> byte list \<Rightarrow> nat \<Rightarrow> nat option" where
  "chello_ext_offset type data sz =
     (if sz < 44 then Some 0
      else do {
        c \<leftarrow> rd data 43;
        let sid_len = unat c;
        if sz < 44 + sid_len + 2 then Some 0
        else do {
          cip_len \<leftarrow> ANTOHS data (44 + sid_len);
          let skip = 44 + sid_len + 2 + cip_len + 2;
          find_tls_ext_offset type data sz skip } })"

definition change_tls_sni :: "byte list \<Rightarrow> byte list \<Rightarrow> nat \<Rightarrow> (int \<times> byte list) option" where
  "change_tls_sni host buffer bsize = do {
     sni_offs \<leftarrow> chello_ext_offset 0 buffer bsize;
     if sni_offs = 0 then Some (-1, buffer)
     else do {
       pad_offs \<leftarrow> chello_ext_offset 0x15 buffer bsize;
       if pad_offs = 0 then Some (-1, buffer)
       else do {
         old \<leftarrow> ANTOHS buffer (sni_offs + 2);
         let old_sz = u16 (int old - 5);
         free_sz \<leftarrow> ANTOHS buffer (pad_offs + 2);
         let new_sz = u16 (int (length host));
         let diff = int new_sz - int old_sz;
         if free_sz \<noteq> usub (usub bsize pad_offs) 4 \<or> int free_sz < diff then Some (-1, buffer)
         else do {
           b \<leftarrow> SHTONA buffer (sni_offs + 2) (int old_sz + diff + 5);
           b \<leftarrow> SHTONA b (sni_offs + 4) (int old_sz + diff + 3);
           b \<leftarrow> SHTONA b (sni_offs + 7) (int old_sz + diff);
           b \<leftarrow> SHTONA b (pad_offs + 2) (int free_sz - diff);
           let host_end = int (sni_offs + 9 + old_sz);
           let oth_sz = int bsize - int (sni_offs + 9 + old_sz);
           b \<leftarrow> memmove b (host_end + diff) host_end oth_sz;
           b \<leftarrow> mem_write b (sni_offs + 9) (take new_sz host);
           Some (0, b) } } } }"

definition is_tls_chello :: "byte list \<Rightarrow> nat \<Rightarrow> bool option" where
  "is_tls_chello buffer bsize =
     (if \<not> bsize > 5 then Some False
      else do {
        v \<leftarrow> ANTOHS buffer 0;
        if v \<noteq> 0x1603 then Some False else do { c \<leftarrow> rd buffer 5; Some (c = 1) } })"

text \<open>\<open>parse_tls\<close> and \<open>parse_http\<close> return the length and what they store in \<open>*hs\<close>, if they do.\<close>

definition parse_tls :: "byte list \<Rightarrow> nat \<Rightarrow> (int \<times> nat option) option" where
  "parse_tls buffer bsize = do {
     h \<leftarrow> is_tls_chello buffer bsize;
     if \<not> h then Some (0, None)
     else do {
       sni_offs \<leftarrow> chello_ext_offset 0 buffer bsize;
       if sni_offs = 0 \<or> sni_offs + 12 \<ge> bsize then Some (0, None)
       else do {
         len \<leftarrow> ANTOHS buffer (sni_offs + 7);
         if sni_offs + 9 + len > bsize then Some (0, None)
         else Some (int len, Some (sni_offs + 9)) } } }"

definition is_tls_shello :: "byte list \<Rightarrow> nat \<Rightarrow> bool option" where
  "is_tls_shello buffer bsize =
     (if \<not> bsize > 5 then Some False
      else do {
        v \<leftarrow> ANTOHS buffer 0;
        if v \<noteq> 0x1603 then Some False else do { c \<leftarrow> rd buffer 5; Some (c = 2) } })"

definition neq_tls_sid :: "byte list \<Rightarrow> nat \<Rightarrow> byte list \<Rightarrow> nat \<Rightarrow> bool option" where
  "neq_tls_sid req qn resp sn =
     (if qn < 75 \<or> sn < 75 then Some False
      else do {
        h \<leftarrow> is_tls_chello req qn;
        v \<leftarrow> ANTOHS resp 0;
        if \<not> h \<or> v \<noteq> 0x1603 then Some False
        else do {
          c \<leftarrow> rd req 43;
          let sid_len = unat c;
          let skip = 44 + sid_len + 3;
          offs \<leftarrow> find_tls_ext_offset 0x2b resp sn skip;
          if offs = 0 then Some False
          else do {
            d \<leftarrow> rd resp 43;
            if c \<noteq> d then Some True
            else do { e \<leftarrow> memeq req 44 resp 44 sid_len; Some (\<not> e) } } } })"

subsection \<open>HTTP\<close>

definition http_methods :: "byte list list" where
  "http_methods = map str [''HEAD'', ''GET'', ''POST'', ''PUT'', ''DELETE'',
     ''OPTIONS'', ''CONNECT'', ''TRACE'', ''PATCH'']"

fun any_method :: "byte list \<Rightarrow> byte list list \<Rightarrow> bool option" where
  "any_method b [] = Some False"
| "any_method b (m # ms) = do { e \<leftarrow> strneq b 0 m; if e then Some True else any_method b ms }"

definition is_http :: "byte list \<Rightarrow> nat \<Rightarrow> bool option" where
  "is_http buffer bsize =
     (if bsize < 16 then Some False
      else do {
        c \<leftarrow> rd buffer 0;
        if c > 84 \<or> c < 67 then Some False else any_method buffer http_methods })"

function skip_blank :: "byte list \<Rightarrow> nat \<Rightarrow> nat \<Rightarrow> nat option" where
  "skip_blank b buff_end host =
     (if host < buff_end
      then do { c \<leftarrow> rd b host; if isblank c then skip_blank b buff_end (host + 1) else Some host }
      else Some host)"
  by pat_completeness auto
termination
  by (relation "measure (\<lambda>(b, buff_end, host). buff_end - host)") auto

text \<open>\<open>for (; isspace(l_end[-1]); l_end--) {}\<close>\<close>

fun rewind_space :: "byte list \<Rightarrow> nat \<Rightarrow> nat option" where
  "rewind_space b 0 = None"
| "rewind_space b (Suc n) =
     (if n < length b then (if isspace (b ! n) then rewind_space b n else Some (Suc n)) else None)"

text \<open>The \<open>do ... while\<close> that leaves the last colon before \<open>l_end\<close> in \<open>h_end\<close>.\<close>

function last_colon :: "byte list \<Rightarrow> nat \<Rightarrow> nat \<Rightarrow> nat option \<Rightarrow> nat option option" where
  "last_colon b l_end h h_end = do {
     r \<leftarrow> memchr b h 58 (usub l_end h);
     (case r of
        None \<Rightarrow> Some h_end
      | Some q \<Rightarrow> if q + 1 < l_end then last_colon b l_end (q + 1) (Some q) else Some (Some q)) }"
  by pat_completeness auto
termination
  by (relation "measure (\<lambda>(b, l_end, h, h_end). l_end - h)") (auto dest!: memchr_SomeD)

definition parse_http ::
    "byte list \<Rightarrow> nat \<Rightarrow> bool \<Rightarrow> (int \<times> nat option \<times> nat option) option" where
  "parse_http buffer bsize want_port = do {
     h \<leftarrow> is_http buffer bsize;
     if \<not> h then Some (0, None, None)
     else do {
       r \<leftarrow> strncasestr buffer bsize (10 # str ''Host:'');
       (case r of
          None \<Rightarrow> Some (0, None, None)
        | Some p \<Rightarrow> do {
            host \<leftarrow> skip_blank buffer bsize (p + 6);
            l \<leftarrow> memchr buffer host 10 (usub bsize host);
            (case l of
               None \<Rightarrow> Some (0, None, None)
             | Some l_end \<Rightarrow> do {
                 l_end \<leftarrow> rewind_space buffer l_end;
                 c \<leftarrow> (if l_end = 0 then None else rd buffer (l_end - 1));
                 h_end \<leftarrow> (if \<not> isdigit c then Some None else last_colon buffer l_end host None);
                 (case h_end of
                    None \<Rightarrow>
                      Some (int l_end - int host, Some host, if want_port then Some 80 else None)
                  | Some he \<Rightarrow>
                      if want_port
                      then do {
                        (i, end) \<leftarrow> strtol buffer (he + 1) 10;
                        if i \<le> 0 \<or> end \<noteq> l_end \<or> i > 0xffff then Some (0, None, None)
                        else Some (int he - int host, Some host, Some (nat i)) }
                      else Some (int he - int host, Some host, None)) }) }) } }"

definition get_http_code :: "byte list \<Rightarrow> nat \<Rightarrow> int option" where
  "get_http_code b n =
     (if n < 13 then Some 0
      else do {
        e \<leftarrow> strneq b 0 (str ''HTTP/1.'');
        if \<not> e then Some 0
        else do {
          l \<leftarrow> memchr b 13 10 n;
          if l = None then Some 0
          else do {
            (num, e) \<leftarrow> strtol b 9 10;
            if num < 100 \<or> num > 511 then Some 0
            else do { c \<leftarrow> rd b e; Some (if isspace c then num else 0) } } } })"

text \<open>The conversion of an \<open>int\<close> length to \<open>size_t\<close>.\<close>

definition size_of_int :: "int \<Rightarrow> nat" where
  "size_of_int n = nat (n mod 2 ^ 64)"

text \<open>The two loops of \<open>is_http_redirect\<close> that drop leading labels from the longer of the two
  names; a result \<open>Some None\<close> is their \<open>return 1\<close>.\<close>

function redirect_location :: "byte list \<Rightarrow> nat \<Rightarrow> int \<Rightarrow> nat \<Rightarrow> nat option option" where
  "redirect_location resp e len location =
     (if int e - int location > len
      then do {
        r \<leftarrow> memchr resp location 46 (usub e location);
        (case r of
           None \<Rightarrow> Some None
         | Some q \<Rightarrow> redirect_location resp e len (q + 1)) }
      else Some (Some location))"
  by pat_completeness auto
termination
  by (relation "measure (\<lambda>(resp, e, len, location). length resp - location)")
     (auto dest!: memchr_SomeD)

function redirect_host :: "byte list \<Rightarrow> int \<Rightarrow> int \<Rightarrow> nat \<Rightarrow> (int \<times> nat) option option" where
  "redirect_host req room len host =
     (if len > room
      then do {
        r \<leftarrow> memchr req host 46 (size_of_int len);
        (case r of
           None \<Rightarrow> Some None
         | Some p \<Rightarrow> redirect_host req room (len - ((int host - int p) + 1)) (p + 1)) }
      else Some (Some (len, host)))"
  by pat_completeness auto
termination
  by (relation "measure (\<lambda>(req, room, len, host). length req - host)")
     (auto dest!: memchr_SomeD)

text \<open>\<open>strncmp(a + p, b + q, n) == 0\<close>\<close>

fun strncmp_eq :: "byte list \<Rightarrow> nat \<Rightarrow> byte list \<Rightarrow> nat \<Rightarrow> nat \<Rightarrow> bool option" where
  "strncmp_eq a p b q 0 = Some True"
| "strncmp_eq a p b q (Suc n) = do {
     x \<leftarrow> rd a p;
     y \<leftarrow> rd b q;
     if x \<noteq> y then Some False
     else if x = 0 then Some True else strncmp_eq a (Suc p) b (Suc q) n }"

definition is_http_redirect :: "byte list \<Rightarrow> nat \<Rightarrow> byte list \<Rightarrow> nat \<Rightarrow> bool option" where
  "is_http_redirect req qn resp sn = do {
     (len, hs, _) \<leftarrow> parse_http req qn False;
     if len \<le> 0 \<or> sn < 29 then Some False
     else do {
       host \<leftarrow> hs;
       code \<leftarrow> get_http_code resp sn;
       if code > 308 \<or> code < 300 then Some False
       else do {
         r \<leftarrow> strncasestr resp sn (10 # str ''Location:'');
         (case r of
            None \<Rightarrow> Some False
          | Some p \<Rightarrow>
              let location = p + 11 in
              if location + 8 \<ge> sn then Some False
              else do {
                l \<leftarrow> memchr resp location 10 (usub sn location);
                (case l of
                   None \<Rightarrow> Some False
                 | Some l_end \<Rightarrow> do {
                     l_end \<leftarrow> rewind_space resp l_end;
                     location \<leftarrow>
                       (if int l_end - int location > 7
                        then do {
                          h \<leftarrow> strneq resp location (str ''http://'');
                          if h then Some (location + 7)
                          else do {
                            hs \<leftarrow> strneq resp location (str ''https://'');
                            Some (if hs then location + 8 else location) } }
                        else Some location);
                     s \<leftarrow> memchr resp location 47 (usub l_end location);
                     let e = (case s of None \<Rightarrow> l_end | Some x \<Rightarrow> x);
                     loc \<leftarrow> redirect_location resp e len location;
                     (case loc of
                        None \<Rightarrow> Some True
                      | Some location \<Rightarrow> do {
                          hl \<leftarrow> redirect_host req (int e - int location) len host;
                          (case hl of
                             None \<Rightarrow> Some True
                           | Some (len, host) \<Rightarrow>
                               if int e - int location \<noteq> len then Some True
                               else do {
                                 eq \<leftarrow> strncmp_eq req host resp location (size_of_int len);
                                 Some (\<not> eq) }) }) }) }) } } }"

subsection \<open>Editing\<close>

text \<open>\<open>for (par = host - 1; *par != ':'; par--) {}\<close>\<close>

fun rewind_colon :: "byte list \<Rightarrow> nat \<Rightarrow> nat option" where
  "rewind_colon b 0 = None"
| "rewind_colon b (Suc n) =
     (if n < length b then (if b ! n = 58 then Some n else rewind_colon b n) else None)"

function mod_dmix :: "byte list \<Rightarrow> nat \<Rightarrow> int \<Rightarrow> nat \<Rightarrow> byte list option" where
  "mod_dmix b host hlen i =
     (if int i < hlen
      then do {
        c \<leftarrow> rd b (host + i);
        b \<leftarrow> wr b (host + i) (toupper c);
        mod_dmix b host hlen (i + 2) }
      else Some b)"
  by pat_completeness auto
termination
  by (relation "measure (\<lambda>(b, host, hlen, i). nat (hlen - int i))") auto

text \<open>\<open>for (; !isspace(*(host + hlen)); hlen++) {}\<close> with a signed \<open>hlen\<close>\<close>

function mod_value_end :: "byte list \<Rightarrow> int \<Rightarrow> int option" where
  "mod_value_end b q =
     (if 0 \<le> q \<and> q < int (length b)
      then (if isspace (b ! nat q) then Some q else mod_value_end b (q + 1))
      else None)"
  by pat_completeness auto
termination
  by (relation "measure (\<lambda>(b, q). nat (int (length b) - q))") auto

definition mod_hmix :: "byte list \<Rightarrow> nat \<Rightarrow> byte list option" where
  "mod_hmix b par = do {
     c0 \<leftarrow> rd b par;
     b \<leftarrow> wr b par (tolower c0);
     c1 \<leftarrow> rd b (par + 1);
     b \<leftarrow> wr b (par + 1) (toupper c1);
     c3 \<leftarrow> rd b (par + 3);
     wr b (par + 3) (toupper c3) }"

definition mod_http :: "byte list \<Rightarrow> nat \<Rightarrow> 32 word \<Rightarrow> (int \<times> byte list) option" where
  "mod_http buffer bsize m = do {
     (hlen, hs, _) \<leftarrow> parse_http buffer bsize False;
     if hlen = 0 then Some (-1, buffer)
     else do {
       host \<leftarrow> hs;
       colon \<leftarrow> rewind_colon buffer host;
       par \<leftarrow> (if colon < 4 then None else Some (colon - 4));
       b \<leftarrow> (if m AND MH_HMIX \<noteq> 0 then mod_hmix buffer par else Some buffer);
       b \<leftarrow> (if m AND MH_DMIX \<noteq> 0 then mod_dmix b host hlen 0 else Some b);
       b \<leftarrow> (if m AND MH_SPACE \<noteq> 0
            then do {
              end \<leftarrow> mod_value_end b (int host + hlen);
              let hlen = end - int host;
              let sc = int host - int (par + 5);
              b \<leftarrow> memmove b (int (par + 5)) (int host) hlen;
              memset b (int (par + 5) + hlen) 9 sc }
            else Some b);
       Some (0, b) } }"

definition part_tls :: "byte list \<Rightarrow> nat \<Rightarrow> int \<Rightarrow> int \<Rightarrow> (int \<times> byte list) option" where
  "part_tls buffer bsize n pos =
     (if n < 3 \<or> usub bsize (size_of_int n) < 5 \<or> pos < 0 \<or> pos + 5 > n then Some (0, buffer)
      else do {
        r_sz \<leftarrow> ANTOHS buffer 3;
        if int r_sz < pos then Some (n, buffer)
        else do {
          b \<leftarrow> memmove buffer (5 + pos + 5) (5 + pos) (n - (5 + pos));
          h \<leftarrow> mem_read b 0 3;
          b \<leftarrow> mem_write b (nat (5 + pos)) h;
          b \<leftarrow> SHTONA b 3 pos;
          b \<leftarrow> SHTONA b (nat (5 + pos + 3)) (int r_sz - pos);
          Some (5, b) } })"

subsection \<open>Abstract TLS records\<close>

text \<open>A record on the wire: three bytes of type and version, the length, the payload.\<close>

definition tls_record :: "byte list \<Rightarrow> byte list \<Rightarrow> byte list" where
  "tls_record h p = h @ be16 (length p) @ p"

declare strncasestr_from.simps [simp del]
declare tls_ext_loop.simps [simp del]
declare skip_blank.simps [simp del]
declare last_colon.simps [simp del]
declare redirect_location.simps [simp del]
declare redirect_host.simps [simp del]
declare mod_dmix.simps [simp del]
declare mod_value_end.simps [simp del]

section \<open>Lemmas\<close>

subsection \<open>TLS parsing stays inside the buffer\<close>

lemma tls_ext_loop_safe:
  "sz \<le> length data \<Longrightarrow>
     \<exists>r. tls_ext_loop type data sz skip = Some r \<and> (r \<noteq> 0 \<longrightarrow> skip \<le> r \<and> r + 4 < sz)"
proof (induction type data sz skip rule: tls_ext_loop.induct)
  case (1 type data sz skip)
  show ?case
  proof (cases "skip + 4 < sz")
    case True
    obtain t l where t: "ANTOHS data skip = Some t" and l: "ANTOHS data (skip + 2) = Some l"
      using True "1.prems" by (simp add: layout)
    show ?thesis
    proof (cases "type = t")
      case False
      with "1.IH" [OF True t False l] "1.prems" True t l show ?thesis
        by (auto simp: tls_ext_loop.simps [of type data sz skip])
    qed (use True t in \<open>subst tls_ext_loop.simps, auto\<close>)
  qed (simp add: tls_ext_loop.simps [of type data sz skip])
qed

lemma find_tls_ext_offset_safe:
  assumes "sz \<le> length data"
  shows "\<exists>r. find_tls_ext_offset type data sz skip = Some r \<and> (r \<noteq> 0 \<longrightarrow> skip + 2 \<le> r \<and> r + 4 < sz)"
proof (cases "sz \<le> skip + 2")
  case False
  obtain x where x: "ANTOHS data skip = Some x"
    using False assms by (simp add: layout)
  let ?sz = "if x < usub sz (skip + 2) then x + (skip + 2) else sz"
  have le: "?sz \<le> sz"
    using False by (auto simp: usub_def)
  obtain r where "tls_ext_loop type data ?sz (skip + 2) = Some r"
      "r \<noteq> 0 \<longrightarrow> skip + 2 \<le> r \<and> r + 4 < ?sz"
    using tls_ext_loop_safe [of ?sz data type "skip + 2"] le assms by auto
  then show ?thesis
    using False x le by (auto simp: find_tls_ext_offset_def Let_def)
qed (simp add: find_tls_ext_offset_def)

lemma chello_ext_offset_safe:
  assumes "sz \<le> length data"
  shows "\<exists>r. chello_ext_offset type data sz = Some r \<and> (r \<noteq> 0 \<longrightarrow> 48 \<le> r \<and> r + 4 < sz)"
proof (cases "sz < 44 \<or> sz < 44 + unat (data ! 43) + 2")
  case True
  then show ?thesis using assms by (auto simp: chello_ext_offset_def Let_def layout)
next
  case False
  then have "43 < length data" "44 + unat (data ! 43) + 1 < length data"
    using assms by simp_all
  then obtain x where x: "43 < length data" "ANTOHS data (44 + unat (data ! 43)) = Some x"
    by (simp add: layout)
  from find_tls_ext_offset_safe [OF assms, of type "44 + unat (data ! 43) + 2 + x + 2"]
  show ?thesis
    using False x by (auto simp: chello_ext_offset_def Let_def)
qed

lemma is_tls_chello_safe: "sz \<le> length b \<Longrightarrow> \<exists>r. is_tls_chello b sz = Some r"
  by (auto simp: is_tls_chello_def layout)

lemma memeq_safe: "p + n \<le> length a \<Longrightarrow> q + n \<le> length b \<Longrightarrow> memeq a p b q n \<noteq> None"
  by (simp add: memeq_def mem_read_def)

subsection \<open>HTTP parsing stays inside the buffer\<close>

lemma strncasestr_from_safe:
  "as \<le> length a \<Longrightarrow> b \<noteq> [] \<Longrightarrow> p \<le> as \<Longrightarrow>
     \<exists>r. strncasestr_from a as b p = Some r \<and>
       (\<forall>q. r = Some q \<longrightarrow> p \<le> q \<and> q + length b \<le> as \<and> strncaseeq a q b = Some True)"
proof (induction a as b p rule: strncasestr_from.induct)
  case (1 a as b p)
  obtain r where r: "memchr a p (b ! 0) (usub as p) = Some r"
    using memchr_in_range [of p "usub as p" a "b ! 0"] "1.prems" by (auto simp: usub_def)
  have c: "rd b 0 = Some (b ! 0)" using "1.prems" by simp
  show ?case
  proof (cases r)
    case None
    with r c show ?thesis by (simp add: strncasestr_from.simps [of a as b p])
  next
    case (Some q)
    note q = memchr_SomeD [OF r [unfolded Some]]
    show ?thesis
    proof (cases "q + length b > as")
      case True
      with r c Some show ?thesis by (simp add: strncasestr_from.simps [of a as b p])
    next
      case False
      obtain e where e: "strncaseeq a q b = Some e"
        using strncaseeq_in_range [of q b a] False "1.prems" by auto
      show ?thesis
      proof (cases e)
        case True
        with r c Some q e False show ?thesis
          by (simp add: strncasestr_from.simps [of a as b p])
      next
        case ne: False
        have "q + 1 \<le> as" using False "1.prems" by (cases b) auto
        from "1.IH" [OF c r Some False e ne "1.prems"(1,2) this] obtain s where
          s: "strncasestr_from a as b (q + 1) = Some s"
             "\<forall>k. s = Some k \<longrightarrow> q + 1 \<le> k \<and> k + length b \<le> as \<and> strncaseeq a k b = Some True"
          by blast
        moreover have "strncasestr_from a as b p = strncasestr_from a as b (q + 1)"
          using r c Some e ne False by (simp add: strncasestr_from.simps [of a as b p])
        ultimately show ?thesis
          using q by (intro exI [of _ s]) fastforce
      qed
    qed
  qed
qed

lemma strncasestr_safe:
  "as \<le> length a \<Longrightarrow> b \<noteq> [] \<Longrightarrow>
     \<exists>r. strncasestr a as b = Some r \<and>
       (\<forall>q. r = Some q \<longrightarrow> q + length b \<le> as \<and> strncaseeq a q b = Some True)"
  using strncasestr_from_safe [of as a b 0] by (auto simp: strncasestr_def)

lemma any_method_safe:
  "\<forall>m \<in> set ms. length m \<le> length b \<Longrightarrow> any_method b ms \<noteq> None"
proof (induction ms)
  case (Cons m ms)
  then obtain e where "strneq b 0 m = Some e"
    using strneq_in_range [of 0 m b] by auto
  with Cons show ?case by (cases e) auto
qed simp

lemma http_methods_short: "\<forall>m \<in> set http_methods. length m \<le> 7"
  by (simp add: http_methods_def str_def)

lemma is_http_safe: "bsize \<le> length b \<Longrightarrow> \<exists>r. is_http b bsize = Some r"
proof -
  assume "bsize \<le> length b"
  moreover have "any_method b http_methods \<noteq> None" if "16 \<le> length b"
    using that http_methods_short by (intro any_method_safe) fastforce
  ultimately show ?thesis
    by (cases "bsize < 16"; cases b) (auto simp: is_http_def)
qed

lemma skip_blank_safe:
  "buff_end \<le> length b \<Longrightarrow> host \<le> buff_end \<Longrightarrow>
     \<exists>h. skip_blank b buff_end host = Some h \<and> host \<le> h \<and> h \<le> buff_end \<and>
       (\<forall>i. host \<le> i \<and> i < h \<longrightarrow> isblank (b ! i))"
proof (induction b buff_end host rule: skip_blank.induct)
  case (1 b buff_end host)
  show ?case
  proof (cases "host < buff_end \<and> isblank (b ! host)")
    case True
    then have "rd b host = Some (b ! host)" using "1.prems" by simp
    from "1.IH" [OF _ this] True "1.prems" obtain h where
      h: "skip_blank b buff_end (host + 1) = Some h" "host + 1 \<le> h" "h \<le> buff_end"
         "\<forall>i. host + 1 \<le> i \<and> i < h \<longrightarrow> isblank (b ! i)"
      by auto
    have "\<forall>i. host \<le> i \<and> i < h \<longrightarrow> isblank (b ! i)"
      using True h(4) by (metis Suc_eq_plus1 Suc_leI le_neq_implies_less)
    with True h "1.prems" show ?thesis
      by (simp add: skip_blank.simps [of b buff_end host])
  next
    case False
    with "1.prems" show ?thesis
      by (auto simp: skip_blank.simps [of b buff_end host])
  qed
qed

lemma rewind_space_safe:
  "k < l \<Longrightarrow> l \<le> length b \<Longrightarrow> \<not> isspace (b ! k) \<Longrightarrow>
     \<exists>e. rewind_space b l = Some e \<and> k < e \<and> e \<le> l \<and> \<not> isspace (b ! (e - 1)) \<and>
       (\<forall>i. e \<le> i \<and> i < l \<longrightarrow> isspace (b ! i))"
proof (induction b l rule: rewind_space.induct)
  case (2 b n)
  show ?case
  proof (cases "isspace (b ! n)")
    case True
    with 2 have "k < n" by (metis less_antisym)
    with 2 True obtain e where "rewind_space b n = Some e" "k < e" "e \<le> n" "\<not> isspace (b ! (e - 1))"
        "\<forall>i. e \<le> i \<and> i < n \<longrightarrow> isspace (b ! i)"
      by auto
    with 2 True show ?thesis by (auto simp: less_Suc_eq)
  qed (use 2 in auto)
qed simp

lemma last_colon_safe:
  "h \<le> l_end \<Longrightarrow> l_end \<le> length b \<Longrightarrow>
     \<exists>r. last_colon b l_end h h_end = Some r \<and>
       (\<forall>q. r = Some q \<longrightarrow> q < l_end \<and> h \<le> q \<or> h_end = Some q)"
proof (induction b l_end h h_end rule: last_colon.induct)
  case (1 b l_end h h_end)
  obtain r where r: "memchr b h 58 (usub l_end h) = Some r"
    using memchr_in_range [of h "usub l_end h" b 58] "1.prems" by (auto simp: usub_def)
  show ?case
  proof (cases r)
    case None
    with r show ?thesis by (simp add: last_colon.simps [of b l_end h])
  next
    case (Some q)
    note q = memchr_SomeD [OF r [unfolded Some]]
    then have ql: "q < l_end" using "1.prems" by (simp add: usub_def)
    show ?thesis
    proof (cases "q + 1 < l_end")
      case True
      from "1.IH" [OF r Some True] "1.prems" True obtain s where
        "last_colon b l_end (q + 1) (Some q) = Some s"
        "\<forall>k. s = Some k \<longrightarrow> k < l_end \<and> q + 1 \<le> k \<or> Some q = Some k"
        by auto
      with r Some True q ql show ?thesis
        by (auto simp: last_colon.simps [of b l_end h])
    next
      case False
      with r Some q ql show ?thesis by (simp add: last_colon.simps [of b l_end h])
    qed
  qed
qed

lemma isblank_isspace: "isblank c \<Longrightarrow> isspace c"
  by (auto simp: isblank_def isspace_def)

lemma isdigit_not_isspace: "isdigit c \<Longrightarrow> \<not> isspace c"
  by (auto simp: isdigit_def isspace_def word_le_nat_alt)

lemma host_label_colon:
  assumes "strncaseeq b p (10 # str ''Host:'') = Some True"
  shows "p + 5 < length b \<and> b ! (p + 5) = 58"
proof -
  have "tolower (b ! (p + 5)) = 58" "p + 5 < length b"
    using strncaseeq_TrueD [OF assms, of 5] by (simp_all add: str_def tolower_def)
  moreover have "tolower c = 58 \<Longrightarrow> c = 58" for c
    by (auto simp: tolower_def word_le_nat_alt word_unat_eq_iff unat_word_ariths split: if_splits)
  ultimately show ?thesis by blast
qed

lemma http_line_end:
  assumes p: "p + 6 \<le> bsize" "b ! (p + 5) = 58" and b: "bsize \<le> length b"
    and host: "skip_blank b bsize (p + 6) = Some host"
    and l: "memchr b host 10 (usub bsize host) = Some (Some l)"
  shows "\<exists>l_end. rewind_space b l = Some l_end \<and> p + 6 \<le> l_end \<and> l_end \<le> l \<and> l < bsize \<and>
           p + 6 \<le> host \<and> host \<le> l \<and>
           (isdigit (b ! (l_end - 1)) \<longrightarrow> host < l_end)"
proof -
  from skip_blank_safe [OF b p(1)] host have h: "p + 6 \<le> host" "host \<le> bsize"
      "\<forall>i. p + 6 \<le> i \<and> i < host \<longrightarrow> isblank (b ! i)"
    by auto
  have l': "host \<le> l" "l < bsize"
    using memchr_SomeD [OF l] h(2) by (auto simp: usub_def)
  have "\<not> isspace (b ! (p + 5))" using p(2) by (simp add: isspace_def)
  with rewind_space_safe [of "p + 5" l b] h l' b obtain l_end where
    e: "rewind_space b l = Some l_end" "p + 5 < l_end" "l_end \<le> l" by auto
  have "host < l_end" if d: "isdigit (b ! (l_end - 1))"
  proof (rule ccontr)
    assume "\<not> host < l_end"
    then have "isblank (b ! (l_end - 1))" if "l_end \<noteq> p + 6"
      using that h(3) e(2) by (auto intro!: h(3) [rule_format])
    then have "l_end - 1 = p + 5 \<or> isblank (b ! (l_end - 1))" by (cases "l_end = p + 6") auto
    then have "isspace (b ! (l_end - 1)) \<or> b ! (l_end - 1) = 58"
      using p(2) isblank_isspace by metis
    with d show False by (auto simp: isdigit_not_isspace isdigit_def)
  qed
  with e h l' show ?thesis by auto
qed


text \<open>What a successful search leaves: the colon of the label before the value, and a length that
  stays inside the request but may be negative.\<close>

lemma parse_http_result:
  assumes b: "bsize \<le> length buffer"
  shows "\<exists>len hs. parse_http buffer bsize False = Some (len, hs, None) \<and>
           (len \<noteq> 0 \<longrightarrow> (\<exists>h k. hs = Some h \<and> 5 \<le> k \<and> k < h \<and> buffer ! k = 58 \<and>
              h < bsize \<and> int k < int h + len \<and> int h + len < int bsize))"
proof -
  obtain ih where ih: "is_http buffer bsize = Some ih"
    using is_http_safe [OF b] by blast
  obtain r where r: "strncasestr buffer bsize (10 # str ''Host:'') = Some r"
      "\<And>q. r = Some q \<Longrightarrow> q + 6 \<le> bsize \<and> strncaseeq buffer q (10 # str ''Host:'') = Some True"
  proof -
    have "length (10 # str ''Host:'') = 6" by (simp add: str_def)
    with strncasestr_safe [OF b, of "10 # str ''Host:''"] show thesis
      using that by (metis list.distinct(1))
  qed
  show ?thesis
  proof (cases "ih \<and> r \<noteq> None")
    case False
    with ih r show ?thesis by (auto simp: parse_http_def)
  next
    case True
    then obtain p where p: "r = Some p" by auto
    note pr = r(2) [OF p] and col = host_label_colon [OF conjunct2 [OF r(2) [OF p]]]
    obtain host where host: "skip_blank buffer bsize (p + 6) = Some host" "host \<le> bsize"
      using skip_blank_safe [OF b] pr by blast
    then obtain l where l: "memchr buffer host 10 (usub bsize host) = Some l"
      using memchr_in_range [of host "usub bsize host" buffer] b by (auto simp: usub_def)
    show ?thesis
    proof (cases l)
      case None
      with ih r(1) True p host l show ?thesis by (simp add: parse_http_def)
    next
      case (Some lf)
      with http_line_end [OF _ _ b host(1), of lf] pr col l obtain l_end where
        e: "rewind_space buffer lf = Some l_end" "p + 6 \<le> l_end" "l_end \<le> lf" "lf < bsize"
           "p + 6 \<le> host" "host \<le> lf" "isdigit (buffer ! (l_end - 1)) \<longrightarrow> host < l_end"
        by auto
      obtain h_end where he: "(if \<not> isdigit (buffer ! (l_end - 1)) then Some None
            else last_colon buffer l_end host None) = Some h_end"
          "\<forall>q. h_end = Some q \<longrightarrow> q < l_end \<and> host \<le> q"
        using last_colon_safe [of host l_end buffer None] e b
        by (cases "isdigit (buffer ! (l_end - 1))") auto
      have c: "(if l_end = 0 then None else rd buffer (l_end - 1)) = Some (buffer ! (l_end - 1))"
        using e b by simp
      have "parse_http buffer bsize False = (case h_end of
            None \<Rightarrow> Some (int l_end - int host, Some host, None)
          | Some q \<Rightarrow> Some (int q - int host, Some host, None))"
        using ih r(1) True p host l Some e(1) he(1) c by (simp add: parse_http_def split: option.split)
      with e he(2) col show ?thesis
        by (cases h_end) (auto intro!: exI [of _ "p + 5"])
    qed
  qed
qed

subsection \<open>Header edits change the case of letters only\<close>

lemma rewind_colon_safe:
  "k < n \<Longrightarrow> n \<le> length b \<Longrightarrow> b ! k = 58 \<Longrightarrow> \<exists>c. rewind_colon b n = Some c \<and> k \<le> c \<and> c < n"
proof (induction b n rule: rewind_colon.induct)
  case (2 b n)
  then show ?case by (cases "k = n") auto
qed simp

lemma map_tolower_update:
  "i < length b \<Longrightarrow> tolower v = tolower (b ! i) \<Longrightarrow> map tolower (b[i := v]) = map tolower b"
  by (simp add: map_update list_update_same_conv)

lemma mod_dmix_letters:
  "int host + hlen \<le> int (length b) \<Longrightarrow>
     \<exists>b'. mod_dmix b host hlen i = Some b' \<and> map tolower b' = map tolower b"
proof (induction b host hlen i rule: mod_dmix.induct)
  case (1 b host hlen i)
  show ?case
  proof (cases "int i < hlen")
    case True
    with "1.prems" have i: "host + i < length b" by simp
    let ?b = "b[host + i := toupper (b ! (host + i))]"
    from "1.IH" [OF True, of "b ! (host + i)" ?b] i "1.prems" obtain b' where
      "mod_dmix ?b host hlen (i + 2) = Some b'" "map tolower b' = map tolower ?b"
      by auto
    with True i show ?thesis
      by (simp add: mod_dmix.simps [of b] map_tolower_update)
  qed (simp add: mod_dmix.simps [of b])
qed

lemma mod_hmix_letters:
  assumes "par + 3 < length b"
  shows "\<exists>b'. mod_hmix b par = Some b' \<and> map tolower b' = map tolower b"
  using assms by (simp add: mod_hmix_def map_tolower_update)

subsection \<open>Splitting a record\<close>

lemma be16_length [simp]: "length (be16 x) = 2"
  by (simp add: be16_def)

lemma length_5_cases:
  assumes "length X = 5"
  obtains a b c d e where "X = [a, b, c, d, e]"
  using assms by (cases X rule: list.exhaust) (auto simp: length_Suc_conv eval_nat_numeral)

lemma part_tls_gap:
  assumes "length h = 3" "pos \<le> length p" "5 \<le> length rest"
  obtains a b c d e where
    "memmove (tls_record h p @ rest) (5 + int pos + 5) (5 + int pos) (int (5 + length p) - (5 + int pos))
       = Some (h @ be16 (length p) @ take pos p @ [a, b, c, d, e] @ drop pos p @ drop 5 rest)"
proof -
  let ?u = "h @ be16 (length p) @ take pos p"
  have "tls_record h p @ rest = ?u @ drop pos p @ rest"
    by (simp add: tls_record_def)
  moreover have "\<exists>X. length X = length (replicate 5 (0 :: byte)) \<and>
      memmove (?u @ drop pos p @ rest) (5 + int pos + 5) (5 + int pos) (int (5 + length p) - (5 + int pos))
        = Some (?u @ X @ drop pos p @ drop (length (replicate 5 (0 :: byte))) rest)"
    by (rule memmove_up_append) (use assms in simp_all)
  then obtain X where "length X = 5"
      "memmove (?u @ drop pos p @ rest) (5 + int pos + 5) (5 + int pos) (int (5 + length p) - (5 + int pos))
        = Some (?u @ X @ drop pos p @ drop 5 rest)"
    unfolding length_replicate by blast
  ultimately show thesis
    by (elim length_5_cases) (rule that, simp only: append.assoc)
qed

lemma part_tls_headers:
  assumes "length h = 3" "length p < 65536" "pos \<le> length p"
  shows "do {
      g \<leftarrow> mem_read (h @ be16 (length p) @ take pos p @ [a, b, c, d, e] @ q) 0 3;
      B \<leftarrow> mem_write (h @ be16 (length p) @ take pos p @ [a, b, c, d, e] @ q) (nat (5 + int pos)) g;
      B \<leftarrow> SHTONA B 3 (int pos);
      B \<leftarrow> SHTONA B (nat (5 + int pos + 3)) (int (length p) - int pos);
      Some (5 :: int, B) }
    = Some (5, h @ be16 pos @ take pos p @ h @ be16 (length p - pos) @ q)"
proof -
  have r: "mem_read (h @ be16 (length p) @ take pos p @ [a, b, c, d, e] @ q) 0 3 = Some h"
    using assms(1) by (simp add: mem_read_def)
  have w1: "mem_write (h @ be16 (length p) @ take pos p @ [a, b, c, d, e] @ q) (nat (5 + int pos)) h
      = Some (h @ be16 (length p) @ take pos p @ h @ d # e # q)"
    using mem_write_append [of "5 + pos" "h @ be16 (length p) @ take pos p" "[a, b, c]" h "d # e # q"] assms
    by simp
  have w2: "SHTONA (h @ be16 (length p) @ take pos p @ h @ d # e # q) 3 (int pos)
      = Some (h @ be16 pos @ take pos p @ h @ d # e # q)"
    using SHTONA_append [of 3 h "hi8 (length p)" "lo8 (length p)"] assms by (simp add: be16_def u16_of_nat)
  have w3: "SHTONA (h @ be16 pos @ take pos p @ h @ d # e # q) (nat (5 + int pos + 3)) (int (length p) - int pos)
      = Some (h @ be16 pos @ take pos p @ h @ be16 (length p - pos) @ q)"
    using SHTONA_append [of "8 + pos" "h @ be16 pos @ take pos p @ h" d e q "int (length p - pos)"]
      assms u16_of_nat [of "length p - pos"] by simp
  show ?thesis
    by (simp only: r w1 w2 w3 bind.bind_lunit)
qed

subsection \<open>The built-in hello\<close>

lemma tls_data_length [simp]: "length tls_data = 517"
  by (simp add: tls_data_def)

lemma tls_data_offsets:
  "chello_ext_offset 0 tls_data 517 = Some 144"
  "chello_ext_offset 0x15 tls_data 517 = Some 341"
  "ANTOHS tls_data 146 = Some 22"
  "ANTOHS tls_data 343 = Some 172"
  by code_simp+

text \<open>The built-in hello with the four length fields of a name of \<open>k\<close> bytes.\<close>

definition tls_data_lengths :: "nat \<Rightarrow> byte list" where
  "tls_data_lengths k =
     tls_data [146 := hi8 (k + 5), 147 := lo8 (k + 5), 148 := hi8 (k + 3), 149 := lo8 (k + 3),
       151 := hi8 k, 152 := lo8 k, 343 := hi8 (u16 (189 - int k)), 344 := lo8 (u16 (189 - int k))]"

lemma tls_data_lengths_length [simp]: "length (tls_data_lengths k) = 517"
  by (simp add: tls_data_lengths_def)

lemma tls_data_lengths_head:
  "take 153 (tls_data_lengths k) =
     take 146 tls_data @ be16 (k + 5) @ be16 (k + 3) @ [0] @ be16 k"
proof -
  have "take 153 tls_data = take 146 tls_data @ [0, 22, 0, 20, 0, 0, 17]"
    by code_simp
  then show ?thesis
    by (simp add: tls_data_lengths_def take_update_swap be16_def list_update_append)
qed

lemma change_tls_sni_tls_data:
  assumes "length host \<le> 189"
  shows "change_tls_sni host tls_data 517 = do {
    b \<leftarrow> memmove (tls_data_lengths (length host)) (153 + int (length host)) 170 347;
    b \<leftarrow> mem_write b 153 host;
    Some (0, b) }"
proof -
  have z: "u16 17 = 17" "u16 (int (length host)) = length host"
      "u16 (int (length host) + 5) = length host + 5" "u16 (int (length host) + 3) = length host + 3"
    using assms by (simp_all add: u16_def)
  show ?thesis
    using assms
    by (simp add: change_tls_sni_def tls_data_offsets usub_def z layout tls_data_lengths_def
        algebra_simps Let_def)
qed

lemma tls_data_sni:
  assumes "length b = 517" "k \<le> 189"
    and "take 153 b = take 146 tls_data @ be16 (k + 5) @ be16 (k + 3) @ [0] @ be16 k"
  shows "parse_tls b 517 = Some (int k, Some 153)"
proof -
  let ?h = "be16 (k + 5) @ be16 (k + 3) @ [0] @ be16 k"
  have nth: "b ! i = (take 146 tls_data @ ?h) ! i" if "i < 153" for i
    using that nth_take [of i 153 b] unfolding assms(3) by metis
  have pre: "b ! i = tls_data ! i" if "i < 146" for i
    using that nth [of i] by (simp add: nth_append)
  have len: "ANTOHS b 151 = Some k"
    using assms(1,2) nth [of 151] nth [of 152] by (simp add: layout nth_append be16_def be16_value)
  have bytes: "tls_data ! 0 = 22" "tls_data ! 1 = 3" "tls_data ! 5 = 1" "tls_data ! 43 = 32"
      "tls_data ! 76 = 0" "tls_data ! 77 = 62" "tls_data ! 142 = 1" "tls_data ! 143 = 117"
      "tls_data ! 144 = 0" "tls_data ! 145 = 0"
    by code_simp+
  have "is_tls_chello b 517 = Some True"
    using assms(1) pre [of 0] pre [of 1] pre [of 5] bytes by (simp add: is_tls_chello_def layout)
  moreover have "chello_ext_offset 0 b 517 = Some 144"
    using assms(1) pre [of 43] pre [of 76] pre [of 77] pre [of 142] pre [of 143] pre [of 144] pre [of 145] bytes
    by (simp add: chello_ext_offset_def find_tls_ext_offset_def usub_def layout Let_def
        tls_ext_loop.simps)
  ultimately show ?thesis
    using len assms(2) by (simp add: parse_tls_def)
qed

section \<open>Properties\<close>

text \<open>C16: \<open>parse_tls\<close> never reads outside the buffer, whatever bytes it holds, and a host name it
  reports lies completely inside the received bytes.\<close>

theorem parse_tls_in_bounds:
  assumes "bsize \<le> length buffer"
  shows "\<exists>len hs. parse_tls buffer bsize = Some (len, hs) \<and> 0 \<le> len \<and>
           (len \<noteq> 0 \<longrightarrow> (\<exists>h. hs = Some h \<and> h + nat len \<le> bsize))"
proof -
  obtain c where c: "is_tls_chello buffer bsize = Some c"
    using is_tls_chello_safe [OF assms] by blast
  obtain r where r: "chello_ext_offset 0 buffer bsize = Some r" "r \<noteq> 0 \<longrightarrow> r + 4 < bsize"
    using chello_ext_offset_safe [OF assms] by blast
  have "\<exists>l. ANTOHS buffer (r + 7) = Some l" if "\<not> r + 12 \<ge> bsize"
    using that assms by (simp add: layout)
  then show ?thesis
    using c r by (auto simp: parse_tls_def)
qed

theorem parse_tls_in_bounds_witness:
  "517 \<le> length tls_data \<and> (\<exists>len hs. parse_tls tls_data 517 = Some (len, hs) \<and> 0 \<le> len \<and>
     (len \<noteq> 0 \<longrightarrow> (\<exists>h. hs = Some h \<and> h + nat len \<le> 517)))"
  using parse_tls_in_bounds [of 517 tls_data] by simp

text \<open>C29: \<open>parse_http\<close> never reads outside the buffer. A host it reports starts inside the request,
  after the label, and its end lies inside the request too; the length itself can be negative.\<close>

theorem parse_http_in_bounds:
  assumes "bsize \<le> length buffer"
  shows "\<exists>len hs. parse_http buffer bsize False = Some (len, hs, None) \<and>
           (len \<noteq> 0 \<longrightarrow> (\<exists>h. hs = Some h \<and> 6 \<le> h \<and> h < bsize \<and>
              6 \<le> int h + len \<and> int h + len < int bsize))"
  using parse_http_result [OF assms] by fastforce

theorem parse_http_in_bounds_witness:
  "43 \<le> length http_data \<and> (\<exists>len hs. parse_http http_data 43 False = Some (len, hs, None) \<and>
     (len \<noteq> 0 \<longrightarrow> (\<exists>h. hs = Some h \<and> 6 \<le> h \<and> h < 43 \<and> 6 \<le> int h + len \<and> int h + len < int 43)))"
proof -
  have "43 \<le> length http_data" by (simp add: http_data_def str_def)
  then show ?thesis using parse_http_in_bounds [of 43 http_data] by blast
qed

text \<open>C14: \<open>part_tls\<close> cuts a TLS record in two: when the buffer starts with one record of payload \<open>p\<close>
  and has five spare bytes, the result starts with a record of the first \<open>pos\<close> bytes and a record of
  the rest, both with the type and version of the original, and nothing of the payload is lost.\<close>

theorem part_tls_splits_record:
  assumes "length h = 3" "length p < 65536" "5 \<le> length rest"
    and "5 + length p + 5 \<le> bsize" "pos \<le> length p"
  shows "part_tls (tls_record h p @ rest) bsize (int (5 + length p)) (int pos)
    = Some (5, tls_record h (take pos p) @ tls_record h (drop pos p) @ drop 5 rest)"
proof -
  have guard: "\<not> usub bsize (size_of_int (int (5 + length p))) < 5"
    using assms(2,4) by (auto simp: usub_def size_of_int_def nat_add_distrib)
  have len: "ANTOHS (tls_record h p @ rest) 3 = Some (length p)"
    using ANTOHS_append [of 3 h "length p" "p @ rest"] assms(1,2) by (simp add: tls_record_def)
  obtain a b c d e where m:
    "memmove (tls_record h p @ rest) (5 + int pos + 5) (5 + int pos) (int (5 + length p) - (5 + int pos))
       = Some (h @ be16 (length p) @ take pos p @ [a, b, c, d, e] @ drop pos p @ drop 5 rest)"
    using part_tls_gap [OF assms(1,5,3)] by blast
  have "part_tls (tls_record h p @ rest) bsize (int (5 + length p)) (int pos)
      = Some (5, h @ be16 pos @ take pos p @ h @ be16 (length p - pos) @ drop pos p @ drop 5 rest)"
    unfolding part_tls_def len m bind.bind_lunit part_tls_headers [OF assms(1,2,5)]
    using guard assms(5) by simp
  then show ?thesis
    using assms(5) by (simp add: tls_record_def)
qed

theorem part_tls_splits_record_witness:
  "part_tls (tls_record [22, 3, 1] [1, 2, 3, 4] @ replicate 7 0) 16 (int (5 + length [1, 2, 3, 4 :: byte])) (int 3)
     = Some (5, tls_record [22, 3, 1] (take 3 [1, 2, 3, 4]) @ tls_record [22, 3, 1] (drop 3 [1, 2, 3, 4]) @
         drop 5 (replicate 7 0))"
  by (rule part_tls_splits_record) simp_all

text \<open>C30: Without \<open>MH_SPACE\<close>, \<open>mod_http\<close> is memory safe for every request and changes nothing but the
  case of letters: the edited request is the original one for a server that ignores case.\<close>

theorem mod_http_keeps_letters:
  assumes b: "bsize \<le> length buffer" and m: "m AND MH_SPACE = 0"
  shows "\<exists>r b'. mod_http buffer bsize m = Some (r, b') \<and> map tolower b' = map tolower buffer"
proof -
  obtain len hs where p: "parse_http buffer bsize False = Some (len, hs, None)"
      "len \<noteq> 0 \<longrightarrow> (\<exists>h k. hs = Some h \<and> 5 \<le> k \<and> k < h \<and> buffer ! k = 58 \<and>
              h < bsize \<and> int k < int h + len \<and> int h + len < int bsize)"
    using parse_http_result [OF b] by blast
  show ?thesis
  proof (cases "len = 0")
    case True
    with p show ?thesis by (simp add: mod_http_def)
  next
    case False
    with p(2) obtain h k where h: "hs = Some h" "5 \<le> k" "k < h" "buffer ! k = 58" "h < bsize"
        "int h + len < int bsize" by auto
    with rewind_colon_safe [of k h buffer] b obtain c where
      c: "rewind_colon buffer h = Some c" "k \<le> c" "c < h" by auto
    obtain b1 where b1: "(if m AND MH_HMIX \<noteq> 0 then mod_hmix buffer (c - 4) else Some buffer) = Some b1"
        "map tolower b1 = map tolower buffer"
    proof -
      have "c - 4 + 3 < length buffer" using c h b by linarith
      then show thesis
        using mod_hmix_letters that by (cases "m AND MH_HMIX \<noteq> 0") auto
    qed
    then have "length b1 = length buffer" by (metis length_map)
    then obtain b2 where b2: "(if m AND MH_DMIX \<noteq> 0 then mod_dmix b1 h len 0 else Some b1) = Some b2"
        "map tolower b2 = map tolower b1"
      using mod_dmix_letters [of h len b1 0] h b by (cases "m AND MH_DMIX \<noteq> 0") auto
    have "mod_http buffer bsize m = Some (0, b2)"
      using p(1) False h(1,2) c m b1(1) b2(1) by (simp add: mod_http_def)
    with b1(2) b2(2) show ?thesis by simp
  qed
qed

theorem mod_http_keeps_letters_witness:
  "43 \<le> length http_data \<and> (5 :: 32 word) AND MH_SPACE = 0 \<and>
   (\<exists>r b'. mod_http http_data 43 5 = Some (r, b') \<and> map tolower b' = map tolower http_data)"
proof -
  have h: "43 \<le> length http_data" by (simp add: http_data_def str_def)
  have m: "(5 :: 32 word) AND MH_SPACE = 0" by (simp add: MH_SPACE_def)
  from h m mod_http_keeps_letters [OF h m] show ?thesis by blast
qed

text \<open>With \<open>MH_SPACE\<close>, a request whose \<open>Host\<close> header has a blank and no value makes \<open>mod_http\<close> call
  \<open>memmove\<close> with the length \<open>-1\<close>: the process crashes.\<close>

theorem mod_http_blank_host_crash:
  "mod_http (str ''GET / HTTP/1.1'' @ [13, 10] @ str ''Host: '' @ [13, 10, 13, 10]) 26 MH_SPACE = None"
  by code_simp

text \<open>C23: \<open>change_tls_sni\<close> on the built-in hello, for every name of at most 17 bytes: it succeeds, keeps the
  size of the packet, and \<open>parse_tls\<close> reads exactly the new name back.\<close>

theorem change_tls_sni_roundtrip:
  assumes "length host \<le> 17"
  shows "\<exists>b. change_tls_sni host tls_data 517 = Some (0, b) \<and> length b = 517 \<and>
     parse_tls b 517 = Some (int (length host), Some 153) \<and> take (length host) (drop 153 b) = host"
proof -
  let ?H = "tls_data_lengths (length host)"
  let ?m = "take (153 + length host) ?H @ drop 170 ?H @ drop (500 + length host) ?H"
  let ?b = "take 153 ?m @ host @ drop (153 + length host) ?m"
  have "memmove ?H (153 + int (length host)) 170 347 = Some ?m"
    using assms by (simp add: memmove_def mem_read_def mem_write_def)
  moreover have "mem_write ?m 153 host = Some ?b"
    using assms by (simp add: mem_write_def)
  ultimately have c: "change_tls_sni host tls_data 517 = Some (0, ?b)"
    using assms by (simp add: change_tls_sni_tls_data)
  have l: "length ?b = 517" using assms by simp
  have "take 153 ?b = take 153 ?H" using assms by simp
  then have "parse_tls ?b 517 = Some (int (length host), Some 153)"
    using assms l by (intro tls_data_sni) (simp_all only: tls_data_lengths_head)
  moreover have "take (length host) (drop 153 ?b) = host" using assms by simp
  ultimately show ?thesis using c l by blast
qed

theorem change_tls_sni_roundtrip_witness:
  "length (str ''example.com'') \<le> 17 \<and>
   (\<exists>b. change_tls_sni (str ''example.com'') tls_data 517 = Some (0, b) \<and> length b = 517 \<and>
     parse_tls b 517 = Some (int (length (str ''example.com'')), Some 153) \<and>
     take (length (str ''example.com'')) (drop 153 b) = str ''example.com'')"
proof -
  have h: "length (str ''example.com'') \<le> 17" by (simp add: str_def)
  from h change_tls_sni_roundtrip [OF h] show ?thesis by blast
qed

text \<open>C39: \<open>change_tls_sni\<close> writes past the end of \<open>tls_data\<close> for every name that is longer than the
  built-in one and that the padding check lets through: the tail is moved up without being cut.\<close>

theorem change_tls_sni_overflow:
  assumes "17 < length host" "length host \<le> 189"
  shows "change_tls_sni host tls_data 517 = None"
  using assms
  by (simp add: change_tls_sni_tls_data memmove_def mem_read_def mem_write_def)

theorem change_tls_sni_overflow_witness:
  "17 < length (str ''www.long.example.com'') \<and> length (str ''www.long.example.com'') \<le> 189 \<and>
   change_tls_sni (str ''www.long.example.com'') tls_data 517 = None"
proof -
  have h: "17 < length (str ''www.long.example.com'')" "length (str ''www.long.example.com'') \<le> 189"
    by (simp_all add: str_def)
  from h change_tls_sni_overflow [OF h] show ?thesis by blast
qed


text \<open>C31: \<open>neq_tls_sid\<close> reads inside both messages whenever the session id that the request announces lies
  inside the request; the code itself does not check that.\<close>

theorem neq_tls_sid_safe:
  assumes "qn \<le> length req" "sn \<le> length resp" "44 + unat (req ! 43) \<le> qn"
  shows "neq_tls_sid req qn resp sn \<noteq> None"
proof (cases "qn < 75 \<or> sn < 75")
  case False
  let ?k = "unat (req ! 43)"
  obtain h v where h: "is_tls_chello req qn = Some h" "ANTOHS resp 0 = Some v"
    using is_tls_chello_safe [OF assms(1)] False assms(2) by (auto simp: layout)
  obtain r where r: "find_tls_ext_offset 0x2b resp sn (44 + ?k + 3) = Some r"
      "r \<noteq> 0 \<longrightarrow> 44 + ?k + 3 + 2 \<le> r \<and> r + 4 < sn"
    using find_tls_ext_offset_safe [OF assms(2)] by blast
  have "memeq req 44 resp 44 ?k \<noteq> None" if "r \<noteq> 0"
    using that r(2) assms by (intro memeq_safe) auto
  then show ?thesis
    using False h r(1) assms by (auto simp: neq_tls_sid_def Let_def bind_eq_None_conv)
qed (simp add: neq_tls_sid_def)

theorem neq_tls_sid_safe_witness:
  "(517 :: nat) \<le> length tls_data \<and> (517 :: nat) \<le> length tls_data \<and> 44 + unat (tls_data ! 43) \<le> 517 \<and>
   neq_tls_sid tls_data 517 tls_data 517 \<noteq> None"
proof -
  have h: "44 + unat (tls_data ! 43) \<le> 517" by code_simp
  have l: "517 \<le> length tls_data" by simp
  from h l neq_tls_sid_safe [OF l l h] show ?thesis by blast
qed

end
