(* ===== verification/Kavl.thy ===== *)
theory Kavl
  imports Prelude
begin

text \<open>
  The AVL tree of \<open>src/app/src/main/cpp/byedpi/kavl.h\<close>, generic in the element type and the
  comparison as the macros are. A node keeps its two children \<open>p[0]\<close> and \<open>p[1]\<close>, its balance factor
  and the number of elements below it (an \<open>unsigned\<close>, so a \<open>32 word\<close>).

  The C code walks down with a \<open>path\<close> array and then edits the nodes on the path. Here the array is
  a list of frames, innermost first: a frame is a node of the path without the child that was
  followed. Editing the nodes of the path and linking the new subtree is then putting the frames
  back around it. \<open>None\<close> is a dereference of a null pointer or an overflow of the fixed-size path
  array. The counter argument \<open>cnt_\<close> is null in every call of the program and is left out.

  The locale \<open>kavl_order\<close> states what the tree needs of its comparison; the lemmas in it give the
  contract of find, insert and erase as operations on a finite map.
\<close>

section \<open>Definitions\<close>

datatype 'a node = Null | Node "'a node" 'a int "32 word" "'a node"

type_synonym 'a frame = "bool \<times> 'a \<times> int \<times> 32 word \<times> 'a node"

definition KAVL_MAX_DEPTH :: nat where "KAVL_MAX_DEPTH = 64"

text \<open>The node with \<open>p[d] = A\<close> and \<open>p[1 - d] = C\<close>.\<close>

definition nd :: "bool \<Rightarrow> 'a node \<Rightarrow> 'a \<Rightarrow> int \<Rightarrow> 32 word \<Rightarrow> 'a node \<Rightarrow> 'a node" where
  "nd d A x b s C = (if d then Node C x b s A else Node A x b s C)"

fun kavl_size :: "'a node \<Rightarrow> 32 word" where
  "kavl_size Null = 0"
| "kavl_size (Node l x b s r) = s"

fun kavl_find :: "('a \<Rightarrow> 'a \<Rightarrow> int) \<Rightarrow> 'a node \<Rightarrow> 'a \<Rightarrow> 'a option" where
  "kavl_find cmp Null x = None"
| "kavl_find cmp (Node l a b s r) x =
     (if cmp x a < 0 then kavl_find cmp l x
      else if cmp x a > 0 then kavl_find cmp r x else Some a)"

text \<open>A write through the pointer that \<open>kavl_find\<close> or \<open>kavl_insert\<close> returned.\<close>

fun kavl_modify :: "('a \<Rightarrow> 'a \<Rightarrow> int) \<Rightarrow> 'a node \<Rightarrow> 'a \<Rightarrow> ('a \<Rightarrow> 'a) \<Rightarrow> 'a node" where
  "kavl_modify cmp Null x f = Null"
| "kavl_modify cmp (Node l a b s r) x f =
     (if cmp x a < 0 then Node (kavl_modify cmp l x f) a b s r
      else if cmp x a > 0 then Node l a b s (kavl_modify cmp r x f) else Node l (f a) b s r)"

definition kavl_rotate1 :: "bool \<Rightarrow> 'a node \<Rightarrow> 'a node option" where
  "kavl_rotate1 dir p =
     (case p of
        Null \<Rightarrow> None
      | Node l x bp sp r \<Rightarrow>
          (let a = (if dir then r else l) in
           case (if dir then l else r) of
             Null \<Rightarrow> None
           | Node ql y bq sq qr \<Rightarrow>
               let b = (if dir then qr else ql); c = (if dir then ql else qr) in
               Some (nd dir (nd dir a x bp (sp - (sq - kavl_size b)) b) y bq sp c)))"

definition kavl_rotate2 :: "bool \<Rightarrow> 'a node \<Rightarrow> 'a node option" where
  "kavl_rotate2 dir p =
     (case p of
        Null \<Rightarrow> None
      | Node l x bp sp r \<Rightarrow>
          (let a = (if dir then r else l) in
           case (if dir then l else r) of
             Null \<Rightarrow> None
           | Node ql y bq sq qr \<Rightarrow>
               let d = (if dir then ql else qr) in
               case (if dir then qr else ql) of
                 Null \<Rightarrow> None
               | Node rl z br sr rr \<Rightarrow>
                   let b = (if dir then rr else rl);
                       c = (if dir then rl else rr);
                       size_x_dir = kavl_size b;
                       b1 = (if dir then - 1 else 1);
                       (bq', bp') =
                         (if br = b1 then (0, - b1) else if br = 0 then (0, 0) else (b1, 0))
                   in Some (nd dir (nd dir a x bp' (sp - (sq - size_x_dir)) b) z 0 sp
                              (nd dir c y bq' (sq - (size_x_dir + 1)) d))))"

text \<open>Assignments to the balance of the root of a rotated tree and of its child in direction \<open>d\<close>.\<close>

fun set_balances :: "bool \<Rightarrow> int \<Rightarrow> int \<Rightarrow> 'a node \<Rightarrow> 'a node" where
  "set_balances d bq bp (Node l y b s r) =
     (if d then Node l y bq s (case r of Null \<Rightarrow> Null | Node u x _ t v \<Rightarrow> Node u x bp t v)
      else Node (case l of Null \<Rightarrow> Null | Node u x _ t v \<Rightarrow> Node u x bp t v) y bq s r)"
| "set_balances d bq bp Null = Null"

text \<open>Linking a subtree back under the nodes of the path, all sizes changed by \<open>k\<close>.\<close>

fun relink :: "32 word \<Rightarrow> 'a frame list \<Rightarrow> 'a node \<Rightarrow> 'a node" where
  "relink k [] t = t"
| "relink k ((d, a, b, s, c) # path) t = relink k path (nd d t a b (s + k) c)"

subsection \<open>Insertion\<close>

text \<open>The search loop: \<open>Inr\<close> the element that is already there, or \<open>Inl\<close> the path to the place of
  the new node.\<close>

fun kavl_descend ::
    "('a \<Rightarrow> 'a \<Rightarrow> int) \<Rightarrow> 'a \<Rightarrow> 'a node \<Rightarrow> 'a frame list \<Rightarrow> ('a frame list + 'a) option" where
  "kavl_descend cmp x Null path = Some (Inl path)"
| "kavl_descend cmp x (Node l a b s r) path =
     (if cmp x a = 0 then Some (Inr a)
      else if length path \<ge> KAVL_MAX_DEPTH then None
      else if cmp x a > 0 then kavl_descend cmp x r ((True, a, b, s, l) # path)
      else kavl_descend cmp x l ((False, a, b, s, r) # path))"

definition kavl_insert_fix :: "'a node \<Rightarrow> 'a node option" where
  "kavl_insert_fix bp =
     (case bp of
        Null \<Rightarrow> None
      | Node l x b s r \<Rightarrow>
          let which = (b < 0); b1 = (if which then - 1 else 1) in
          (case (if which then l else r) of
             Null \<Rightarrow> None
           | Node ql y bq sq qr \<Rightarrow>
               if bq = b1 then map_option (set_balances which 0 0) (kavl_rotate1 which bp)
               else kavl_rotate2 which bp))"

text \<open>The balance factors change from the new node up to \<open>bp\<close>, the deepest node of the path whose
  balance is not 0; above it only the sizes do.\<close>

fun kavl_insert_up :: "'a frame list \<Rightarrow> 'a node \<Rightarrow> 'a node option" where
  "kavl_insert_up [] t = Some t"
| "kavl_insert_up ((d, a, b, s, c) # path) t =
     (let b' = (if d then b + 1 else b - 1); p = nd d t a b' (s + 1) c in
      if b = 0 then kavl_insert_up path p
      else if b' > - 2 \<and> b' < 2 then Some (relink 1 path p)
      else do { r \<leftarrow> kavl_insert_fix p; Some (relink 1 path r) })"

definition kavl_insert :: "('a \<Rightarrow> 'a \<Rightarrow> int) \<Rightarrow> 'a node \<Rightarrow> 'a \<Rightarrow> ('a \<times> 'a node) option" where
  "kavl_insert cmp root x = do {
     res \<leftarrow> kavl_descend cmp x root [];
     (case res of
        Inr e \<Rightarrow> Some (e, root)
      | Inl path \<Rightarrow> do { t \<leftarrow> kavl_insert_up path (Node Null x 0 1 Null); Some (x, t) }) }"

subsection \<open>Deletion\<close>

text \<open>The search loop of \<open>kavl_erase\<close>; the array also holds the \<open>fake\<close> root. A search for no
  element walks to the first one; in an empty tree it would end at \<open>fake\<close> itself and store before
  the start of the array.\<close>

fun kavl_locate ::
    "('a \<Rightarrow> 'a \<Rightarrow> int) \<Rightarrow> 'a option \<Rightarrow> 'a node \<Rightarrow> 'a frame list \<Rightarrow>
     ('a node \<times> 'a frame list) option option" where
  "kavl_locate cmp x Null path = Some None"
| "kavl_locate cmp x (Node l a b s r) path =
     (let c = (case x of None \<Rightarrow> if l = Null then 0 else - 1 | Some x \<Rightarrow> cmp x a) in
      if c = 0 \<and> (x \<noteq> None \<or> Suc (length path) < KAVL_MAX_DEPTH)
      then Some (Some (Node l a b s r, path))
      else if Suc (length path) \<ge> KAVL_MAX_DEPTH then None
      else if c > 0 then kavl_locate cmp x r ((True, a, b, s, l) # path)
      else kavl_locate cmp x l ((False, a, b, s, r) # path))"

text \<open>The left spine of the right subtree of a node at depth \<open>base\<close>: the element, right child and
  path of its last node. The sizes on the spine are already decremented.\<close>

fun kavl_spine ::
    "nat \<Rightarrow> 'a node \<Rightarrow> 'a frame list \<Rightarrow> ('a \<times> 'a node \<times> 'a frame list) option" where
  "kavl_spine base Null path = None"
| "kavl_spine base (Node l a b s r) path =
     (if base + length path + 1 \<ge> KAVL_MAX_DEPTH then None
      else if l = Null then Some (a, r, path)
      else kavl_spine base l ((False, a, b, s - 1, r) # path))"

fun kavl_erase_up :: "'a frame list \<Rightarrow> 'a node \<Rightarrow> 'a node option" where
  "kavl_erase_up [] t = Some t"
| "kavl_erase_up ((d, a, b, s, c) # path) t =
     (let b1 = (if d then - 1 else 1); b' = b + b1; q = nd d t a b' s c in
      if b' = b1 then Some (relink 0 path q)
      else if b' = 2 * b1 then
        (case c of
           Null \<Rightarrow> None
         | Node rl y br sr rr \<Rightarrow>
             if br = - b1 then do { u \<leftarrow> kavl_rotate2 d q; kavl_erase_up path u }
             else do {
               u \<leftarrow> kavl_rotate1 d q;
               if br = 0 then Some (relink 0 path (set_balances d (- b1) b1 u))
               else kavl_erase_up path (set_balances d 0 0 u) })
      else kavl_erase_up path q)"

definition dec_sizes :: "'a frame list \<Rightarrow> 'a frame list" where
  "dec_sizes path = map (\<lambda>(d, a, b, s, c). (d, a, b, s - 1, c)) path"

definition kavl_erase ::
    "('a \<Rightarrow> 'a \<Rightarrow> int) \<Rightarrow> 'a node \<Rightarrow> 'a option \<Rightarrow> ('a option \<times> 'a node) option" where
  "kavl_erase cmp root x = do {
     res \<leftarrow> kavl_locate cmp x root [];
     (case res of
        None \<Rightarrow> if x = None then None else Some (None, root)
      | Some (Null, path) \<Rightarrow> None
      | Some (Node l a b s r, path) \<Rightarrow>
          let path = dec_sizes path in
          if r = Null then do { t \<leftarrow> kavl_erase_up path l; Some (Some a, t) }
          else do {
            (a', r', spine) \<leftarrow> kavl_spine (length path) r [];
            t \<leftarrow> kavl_erase_up (spine @ (True, a', b, s - 1, l) # path) r';
            Some (Some a, t) }) }"

subsection \<open>Specification\<close>

fun inorder :: "'a node \<Rightarrow> 'a list" where
  "inorder Null = []"
| "inorder (Node l a b s r) = inorder l @ a # inorder r"

fun ht :: "'a node \<Rightarrow> nat" where
  "ht Null = 0"
| "ht (Node l a b s r) = Suc (max (ht l) (ht r))"

fun cnt :: "'a node \<Rightarrow> nat" where
  "cnt Null = 0"
| "cnt (Node l a b s r) = Suc (cnt l + cnt r)"

text \<open>The structural invariant: exact balance factors, within one of 0, and exact sizes.\<close>

fun avl :: "'a node \<Rightarrow> bool" where
  "avl Null = True"
| "avl (Node l a b s r) \<longleftrightarrow>
     b = int (ht r) - int (ht l) \<and> - 1 \<le> b \<and> b \<le> 1 \<and> s = of_nat (Suc (cnt l + cnt r)) \<and> avl l \<and> avl r"

text \<open>What the path requires of the subtree in its hole: height \<open>h\<close> for the balance factors, \<open>n\<close>
  elements for the sizes.\<close>

fun ctx :: "'a frame list \<Rightarrow> nat \<Rightarrow> nat \<Rightarrow> bool" where
  "ctx [] h n = True"
| "ctx ((d, a, b, s, c) # path) h n \<longleftrightarrow>
     avl c \<and> b = (if d then int h - int (ht c) else int (ht c) - int h) \<and> - 1 \<le> b \<and> b \<le> 1 \<and>
     s = of_nat (Suc (n + cnt c)) \<and> ctx path (Suc (max h (ht c))) (Suc (n + cnt c))"

fun lefts :: "'a frame list \<Rightarrow> 'a list" where
  "lefts [] = []"
| "lefts ((d, a, b, s, c) # path) = (if d then lefts path @ inorder c @ [a] else lefts path)"

fun rights :: "'a frame list \<Rightarrow> 'a list" where
  "rights [] = []"
| "rights ((d, a, b, s, c) # path) = (if d then rights path else a # inorder c @ rights path)"

text \<open>The content of a tree as a finite map from the keys of its elements.\<close>

definition kmap :: "('a \<Rightarrow> 'k) \<Rightarrow> 'a node \<Rightarrow> 'k \<Rightarrow> 'a option" where
  "kmap key t = map_of (map (\<lambda>e. (key e, e)) (inorder t))"

definition bst :: "('a \<Rightarrow> 'k :: linorder) \<Rightarrow> 'a node \<Rightarrow> bool" where
  "bst key t \<longleftrightarrow> sorted_wrt (<) (map key (inorder t))"

section \<open>Lemmas\<close>

subsection \<open>Rotations and rebalancing\<close>

lemma inorder_nd [simp]:
  "inorder (nd d A x b s C) = (if d then inorder C @ x # inorder A else inorder A @ x # inorder C)"
  by (simp add: nd_def)

lemma ht_nd [simp]: "ht (nd d A x b s C) = Suc (max (ht A) (ht C))"
  by (simp add: nd_def max.commute)

lemma cnt_nd [simp]: "cnt (nd d A x b s C) = Suc (cnt A + cnt C)"
  by (simp add: nd_def add.commute)

lemma avl_nd [simp]:
  "avl (nd d A x b s C) \<longleftrightarrow>
     b = (if d then int (ht A) - int (ht C) else int (ht C) - int (ht A)) \<and> - 1 \<le> b \<and> b \<le> 1 \<and>
     s = of_nat (Suc (cnt A + cnt C)) \<and> avl A \<and> avl C"
  by (auto simp: nd_def add.commute)

lemma kavl_size_avl [simp]: "avl t \<Longrightarrow> kavl_size t = of_nat (cnt t)"
  by (cases t) simp_all

lemma ht_0_iff [simp]: "ht t = 0 \<longleftrightarrow> t = Null"
  by (cases t) simp_all

lemma inorder_relink: "inorder (relink k path t) = lefts path @ inorder t @ rights path"
  by (induction k path t rule: relink.induct) simp_all

lemma avl_relink:
  "avl t \<Longrightarrow> ctx path (ht t) n \<Longrightarrow> cnt t = n + k \<Longrightarrow> avl (relink (of_nat k) path t)"
  by (induction "of_nat k :: 32 word" path t arbitrary: n rule: relink.induct)
     (auto simp: algebra_simps)

text \<open>A rotation of a node whose child on the side \<open>\<not> d\<close> is too high.\<close>

lemma kavl_rotate1_nd:
  "kavl_rotate1 d (nd d A x bp sp (nd d B y bq sq C)) =
     Some (nd d (nd d A x bp (sp - (sq - kavl_size B)) B) y bq sp C)"
  by (simp add: kavl_rotate1_def nd_def)

lemma set_balances_nd:
  "set_balances d bq bp (nd d (nd d A x b1 s1 B) y b2 s2 C) = nd d (nd d A x bp s1 B) y bq s2 C"
  by (simp add: nd_def)

lemma kavl_rotate2_nd:
  "kavl_rotate2 d (nd d A x bp sp (nd d (nd d B z br sr C) y bq sq D)) =
     (let b1 = (if d then - 1 else 1);
          (bq', bp') = (if br = b1 then (0, - b1) else if br = 0 then (0, 0) else (b1, 0))
      in Some (nd d (nd d A x bp' (sp - (sq - kavl_size B)) B) z 0 sp
                (nd d C y bq' (sq - (kavl_size B + 1)) D)))"
  by (simp add: kavl_rotate2_def nd_def Let_def split: prod.split)

lemma node_nd: "t \<noteq> Null \<Longrightarrow> \<exists>A x b s C. t = nd d A x b s C"
  by (cases t; cases d) (auto simp: nd_def)

text \<open>The two repairs, for a left-heavy or right-heavy node alike: \<open>X\<close> is the high child.\<close>

lemma rotate1_repairs:
  assumes "avl A" "avl (nd d B y bq sq C)" "ht C = Suc (ht A)" "ht B = ht A \<or> ht B = ht C"
    and "sp = of_nat (Suc (cnt A + cnt (nd d B y bq sq C)))"
    and "bq' = (if ht B = ht C then if d then 1 else - 1 else 0)" "bp' = - bq'"
  shows "\<exists>u. kavl_rotate1 d (nd d A x bp sp (nd d B y bq sq C)) = Some u \<and>
         avl (set_balances d bq' bp' u) \<and>
         cnt (set_balances d bq' bp' u) = Suc (cnt A + cnt (nd d B y bq sq C)) \<and>
         ht (set_balances d bq' bp' u) = (if ht B = ht C then ht A + 3 else ht A + 2) \<and>
         inorder (set_balances d bq' bp' u) = inorder (nd d A x bp sp (nd d B y bq sq C))"
  using assms unfolding kavl_rotate1_nd by (cases d) (auto simp: set_balances_nd algebra_simps)

lemma rotate2_repairs:
  assumes "avl A" "avl (nd d (nd d B z br sr C) y bq sq D)"
    and "ht D = ht A" "ht (nd d B z br sr C) = Suc (ht A)"
    and "sp = of_nat (Suc (cnt A + cnt (nd d (nd d B z br sr C) y bq sq D)))"
  shows "\<exists>u. kavl_rotate2 d (nd d A x bp sp (nd d (nd d B z br sr C) y bq sq D)) = Some u \<and>
         avl u \<and> cnt u = Suc (cnt A + cnt (nd d (nd d B z br sr C) y bq sq D)) \<and> ht u = ht A + 2 \<and>
         inorder u = inorder (nd d A x bp sp (nd d (nd d B z br sr C) y bq sq D))"
  using assms unfolding kavl_rotate2_nd by (cases d) (auto simp: Let_def algebra_simps)

lemma kavl_insert_fix_nd:
  "b = (if d then - 2 else 2) \<Longrightarrow> kavl_insert_fix (nd d A x b s (nd d B y bq sq C)) =
     (if bq = (if d then - 1 else 1)
      then map_option (set_balances d 0 0) (kavl_rotate1 d (nd d A x b s (nd d B y bq sq C)))
      else kavl_rotate2 d (nd d A x b s (nd d B y bq sq C)))"
  by (simp add: kavl_insert_fix_def nd_def)

lemma nd_flip: "nd d t a b s c = nd (\<not> d) c a b s t"
  by (simp add: nd_def)

lemma kavl_insert_fix_repairs:
  assumes "avl t" "avl c" "ht t = ht c + 2" and t: "t = nd (\<not> d) B y bq sq C" "bq \<noteq> 0"
    and s: "s = of_nat (Suc (cnt t + cnt c))" and b: "b = (if d then 2 else - 2)"
  shows "\<exists>r. kavl_insert_fix (nd d t a b s c) = Some r \<and> avl r \<and> ht r = ht t \<and>
           cnt r = Suc (cnt t + cnt c) \<and> inorder r = inorder (nd d t a b s c)"
proof (cases "bq = (if \<not> d then - 1 else 1)")
  case True
  have sp: "s = of_nat (Suc (cnt c + cnt t))" using s by (simp add: add.commute)
  obtain u where "kavl_rotate1 (\<not> d) (nd (\<not> d) c a b s t) = Some u"
      "avl (set_balances (\<not> d) 0 0 u)" "cnt (set_balances (\<not> d) 0 0 u) = Suc (cnt c + cnt t)"
      "ht (set_balances (\<not> d) 0 0 u) = ht c + 2"
      "inorder (set_balances (\<not> d) 0 0 u) = inorder (nd (\<not> d) c a b s t)"
    using rotate1_repairs [of c "\<not> d" B y bq sq C s 0 0 a b] assms sp True by (auto split: if_splits)
  with assms True show ?thesis
    unfolding nd_flip [of d] t(1) by (subst kavl_insert_fix_nd) (auto simp: nd_flip [of d])
next
  case False
  with assms have "B \<noteq> Null" by (cases d) auto
  then obtain B1 z br sr B2 where B: "B = nd (\<not> d) B1 z br sr B2" using node_nd by metis
  have sp: "s = of_nat (Suc (cnt c + cnt t))" using s by (simp add: add.commute)
  have h: "ht C = ht c" "ht B = Suc (ht c)"
    using False assms by (cases d; auto)+
  obtain u where "kavl_rotate2 (\<not> d) (nd (\<not> d) c a b s t) = Some u" "avl u"
      "cnt u = Suc (cnt c + cnt t)" "ht u = ht c + 2" "inorder u = inorder (nd (\<not> d) c a b s t)"
    using rotate2_repairs [of c "\<not> d" B1 z br sr B2 y bq sq C s a b] assms(1,2) sp h
    unfolding t(1) B by blast
  with assms False show ?thesis
    unfolding nd_flip [of d] t(1) by (subst kavl_insert_fix_nd) (auto simp: nd_flip [of d])
qed

lemma kavl_insert_up_avl:
  "avl t \<Longrightarrow> ctx path h n \<Longrightarrow> ht t = Suc h \<Longrightarrow> cnt t = Suc n \<Longrightarrow>
   t = Node l y bt st r \<Longrightarrow> bt \<noteq> 0 \<or> h = 0 \<Longrightarrow>
     \<exists>t'. kavl_insert_up path t = Some t' \<and> avl t' \<and> inorder t' = lefts path @ inorder t @ rights path"
proof (induction path t arbitrary: h n l y bt st r rule: kavl_insert_up.induct)
  case (2 d a b s c path t)
  note c = "2.prems"(2)
  let ?b = "if d then b + 1 else b - 1" and ?s = "s + 1"
  let ?p = "nd d t a ?b ?s c"
  have sz: "?s = of_nat (Suc (cnt t + cnt c))" using c "2.prems"(4) by simp
  have bal: "ht c \<le> Suc h" "h \<le> Suc (ht c)" "b = 0 \<longleftrightarrow> h = ht c" using c by (cases d; auto)+
  then consider (up) "b = 0" | (here) "b \<noteq> 0" "ht t \<le> ht c" | (repair) "b \<noteq> 0" "ht t = ht c + 2"
    using "2.prems"(3) by linarith
  then show ?case
  proof cases
    case up
    with bal have "ht t = Suc (ht c)" "h = ht c" using "2.prems"(3) by auto
    with up have p: "avl ?p" "ht ?p = Suc (Suc (max h (ht c)))" "cnt ?p = Suc (Suc (n + cnt c))"
      using c "2.prems"(1,4) sz by auto
    obtain l' y' bt' st' r' where nodes: "?p = Node l' y' bt' st' r'" "bt' \<noteq> 0"
      using up by (cases d) (auto simp: nd_def)
    have "ctx path (Suc (max h (ht c))) (Suc (n + cnt c))" using c by simp
    from "2.IH" [OF refl refl up p(1) this p(2,3) nodes(1)] nodes(2) up show ?thesis
      by (auto simp: Let_def)
  next
    case here
    then have p: "avl ?p" "ht ?p = Suc (max h (ht c))" "cnt ?p = Suc (n + cnt c) + 1"
      using c "2.prems" sz by (auto split: if_splits)
    have "ctx path (ht ?p) (Suc (n + cnt c))" using c p(2) by simp
    from avl_relink [OF p(1) this p(3)] here p(1) show ?thesis
      by (auto simp: Let_def inorder_relink split: if_splits)
  next
    case repair
    have b2: "?b = (if d then 2 else - 2)" using repair c "2.prems"(3) by (cases d) auto
    have "bt \<noteq> 0" using repair "2.prems" by auto
    obtain B C where t: "t = nd (\<not> d) B y bt st C"
      using "2.prems"(5) by (cases d) (auto simp: nd_def)
    obtain u where u: "kavl_insert_fix ?p = Some u" "avl u" "ht u = ht t" "cnt u = Suc (n + cnt c) + 1"
        "inorder u = inorder ?p"
      using kavl_insert_fix_repairs [OF "2.prems"(1) _ repair(2) t \<open>bt \<noteq> 0\<close> sz b2] c "2.prems"(4) by auto
    have "ht u = Suc (max h (ht c))" using u(3) repair(2) "2.prems"(3) by simp
    with c have "ctx path (ht u) (Suc (n + cnt c))" by simp
    from avl_relink [OF u(2) this u(4)] show ?thesis
      using repair(1) b2 u(1,5) by (auto simp: Let_def inorder_relink)
  qed
qed auto

lemma kavl_erase_up_rot:
  "b + (if d then - 1 else 1) = 2 * (if d then - 1 else 1) \<Longrightarrow>
   kavl_erase_up ((d, a, b, s, nd d B y br sr C) # path) t =
     (let b1 = (if d then - 1 else 1); q = nd d t a (b + b1) s (nd d B y br sr C) in
      if br = - b1 then do { u \<leftarrow> kavl_rotate2 d q; kavl_erase_up path u }
      else do {
        u \<leftarrow> kavl_rotate1 d q;
        if br = 0 then Some (relink 0 path (set_balances d (- b1) b1 u))
        else kavl_erase_up path (set_balances d 0 0 u) })"
  by (induct d) (simp_all add: nd_def Let_def)

lemma kavl_erase_up_avl:
  "avl t \<Longrightarrow> ctx path (Suc (ht t)) (cnt t) \<Longrightarrow>
     \<exists>t'. kavl_erase_up path t = Some t' \<and> avl t' \<and> inorder t' = lefts path @ inorder t @ rights path"
proof (induction path arbitrary: t)
  case (Cons f path)
  obtain d a b s c where f: "f = (d, a, b, s, c)" by (cases f)
  note c = Cons.prems(2) [unfolded f]
  let ?b1 = "if d then - 1 else 1 :: int"
  let ?b = "b + ?b1" and ?q = "nd d t a (b + ?b1) s c"
  have sz: "s = of_nat (Suc (cnt t + cnt c))" using c by simp
  have "b = - 1 \<or> b = 0 \<or> b = 1" using c by auto
  then consider (stop) "?b = ?b1" | (rot) "?b = 2 * ?b1" | (up) "?b = 0"
    by (cases d) auto
  then show ?case
  proof cases
    case stop
    then have q: "avl ?q" "ht ?q = Suc (max (Suc (ht t)) (ht c))" "cnt ?q = Suc (cnt t + cnt c) + 0"
      using c Cons.prems sz by (auto split: if_splits)
    have "ctx path (ht ?q) (Suc (cnt t + cnt c))" using c q(2) by simp
    from avl_relink [OF q(1) this q(3)] stop show ?thesis
      by (auto simp: f Let_def inorder_relink)
  next
    case up
    then have q: "avl ?q" "Suc (ht ?q) = Suc (max (Suc (ht t)) (ht c))" "cnt ?q = Suc (cnt t + cnt c)"
      using c Cons.prems sz by (auto split: if_splits)
    have "ctx path (Suc (ht ?q)) (cnt ?q)" using c q(2,3) by simp
    with Cons.IH [OF q(1)] up show ?thesis
      by (auto simp: f Let_def split: if_splits)
  next
    case rot
    have hc: "ht c = ht t + 2" using rot c by (cases d) auto
    then obtain B y br sr C where cn: "c = nd d B y br sr C"
      using node_nd [of c d] by (metis ht.simps(1) add_2_eq_Suc' nat.distinct(1))
    have bal: "br = (if d then int (ht B) - int (ht C) else int (ht C) - int (ht B))"
        "avl (nd d B y br sr C)" and max: "max (ht B) (ht C) = Suc (ht t)"
      using c hc cn by auto
    have sp: "s = of_nat (Suc (cnt t + cnt (nd d B y br sr C)))" using sz cn by simp
    have up: "ctx path (Suc (ht t + 2)) (Suc (cnt t + cnt c))" using c hc by (simp add: max_def)
    note step = kavl_erase_up_rot [OF rot, of a s B y br sr C path t]
    show ?thesis
    proof (cases "br = - ?b1")
      case True
      then have h: "ht C = ht t" "ht B = Suc (ht t)" using bal max by (auto split: if_splits)
      from h(2) obtain B1 z bz sz B2 where B: "B = nd d B1 z bz sz B2"
        using node_nd [of B d] by fastforce
      obtain u where u: "kavl_rotate2 d ?q = Some u" "avl u" "cnt u = Suc (cnt t + cnt c)"
          "ht u = ht t + 2" "inorder u = inorder ?q"
        using rotate2_repairs [of t d B1 z bz sz B2 y br sr C s a ?b] Cons.prems(1) bal(2) sp h
        unfolding cn B by blast
      with up Cons.IH [OF u(2)] step True show ?thesis
        by (auto simp: f cn Let_def)
    next
      case False
      let ?bq = "if ht B = ht C then if d then 1 else - 1 else 0 :: int"
      have h: "ht C = Suc (ht t)" "ht B = ht t \<or> ht B = ht C" "br = 0 \<longleftrightarrow> ht B = ht C"
        using False bal max by (auto split: if_splits)
      obtain u where u: "kavl_rotate1 d ?q = Some u" "avl (set_balances d ?bq (- ?bq) u)"
          "cnt (set_balances d ?bq (- ?bq) u) = Suc (cnt t + cnt c) + 0"
          "ht (set_balances d ?bq (- ?bq) u) = (if ht B = ht C then ht t + 3 else ht t + 2)"
          "inorder (set_balances d ?bq (- ?bq) u) = inorder ?q"
        using rotate1_repairs [OF Cons.prems(1) bal(2) h(1,2) sp refl refl, of a ?b] unfolding cn by auto
      show ?thesis
      proof (cases "br = 0")
        case True
        have "ctx path (ht t + 3) (Suc (cnt t + cnt c))" using up by (simp add: numeral_3_eq_3)
        with True u h have "avl (relink (of_nat 0) path (set_balances d ?bq (- ?bq) u))"
          by (intro avl_relink) auto
        with True False u(1,5) h(3) step show ?thesis
          by (auto simp: f cn Let_def inorder_relink split: if_splits)
      next
        case nz: False
        with h u have "avl (set_balances d 0 0 u)" "cnt (set_balances d 0 0 u) = Suc (cnt t + cnt c)"
            "ht (set_balances d 0 0 u) = ht t + 2" "inorder (set_balances d 0 0 u) = inorder ?q"
          by auto
        with Cons.IH [of "set_balances d 0 0 u"] up nz False u(1) step show ?thesis
          by (auto simp: f cn Let_def)
      qed
    qed
  qed
qed simp

lemma length_inorder: "length (inorder t) = cnt t"
  by (induction t) simp_all

lemma lefts_append: "lefts (p @ q) = lefts q @ lefts p"
  by (induction p rule: lefts.induct) simp_all

lemma rights_append: "rights (p @ q) = rights p @ rights q"
  by (induction p rule: rights.induct) simp_all

subsection \<open>Height and the depth of the path array\<close>

lemma avl_height: "avl t \<Longrightarrow> 2 ^ (ht t div 2) \<le> Suc (cnt t)"
proof (induction t)
  case (Node l a b s r)
  let ?m = "min (ht l) (ht r)"
  have "max (ht l) (ht r) \<le> Suc ?m" using Node.prems by auto
  then have "ht (Node l a b s r) \<le> ?m + 2" by simp
  then have "ht (Node l a b s r) div 2 \<le> Suc (?m div 2)"
    using div_le_mono [of _ "?m + 2" 2] by simp
  then have "(2 :: nat) ^ (ht (Node l a b s r) div 2) \<le> 2 * 2 ^ (?m div 2)"
    by (metis power_Suc power_increasing one_le_numeral)
  also have "\<dots> = 2 ^ (?m div 2) + 2 ^ (?m div 2)" by simp
  also have "\<dots> \<le> 2 ^ (ht l div 2) + 2 ^ (ht r div 2)"
    by (intro add_mono power_increasing div_le_mono) simp_all
  also have "\<dots> \<le> Suc (cnt l) + Suc (cnt r)"
    using Node by (intro add_mono) auto
  finally show ?case by simp
qed simp

lemma avl_height_bound:
  assumes "avl t" "Suc (cnt t) < 2 ^ 31"
  shows "ht t < 62"
proof (rule ccontr)
  assume "\<not> ht t < 62"
  then have "31 \<le> ht t div 2" by simp
  then have "(2 :: nat) ^ 31 \<le> 2 ^ (ht t div 2)" by (intro power_increasing) simp_all
  with avl_height [OF assms(1)] assms(2) show False by linarith
qed

lemma kavl_descend_depth:
  "length path + ht t \<le> KAVL_MAX_DEPTH \<Longrightarrow> kavl_descend cmp x t path \<noteq> None"
  by (induction cmp x t path rule: kavl_descend.induct) auto

lemma kavl_locate_depth:
  "length path + ht t < KAVL_MAX_DEPTH \<Longrightarrow> kavl_locate cmp x t path \<noteq> None"
  by (induction cmp x t path rule: kavl_locate.induct) (auto simp: Let_def split: option.split)

lemma kavl_locate_depth_left:
  "kavl_locate cmp x t path = Some (Some (p, path')) \<Longrightarrow>
     p \<noteq> Null \<and> length path' + ht p \<le> length path + ht t"
  by (induction cmp x t path rule: kavl_locate.induct)
     (force simp: Let_def split: if_splits option.splits)+

lemma kavl_spine_depth:
  "t \<noteq> Null \<Longrightarrow> base + length path + ht t < KAVL_MAX_DEPTH \<Longrightarrow> kavl_spine base t path \<noteq> None"
  by (induction base t path rule: kavl_spine.induct) auto

subsection \<open>The path describes the rest of the tree\<close>

lemma kavl_descend_path:
  "kavl_descend cmp x t path = Some (Inl path') \<Longrightarrow> avl t \<Longrightarrow> ctx path (ht t) (cnt t) \<Longrightarrow>
     ctx path' 0 0 \<and> lefts path' @ rights path' = lefts path @ inorder t @ rights path"
  by (induction cmp x t path rule: kavl_descend.induct)
     (auto simp: max.commute add.commute split: if_splits)

lemma kavl_locate_path:
  "kavl_locate cmp x t path = Some (Some (p, path')) \<Longrightarrow> avl t \<Longrightarrow> ctx path (ht t) (cnt t) \<Longrightarrow>
     avl p \<and> ctx path' (ht p) (cnt p) \<and>
     lefts path' @ inorder p @ rights path' = lefts path @ inorder t @ rights path"
  by (induction cmp x t path rule: kavl_locate.induct)
     (auto simp: Let_def max.commute add.commute split: if_splits option.splits)

lemma dec_sizes_path:
  "ctx path h (Suc n) \<Longrightarrow> ctx (dec_sizes path) h n"
  "lefts (dec_sizes path) = lefts path" "rights (dec_sizes path) = rights path"
  "length (dec_sizes path) = length path"
proof -
  show "ctx path h (Suc n) \<Longrightarrow> ctx (dec_sizes path) h n"
    by (induction path h n rule: ctx.induct) (auto simp: dec_sizes_def)
  show "lefts (dec_sizes path) = lefts path"
    by (induction path rule: lefts.induct) (simp_all add: dec_sizes_def)
  show "rights (dec_sizes path) = rights path"
    by (induction path rule: rights.induct) (simp_all add: dec_sizes_def)
  show "length (dec_sizes path) = length path"
    by (simp add: dec_sizes_def)
qed

lemma kavl_spine_inorder:
  "kavl_spine base t path = Some (a, r, spine) \<Longrightarrow>
     lefts spine = lefts path \<and> inorder t @ rights path = a # inorder r @ rights spine"
  by (induction base t path rule: kavl_spine.induct) (auto split: if_splits)

lemma kavl_spine_path:
  "kavl_spine base t path = Some (a, r, spine) \<Longrightarrow> avl t \<Longrightarrow> cnt t = Suc n \<Longrightarrow>
   ctx (path @ rest) (ht t) n \<Longrightarrow> avl r \<and> ctx (spine @ rest) (Suc (ht r)) (cnt r)"
proof (induction base t path arbitrary: n rule: kavl_spine.induct)
  case (2 base l a' b s r' path)
  show ?case
  proof (cases "l = Null")
    case False
    then obtain k where k: "cnt l = Suc k" by (cases l) auto
    with 2 False show ?thesis
      by (auto split: if_splits)
  qed (use 2 in \<open>auto split: if_splits\<close>)
qed simp

text \<open>Insertion and deletion on the inorder sequence; the comparison only chooses the place.\<close>

lemma kavl_insert_inorder:
  assumes "avl t" "Suc (cnt t) < 2 ^ 31"
  shows "(\<exists>e. kavl_descend cmp x t [] = Some (Inr e) \<and> kavl_insert cmp t x = Some (e, t)) \<or>
    (\<exists>path t'. kavl_descend cmp x t [] = Some (Inl path) \<and> kavl_insert cmp t x = Some (x, t') \<and>
       avl t' \<and> inorder t = lefts path @ rights path \<and> inorder t' = lefts path @ x # rights path)"
proof -
  have "kavl_descend cmp x t [] \<noteq> None"
    using avl_height_bound [OF assms] by (intro kavl_descend_depth) (simp add: KAVL_MAX_DEPTH_def)
  then obtain res where res: "kavl_descend cmp x t [] = Some res" by auto
  show ?thesis
  proof (cases res)
    case (Inl path)
    let ?n = "Node Null x 0 1 Null"
    from kavl_descend_path [OF res [unfolded Inl] assms(1)]
    have path: "ctx path 0 0" "inorder t = lefts path @ rights path" by simp_all
    obtain t' where "kavl_insert_up path ?n = Some t'" "avl t'"
        "inorder t' = lefts path @ x # rights path"
      using kavl_insert_up_avl [OF _ path(1), of ?n] by auto
    with path res Inl show ?thesis by (auto simp: kavl_insert_def)
  qed (use res in \<open>simp add: kavl_insert_def\<close>)
qed

lemma kavl_erase_inorder:
  assumes "avl t" "Suc (cnt t) < 2 ^ 31"
  shows "(kavl_locate cmp x t [] = Some None \<and>
      kavl_erase cmp t x = (if x = None then None else Some (None, t))) \<or>
    (\<exists>l a b s r path t'. kavl_locate cmp x t [] = Some (Some (Node l a b s r, path)) \<and>
       kavl_erase cmp t x = Some (Some a, t') \<and> avl t' \<and>
       inorder t = (lefts path @ inorder l) @ a # inorder r @ rights path \<and>
       inorder t' = (lefts path @ inorder l) @ inorder r @ rights path)"
proof -
  note h = avl_height_bound [OF assms]
  have "kavl_locate cmp x t [] \<noteq> None"
    using h by (intro kavl_locate_depth) (simp add: KAVL_MAX_DEPTH_def)
  then obtain res where res: "kavl_locate cmp x t [] = Some res" by auto
  show ?thesis
  proof (cases res)
    case None
    with res show ?thesis by (simp add: kavl_erase_def)
  next
    case (Some pp)
    obtain p path where pp: "pp = (p, path)" by (cases pp)
    note loc = res [unfolded Some pp]
    from kavl_locate_depth_left [OF loc] obtain l a b s r where
      p: "p = Node l a b s r" "length path + ht p \<le> ht t" by (cases p) auto
    from kavl_locate_path [OF loc assms(1)] p(1) have
      path: "avl p" "ctx path (ht p) (Suc (cnt l + cnt r))"
            "inorder t = lefts path @ inorder p @ rights path" by simp_all
    note dec = dec_sizes_path(1) [OF path(2)] dec_sizes_path(2-)
    have "\<exists>t'. kavl_erase cmp t x = Some (Some a, t') \<and> avl t' \<and>
            inorder t' = (lefts path @ inorder l) @ inorder r @ rights path"
    proof (cases "r = Null")
      case True
      have "ctx (dec_sizes path) (Suc (ht l)) (cnt l)"
        using dec(1) p(1) True by simp
      from kavl_erase_up_avl [OF _ this] path(1) p(1)
      obtain t' where "kavl_erase_up (dec_sizes path) l = Some t'" "avl t'"
          "inorder t' = lefts path @ inorder l @ rights path"
        by (auto simp: dec_sizes_path(2,3))
      with True loc p show ?thesis by (simp add: kavl_erase_def)
    next
      case False
      have "kavl_spine (length path) r [] \<noteq> None"
        using False p h by (intro kavl_spine_depth) (auto simp: KAVL_MAX_DEPTH_def)
      then obtain a' r' spine where sp: "kavl_spine (length path) r [] = Some (a', r', spine)" by auto
      let ?f = "(True, a', b, s - 1, l) # dec_sizes path"
      obtain k where k: "cnt r = Suc k" using False by (cases r) auto
      have "ctx ?f (ht r) k" using path(1) dec(1) k p(1) by (auto simp: max.commute add.commute)
      then have sc: "ctx ([] @ ?f) (ht r) k" by simp
      have "avl r" using path(1) p(1) by simp
      from kavl_spine_path [OF sp this k sc]
      have "avl r'" "ctx (spine @ ?f) (Suc (ht r')) (cnt r')" by (rule conjunct1, rule conjunct2)
      from kavl_erase_up_avl [OF this] obtain t' where t': "kavl_erase_up (spine @ ?f) r' = Some t'" "avl t'"
          "inorder t' = lefts (spine @ ?f) @ inorder r' @ rights (spine @ ?f)" by blast
      have "inorder t' = (lefts path @ inorder l) @ inorder r @ rights path"
        using kavl_spine_inorder [OF sp] t'(3) by (simp add: dec_sizes_path lefts_append rights_append)
      with t' False loc p(1) sp show ?thesis
        by (simp add: kavl_erase_def Let_def dec_sizes_path)
    qed
    with path(3) loc p(1) show ?thesis by auto
  qed
qed

lemma kavl_locate_first:
  "kavl_locate cmp None t path = Some (Some (Node l a b s r, path')) \<Longrightarrow>
     l = Null \<and> lefts path' = lefts path"
  by (induction t arbitrary: path) (auto simp: Let_def split: if_splits)

lemma kavl_locate_first_exists: "t \<noteq> Null \<Longrightarrow> kavl_locate cmp None t path \<noteq> Some None"
  by (induction t arbitrary: path) (auto simp: Let_def split: if_splits)

lemma kavl_erase_first:
  assumes "avl t" "Suc (cnt t) < 2 ^ 31" "t \<noteq> Null"
  shows "\<exists>a t'. kavl_erase cmp t None = Some (Some a, t') \<and> avl t' \<and> inorder t = a # inorder t'"
  using kavl_erase_inorder [OF assms(1,2), of cmp None] kavl_locate_first_exists [OF assms(3)]
  by (auto dest: kavl_locate_first)

subsection \<open>The ordered tree as a map\<close>

locale kavl_order =
  fixes cmp :: "'a \<Rightarrow> 'a \<Rightarrow> int" and key :: "'a \<Rightarrow> 'k :: linorder"
  assumes cmp_less: "cmp x y < 0 \<longleftrightarrow> key x < key y"
    and cmp_greater: "0 < cmp x y \<longleftrightarrow> key y < key x"
begin

lemma cmp_zero: "cmp x y = 0 \<longleftrightarrow> key x = key y"
  using cmp_less [of x y] cmp_greater [of x y] by force

lemma assoc_None: "\<forall>e\<in>set xs. key e \<noteq> k \<Longrightarrow> map_of (map (\<lambda>e. (key e, e)) xs) k = None"
  by (induction xs) auto

lemma assoc_append_cons:
  assumes "sorted_wrt (<) (map key (xs @ a # ys))"
  shows "map_of (map (\<lambda>e. (key e, e)) (xs @ a # ys)) k =
     (if k < key a then map_of (map (\<lambda>e. (key e, e)) xs) k
      else if key a < k then map_of (map (\<lambda>e. (key e, e)) ys) k else Some a)"
    and "map_of (map (\<lambda>e. (key e, e)) (xs @ ys)) k =
     (if k < key a then map_of (map (\<lambda>e. (key e, e)) xs) k
      else if key a < k then map_of (map (\<lambda>e. (key e, e)) ys) k else None)"
proof -
  have ord: "\<forall>e\<in>set xs. key e < key a" "\<forall>e\<in>set ys. key a < key e"
    using assms by (simp_all add: sorted_wrt_append)
  have x: "map_of (map (\<lambda>e. (key e, e)) xs) k = None" if "key a \<le> k"
    using ord(1) that by (intro assoc_None) auto
  have y: "map_of (map (\<lambda>e. (key e, e)) ys) k = None" if "k \<le> key a"
    using ord(2) that by (intro assoc_None) auto
  show "map_of (map (\<lambda>e. (key e, e)) (xs @ a # ys)) k =
     (if k < key a then map_of (map (\<lambda>e. (key e, e)) xs) k
      else if key a < k then map_of (map (\<lambda>e. (key e, e)) ys) k else Some a)"
    using x y by (cases k "key a" rule: linorder_cases) (auto simp: map_add_def split: option.split)
  show "map_of (map (\<lambda>e. (key e, e)) (xs @ ys)) k =
     (if k < key a then map_of (map (\<lambda>e. (key e, e)) xs) k
      else if key a < k then map_of (map (\<lambda>e. (key e, e)) ys) k else None)"
    using x y by (cases k "key a" rule: linorder_cases) (auto simp: map_add_def split: option.split)
qed

lemma kmap_insert_remove:
  assumes "bst key t" "inorder t = xs @ a # ys" "inorder u = xs @ ys"
  shows "kmap key t = (kmap key u)(key a \<mapsto> a)" "kmap key u = (kmap key t)(key a := None)"
    "kmap key u (key a) = None"
  using assoc_append_cons [of xs a ys] assms
  by (auto simp: fun_eq_iff bst_def kmap_def simp del: map_append)

lemma bst_Node:
  "bst key (Node l a b s r) \<longleftrightarrow> bst key l \<and> bst key r \<and>
     (\<forall>e\<in>set (inorder l). key e < key a) \<and> (\<forall>e\<in>set (inorder r). key a < key e)"
  by (auto simp: bst_def sorted_wrt_append) (meson order.strict_trans)

lemma kmap_Node:
  "bst key (Node l a b s r) \<Longrightarrow> kmap key (Node l a b s r) k =
     (if k < key a then kmap key l k else if key a < k then kmap key r k else Some a)"
  unfolding kmap_def bst_def inorder.simps by (rule assoc_append_cons)

lemma find_kmap: "bst key t \<Longrightarrow> kavl_find cmp t x = kmap key t (key x)"
proof (induction t)
  case (Node l a b s r)
  then show ?case
    using kmap_Node [OF Node.prems, of "key x"] by (simp add: bst_Node cmp_less cmp_greater)
qed (simp add: kmap_def)

lemma descend_keys:
  assumes "kavl_descend cmp x t path = Some (Inl path')" "bst key t"
    and "\<forall>e\<in>set (lefts path). key e < key x" "\<forall>e\<in>set (rights path). key x < key e"
  shows "(\<forall>e\<in>set (lefts path'). key e < key x) \<and> (\<forall>e\<in>set (rights path'). key x < key e)"
  using assms
proof (induction t arbitrary: path)
  case (Node l a b s r)
  note b = Node.prems(2) [unfolded bst_Node]
  show ?case
  proof (cases "key x" "key a" rule: linorder_cases)
    case less
    with Node.prems b show ?thesis
      by (intro Node.IH(1) [of "(False, a, b, s, r) # path"])
         (auto simp: cmp_zero cmp_greater split: if_splits)
  next
    case greater
    with Node.prems b show ?thesis
      by (intro Node.IH(2) [of "(True, a, b, s, l) # path"])
         (auto simp: cmp_zero cmp_greater split: if_splits)
  qed (use Node.prems cmp_zero in auto)
qed simp

lemma descend_found:
  "kavl_descend cmp x t path = Some (Inr e) \<Longrightarrow> kavl_find cmp t x = Some e"
  by (induction t arbitrary: path) (auto split: if_splits)

lemma locate_found:
  "kavl_locate cmp (Some x) t path = Some (Some (Node l a b s r, path')) \<Longrightarrow> key a = key x"
  by (induction t arbitrary: path) (auto simp: Let_def cmp_zero split: if_splits)

lemma locate_absent:
  "kavl_locate cmp (Some x) t path = Some None \<Longrightarrow> kavl_find cmp t x = None"
  by (induction t arbitrary: path) (auto simp: Let_def split: if_splits)

lemma insert_contract:
  assumes "avl t" "bst key t" "Suc (cnt t) < 2 ^ 31"
  shows "\<exists>e t'. kavl_insert cmp t x = Some (e, t') \<and> avl t' \<and> bst key t' \<and>
    (case kmap key t (key x) of
       Some e0 \<Rightarrow> e = e0 \<and> t' = t
     | None \<Rightarrow> e = x \<and> kmap key t' = (kmap key t)(key x \<mapsto> x) \<and> cnt t' = Suc (cnt t))"
  using kavl_insert_inorder [OF assms(1,3), of cmp x]
proof (elim disjE exE conjE)
  fix e assume d: "kavl_descend cmp x t [] = Some (Inr e)" "kavl_insert cmp t x = Some (e, t)"
  have "kmap key t (key x) = Some e"
    using descend_found [OF d(1)] find_kmap [OF assms(2), of x] by simp
  with d assms show ?thesis by auto
next
  fix path t'
  assume d: "kavl_descend cmp x t [] = Some (Inl path)" and i: "kavl_insert cmp t x = Some (x, t')"
    and a: "avl t'" and io: "inorder t = lefts path @ rights path" "inorder t' = lefts path @ x # rights path"
  from descend_keys [OF d assms(2)]
  have k: "\<forall>e\<in>set (lefts path). key e < key x" "\<forall>e\<in>set (rights path). key x < key e" by simp_all
  have b: "bst key t'" using assms(2) k io by (auto simp: bst_def sorted_wrt_append)
  have "cnt t' = Suc (cnt t)"
    using arg_cong [OF io(1), of length] arg_cong [OF io(2), of length] by (simp add: length_inorder)
  with kmap_insert_remove [OF b io(2,1)] i a b show ?thesis by auto
qed

lemma erase_contract:
  assumes "avl t" "bst key t" "Suc (cnt t) < 2 ^ 31"
  shows "\<exists>t'. kavl_erase cmp t (Some x) = Some (kmap key t (key x), t') \<and> avl t' \<and> bst key t' \<and>
    kmap key t' = (kmap key t)(key x := None)"
  using kavl_erase_inorder [OF assms(1,3), of cmp "Some x"]
proof (elim disjE exE conjE)
  assume l: "kavl_locate cmp (Some x) t [] = Some None"
    "kavl_erase cmp t (Some x) = (if Some x = None then None else Some (None, t))"
  have "kmap key t (key x) = None"
    using locate_absent [OF l(1)] find_kmap [OF assms(2), of x] by simp
  with l assms show ?thesis by (auto simp: fun_upd_idem)
next
  fix l a b s r path t'
  assume loc: "kavl_locate cmp (Some x) t [] = Some (Some (Node l a b s r, path))"
    and e: "kavl_erase cmp t (Some x) = Some (Some a, t')" "avl t'"
    and io: "inorder t = (lefts path @ inorder l) @ a # inorder r @ rights path"
            "inorder t' = (lefts path @ inorder l) @ inorder r @ rights path"
  have k: "key a = key x" using locate_found [OF loc] .
  have "bst key t'" using assms(2) by (auto simp: bst_def io sorted_wrt_append)
  moreover have "kmap key t (key x) = Some a"
    unfolding kmap_insert_remove(1) [OF assms(2) io] by (simp add: k)
  moreover note kmap_insert_remove(2) [OF assms(2) io]
  ultimately show ?thesis using e by (simp add: k)
qed

lemma modify_shape:
  "ht (kavl_modify cmp t x f) = ht t" "cnt (kavl_modify cmp t x f) = cnt t"
  "avl t \<Longrightarrow> avl (kavl_modify cmp t x f)"
proof -
  show h: "ht (kavl_modify cmp t x f) = ht t" for t by (induction t) simp_all
  show c: "cnt (kavl_modify cmp t x f) = cnt t" for t by (induction t) simp_all
  show "avl t \<Longrightarrow> avl (kavl_modify cmp t x f)" by (induction t) (simp_all add: h c)
qed

lemma modify_inorder:
  "bst key t \<Longrightarrow>
     inorder (kavl_modify cmp t x f) = map (\<lambda>e. if key e = key x then f e else e) (inorder t)"
proof (induction t)
  case (Node l a b s r)
  let ?g = "\<lambda>e. if key e = key x then f e else e"
  have "map ?g (inorder l) = inorder l" if "key a \<le> key x"
    using that Node.prems by (intro map_idI) (auto simp: bst_Node)
  moreover have "map ?g (inorder r) = inorder r" if "key x \<le> key a"
    using that Node.prems by (intro map_idI) (auto simp: bst_Node)
  ultimately show ?case
    using Node by (cases "key x" "key a" rule: linorder_cases)
      (auto simp add: bst_Node cmp_less cmp_greater)
qed simp

lemma modify_contract:
  assumes "bst key t" "\<forall>e. key (f e) = key e"
  shows "kmap key (kavl_modify cmp t x f) =
           (kmap key t)(key x := map_option f (kmap key t (key x)))"
    "bst key (kavl_modify cmp t x f)" "avl t \<Longrightarrow> avl (kavl_modify cmp t x f)"
proof -
  have g: "key (if key e = key x then f e else e) = key e" for e using assms(2) by simp
  have "map_of (map (\<lambda>e. (key e, e)) (map (\<lambda>e. if key e = key x then f e else e) xs)) k =
          ((map_of (map (\<lambda>e. (key e, e)) xs))(key x :=
            map_option f (map_of (map (\<lambda>e. (key e, e)) xs) (key x)))) k" for xs k
    by (induction xs) (auto simp: assms(2))
  then show "kmap key (kavl_modify cmp t x f) =
           (kmap key t)(key x := map_option f (kmap key t (key x)))"
    unfolding kmap_def modify_inorder [OF assms(1)] by (intro ext)
  show "bst key (kavl_modify cmp t x f)"
    using assms(1) by (simp add: bst_def modify_inorder [OF assms(1)] comp_def g)
  show "avl t \<Longrightarrow> avl (kavl_modify cmp t x f)"
    by (rule modify_shape)
qed

end

end
