(* ===== verification/Mpool.thy ===== *)
theory Mpool
  imports Kavl "HOL-Library.List_Lexorder"
begin

text \<open>
  The pool of byte strings of \<open>src/app/src/main/cpp/byedpi/mpool.c\<close>: host names and IP ranges from
  the command line (a constant pool, whose elements point into the caller's buffer) and the cache of
  strategies per address (a pool that copies its keys). Both are AVL trees ordered by \<open>scmp\<close>.

  An element is its byte string (\<open>len\<close> is the length of the list), the chosen strategy \<open>m\<close> and the
  time of the choice. The two booleans of \<open>mem_add\<close> are the outcomes of its two allocations. The
  interpretation of \<open>kavl_order\<close> at \<open>scmp\<close> gives the pool's contract: it is a finite map from byte
  strings to elements. \<open>mem_destroy\<close> returns the elements it frees, in that order.
\<close>

section \<open>Definitions\<close>

record elem =
  elem_data :: "byte list"
  elem_m :: int
  elem_time :: int

record mphdr =
  stat :: bool
  root :: "elem node"

text \<open>The value of \<open>memcmp\<close> has the sign of the first difference of the bytes, as unsigned.\<close>

fun memcmp :: "byte list \<Rightarrow> byte list \<Rightarrow> int" where
  "memcmp (x # xs) (y # ys) = (if x = y then memcmp xs ys else uint x - uint y)"
| "memcmp _ _ = 0"

definition scmp :: "elem \<Rightarrow> elem \<Rightarrow> int" where
  "scmp p q =
     (if length (elem_data p) \<noteq> length (elem_data q)
      then (if length (elem_data p) < length (elem_data q) then - 1 else 1)
      else memcmp (elem_data p) (elem_data q))"

definition temp_elem :: "byte list \<Rightarrow> elem" where
  "temp_elem s = \<lparr>elem_data = s, elem_m = 0, elem_time = 0\<rparr>"

definition mem_pool :: "bool \<Rightarrow> bool \<Rightarrow> mphdr option" where
  "mem_pool calloc_ok cst = (if calloc_ok then Some \<lparr>stat = cst, root = Null\<rparr> else None)"

definition mem_get :: "mphdr \<Rightarrow> byte list \<Rightarrow> elem option" where
  "mem_get hdr s = kavl_find scmp (root hdr) (temp_elem s)"

text \<open>The outer \<open>option\<close> is an overflow of the path array, the inner one the null pointer that a
  failed allocation gives.\<close>

definition mem_add :: "bool \<Rightarrow> bool \<Rightarrow> mphdr \<Rightarrow> byte list \<Rightarrow> (elem option \<times> mphdr) option" where
  "mem_add calloc_ok malloc_ok hdr s =
     (if \<not> calloc_ok then Some (None, hdr)
      else if \<not> stat hdr \<and> \<not> malloc_ok then Some (None, hdr)
      else do {
        (v, t) \<leftarrow> kavl_insert scmp (root hdr) (temp_elem s);
        Some (Some v, hdr\<lparr>root := t\<rparr>) })"

text \<open>An assignment to \<open>m\<close> and \<open>time\<close> through the pointer to the element of the key \<open>s\<close>.\<close>

definition mem_set :: "mphdr \<Rightarrow> byte list \<Rightarrow> int \<Rightarrow> int \<Rightarrow> mphdr" where
  "mem_set hdr s mm tm =
     hdr\<lparr>root := kavl_modify scmp (root hdr) (temp_elem s) (\<lambda>e. e\<lparr>elem_m := mm, elem_time := tm\<rparr>)\<rparr>"

definition mem_delete :: "mphdr \<Rightarrow> byte list \<Rightarrow> mphdr option" where
  "mem_delete hdr s = do {
     (e, t) \<leftarrow> kavl_erase scmp (root hdr) (Some (temp_elem s));
     Some (hdr\<lparr>root := t\<rparr>) }"

partial_function (option) mem_destroy_loop :: "elem node \<Rightarrow> elem list \<Rightarrow> elem list option" where
  "mem_destroy_loop t freed =
     (if t = Null then Some freed
      else do {
        (e, t) \<leftarrow> kavl_erase scmp t None;
        (case e of None \<Rightarrow> Some freed | Some e \<Rightarrow> mem_destroy_loop t (freed @ [e])) })"

definition mem_destroy :: "mphdr \<Rightarrow> elem list option" where
  "mem_destroy hdr = mem_destroy_loop (root hdr) []"

subsection \<open>Specification\<close>

text \<open>Keys in the order of the tree: shorter strings first, then bytewise.\<close>

datatype hkey = Key "byte list"

instantiation hkey :: linorder
begin

fun less_eq_hkey :: "hkey \<Rightarrow> hkey \<Rightarrow> bool" where
  "less_eq_hkey (Key a) (Key b) \<longleftrightarrow> length a < length b \<or> length a = length b \<and> a \<le> b"

fun less_hkey :: "hkey \<Rightarrow> hkey \<Rightarrow> bool" where
  "less_hkey (Key a) (Key b) \<longleftrightarrow> length a < length b \<or> length a = length b \<and> a < b"

instance
proof
  fix x y z :: hkey
  obtain a b c where "x = Key a" "y = Key b" "z = Key c" by (cases x; cases y; cases z) auto
  then show "x < y \<longleftrightarrow> x \<le> y \<and> \<not> y \<le> x" "x \<le> x" "x \<le> y \<Longrightarrow> y \<le> z \<Longrightarrow> x \<le> z"
    "x \<le> y \<Longrightarrow> y \<le> x \<Longrightarrow> x = y" "x \<le> y \<or> y \<le> x"
    by (auto simp: less_le_not_le)
qed

end

definition ekey :: "elem \<Rightarrow> hkey" where
  "ekey e = Key (elem_data e)"

text \<open>The well-formed pool with room for one more element, and its content.\<close>

definition pool_ok :: "mphdr \<Rightarrow> bool" where
  "pool_ok hdr \<longleftrightarrow> avl (root hdr) \<and> bst ekey (root hdr)"

definition room :: "mphdr \<Rightarrow> bool" where
  "room hdr \<longleftrightarrow> Suc (cnt (root hdr)) < 2 ^ 31"

definition entries :: "mphdr \<Rightarrow> byte list \<Rightarrow> elem option" where
  "entries hdr s = kmap ekey (root hdr) (Key s)"

section \<open>Lemmas\<close>

lemma memcmp_less: "length a = length b \<Longrightarrow> memcmp a b < 0 \<longleftrightarrow> a < b"
  by (induction a b rule: memcmp.induct) (auto simp: word_less_def)

lemma memcmp_greater: "length a = length b \<Longrightarrow> 0 < memcmp a b \<longleftrightarrow> b < a"
  by (induction a b rule: memcmp.induct) (auto simp: word_less_def)

interpretation pool: kavl_order scmp ekey
  by unfold_locales (auto simp: scmp_def ekey_def memcmp_less memcmp_greater)

lemma ekey_temp [simp]: "ekey (temp_elem s) = Key s"
  by (simp add: ekey_def temp_elem_def)

lemma mem_get_entries: "pool_ok hdr \<Longrightarrow> mem_get hdr s = entries hdr s"
  by (simp add: mem_get_def pool_ok_def entries_def pool.find_kmap)

lemma entries_key: "entries hdr s = Some e \<Longrightarrow> elem_data e = s"
  by (auto simp: entries_def kmap_def ekey_def dest!: map_of_SomeD)

lemma mem_add_contract:
  assumes "pool_ok hdr" "room hdr"
  shows "\<exists>v hdr'. mem_add c ml hdr s = Some (v, hdr') \<and> pool_ok hdr' \<and> stat hdr' = stat hdr \<and>
    (if c \<and> (stat hdr \<or> ml)
     then v = Some (case entries hdr s of Some e \<Rightarrow> e | None \<Rightarrow> temp_elem s) \<and>
          entries hdr' = (entries hdr)(s := v)
     else v = None \<and> hdr' = hdr)"
proof -
  obtain e t where i: "kavl_insert scmp (root hdr) (temp_elem s) = Some (e, t)" "avl t" "bst ekey t"
      and k: "case kmap ekey (root hdr) (Key s) of Some e0 \<Rightarrow> e = e0 \<and> t = root hdr
        | None \<Rightarrow> e = temp_elem s \<and> kmap ekey t = (kmap ekey (root hdr))(Key s \<mapsto> temp_elem s) \<and>
                  cnt t = Suc (cnt (root hdr))"
    using pool.insert_contract [of "root hdr" "temp_elem s", unfolded ekey_temp] assms
    by (auto simp: pool_ok_def room_def)
  have "entries (hdr\<lparr>root := t\<rparr>) = (entries hdr)(s \<mapsto> e)"
    using k by (auto simp: entries_def fun_eq_iff split: option.splits)
  with i k assms show ?thesis
    by (auto simp: mem_add_def pool_ok_def entries_def split: option.splits)
qed

text \<open>C12: Adding a byte string to a well-formed pool never overflows the fixed path array of the tree
  and keeps the pool well formed. If both allocations succeed, the string is in the pool afterwards:
  an element that was there is returned untouched, otherwise a fresh zeroed one is, and no other
  entry changes. If an allocation fails, the pool is unchanged and the null pointer is returned.\<close>

theorem mem_add_correct:
  assumes "pool_ok hdr" "room hdr"
  shows "\<exists>v hdr'. mem_add c ml hdr s = Some (v, hdr') \<and> pool_ok hdr' \<and> stat hdr' = stat hdr \<and>
    (if c \<and> (stat hdr \<or> ml)
     then v = Some (case entries hdr s of Some e \<Rightarrow> e | None \<Rightarrow> temp_elem s) \<and>
          entries hdr' = (entries hdr)(s := v)
     else v = None \<and> hdr' = hdr)"
  by (rule mem_add_contract [OF assms])

theorem mem_add_correct_witness:
  "\<exists>v hdr'. mem_add True True \<lparr>stat = False, root = Null\<rparr> [1, 2] = Some (v, hdr') \<and>
     v = Some (temp_elem [1, 2]) \<and> mem_get hdr' [1, 2] = v"
proof -
  let ?h = "\<lparr>stat = False, root = Null\<rparr>"
  have "pool_ok ?h" "room ?h" "entries ?h [1, 2] = None"
    by (simp_all add: pool_ok_def room_def bst_def entries_def kmap_def)
  with mem_add_correct [of ?h True True "[1, 2]"] show ?thesis
    by (auto simp: mem_get_entries)
qed

lemma mem_delete_contract:
  assumes "pool_ok hdr" "room hdr"
  shows "\<exists>hdr'. mem_delete hdr s = Some hdr' \<and> pool_ok hdr' \<and> stat hdr' = stat hdr \<and>
    entries hdr' = (entries hdr)(s := None)"
proof -
  obtain t where e: "kavl_erase scmp (root hdr) (Some (temp_elem s)) =
        Some (kmap ekey (root hdr) (Key s), t)" "avl t" "bst ekey t"
      "kmap ekey t = (kmap ekey (root hdr))(Key s := None)"
    using pool.erase_contract [of "root hdr" "temp_elem s"] assms by (auto simp: pool_ok_def room_def)
  then show ?thesis
    by (auto simp: mem_delete_def pool_ok_def entries_def fun_eq_iff)
qed

text \<open>C21: Deleting a byte string from a well-formed pool removes exactly that entry, if there is one,
  and keeps the pool well formed; the path array does not overflow.\<close>

theorem mem_delete_correct:
  assumes "pool_ok hdr" "room hdr"
  shows "\<exists>hdr'. mem_delete hdr s = Some hdr' \<and> pool_ok hdr' \<and> stat hdr' = stat hdr \<and>
    entries hdr' = (entries hdr)(s := None)"
  by (rule mem_delete_contract [OF assms])

lemma mem_set_correct:
  assumes "pool_ok hdr"
  shows "pool_ok (mem_set hdr s mm tm)" "stat (mem_set hdr s mm tm) = stat hdr"
    "entries (mem_set hdr s mm tm) =
       (entries hdr)(s := map_option (\<lambda>e. e\<lparr>elem_m := mm, elem_time := tm\<rparr>) (entries hdr s))"
  using assms
    pool.modify_contract [of "root hdr" "\<lambda>e. e\<lparr>elem_m := mm, elem_time := tm\<rparr>" "temp_elem s", unfolded ekey_temp]
  by (auto simp: mem_set_def pool_ok_def entries_def fun_eq_iff ekey_def)

subsection \<open>The interface\<close>

text \<open>What the clients of a pool rely on, the cache of strategies and the host lists: \<open>content\<close> is a
  finite map that \<open>get\<close>, \<open>put\<close>, \<open>set\<close> and \<open>del\<close> read and update.\<close>

locale string_map =
  fixes wf :: "'m \<Rightarrow> bool" and spare :: "'m \<Rightarrow> bool" and shared :: "'m \<Rightarrow> bool"
    and content :: "'m \<Rightarrow> byte list \<Rightarrow> elem option"
    and get :: "'m \<Rightarrow> byte list \<Rightarrow> elem option"
    and put :: "bool \<Rightarrow> bool \<Rightarrow> 'm \<Rightarrow> byte list \<Rightarrow> (elem option \<times> 'm) option"
    and set :: "'m \<Rightarrow> byte list \<Rightarrow> int \<Rightarrow> int \<Rightarrow> 'm"
    and del :: "'m \<Rightarrow> byte list \<Rightarrow> 'm option"
  assumes get_law: "wf s \<Longrightarrow> get s k = content s k"
    and put_law: "wf s \<Longrightarrow> spare s \<Longrightarrow> \<exists>v s'. put c a s k = Some (v, s') \<and> wf s' \<and>
      (if c \<and> (shared s \<or> a)
       then v = Some (case content s k of Some e \<Rightarrow> e | None \<Rightarrow> temp_elem k) \<and> content s' = (content s)(k := v)
       else v = None \<and> s' = s)"
    and set_law: "wf s \<Longrightarrow> wf (set s k m t) \<and>
      content (set s k m t) = (content s)(k := map_option (\<lambda>e. e\<lparr>elem_m := m, elem_time := t\<rparr>) (content s k))"
    and del_law: "wf s \<Longrightarrow> spare s \<Longrightarrow> \<exists>s'. del s k = Some s' \<and> wf s' \<and> content s' = (content s)(k := None)"
begin

lemma put_total: "wf s \<Longrightarrow> spare s \<Longrightarrow> \<exists>v s'. put c a s k = Some (v, s') \<and> wf s' \<and> (v \<noteq> None \<longleftrightarrow> c \<and> (shared s \<or> a))"
  using put_law [of s c a k] by (auto split: if_splits)

lemma put_failed: "wf s \<Longrightarrow> spare s \<Longrightarrow> put c a s k = Some (None, s') \<Longrightarrow> s' = s"
  using put_law [of s c a k] by (auto split: if_splits)

text \<open>A list of strings: what was put into it is there, and nothing else is new.\<close>

lemma collect:
  "wf s \<Longrightarrow> spare s \<Longrightarrow> put c a s k = Some (Some v, s') \<Longrightarrow> wf s' \<and> (content s' j \<noteq> None \<longleftrightarrow> j = k \<or> content s j \<noteq> None)"
  using put_law [of s c a k] by (auto split: if_splits)

text \<open>A table: putting a key and setting its values overwrites its entry.\<close>

lemma remember:
  assumes "wf s" "spare s" "put c a s k = Some (Some v, s')"
  shows "wf (set s' k m t) \<and> (\<exists>e. content (set s' k m t) = (content s)(k \<mapsto> e\<lparr>elem_m := m, elem_time := t\<rparr>))"
proof -
  have "wf s'" "content s' = (content s)(k \<mapsto> v)"
    using put_law [OF assms(1,2), of c a k] assms(3) by (auto split: if_splits)
  with set_law [of s' k m t] show ?thesis by auto
qed

end

interpretation pool_map: string_map pool_ok room stat entries mem_get mem_add mem_set mem_delete
proof
  show "pool_ok s \<Longrightarrow> room s \<Longrightarrow> \<exists>v s'. mem_add c a s k = Some (v, s') \<and> pool_ok s' \<and>
      (if c \<and> (stat s \<or> a)
       then v = Some (case entries s k of Some e \<Rightarrow> e | None \<Rightarrow> temp_elem k) \<and> entries s' = (entries s)(k := v)
       else v = None \<and> s' = s)" for s c a k
    using mem_add_contract [of s c a k] by blast
  show "pool_ok s \<Longrightarrow> room s \<Longrightarrow> \<exists>s'. mem_delete s k = Some s' \<and> pool_ok s' \<and> entries s' = (entries s)(k := None)" for s k
    using mem_delete_contract [of s k] by blast
qed (simp_all add: mem_get_entries mem_set_correct)

theorem mem_delete_correct_witness:
  "\<exists>hdr'. mem_delete \<lparr>stat = True, root = Node Null (temp_elem [7]) 0 1 Null\<rparr> [7] = Some hdr' \<and>
     mem_get hdr' [7] = None"
proof -
  let ?h = "\<lparr>stat = True, root = Node Null (temp_elem [7]) 0 1 Null\<rparr>"
  have "pool_ok ?h" "room ?h"
    by (simp_all add: pool_ok_def room_def bst_def)
  with mem_delete_correct [of ?h "[7]"] show ?thesis
    by (auto simp: mem_get_entries)
qed

lemma mem_destroy_loop_all:
  "avl t \<Longrightarrow> Suc (cnt t) < 2 ^ 31 \<Longrightarrow> mem_destroy_loop t freed = Some (freed @ inorder t)"
proof (induction "inorder t" arbitrary: t freed)
  case Nil
  then show ?case by (cases t) (simp_all add: mem_destroy_loop.simps)
next
  case (Cons a xs)
  then have "t \<noteq> Null" by auto
  with kavl_erase_first [of t scmp] Cons.prems Cons.hyps(2) obtain t' where
    t': "kavl_erase scmp t None = Some (Some a, t')" "avl t'" "xs = inorder t'" by auto
  have "cnt t' < cnt t"
    using Cons.hyps(2) t'(3) by (metis length_inorder length_Cons lessI)
  with Cons.hyps(1) [of t' "freed @ [a]"] Cons.prems t' have
    "mem_destroy_loop t' (freed @ [a]) = Some ((freed @ [a]) @ inorder t')" by simp
  with t' \<open>t \<noteq> Null\<close> Cons.hyps(2) show ?case
    by (subst mem_destroy_loop.simps) simp
qed

text \<open>C28: Destroying a pool terminates and frees each of its elements exactly once, in the order of
  the tree.\<close>

theorem mem_destroy_frees_all:
  assumes "avl (root hdr)" "room hdr"
  shows "mem_destroy hdr = Some (inorder (root hdr))"
  using assms by (simp add: mem_destroy_def room_def mem_destroy_loop_all)

theorem mem_destroy_frees_all_witness:
  "mem_destroy \<lparr>stat = False, root = Node Null (temp_elem [7]) 1 2 (Node Null (temp_elem [8]) 0 1 Null)\<rparr> =
     Some [temp_elem [7], temp_elem [8]]"
  by (subst mem_destroy_frees_all) (simp_all add: room_def)

end
