(* ===== verification/World.thy ===== *)
theory World
  imports Packets Mpool
begin

text \<open>
  The data that the parts of the proxy share: socket addresses (\<open>proxy.h\<close>), the settings
  (\<open>params.h\<close>), connections and their pool (\<open>conev.h\<close>), and the machine around them.

  The program's state is one record \<open>world\<close>: its global variables, the pool, the scratch buffer of
  the event loop, \<open>errno\<close>, and the kernel. The kernel is a parameter, the function \<open>w_os\<close>: from the
  calls made so far, with their results, and the next call it gives that call's result, so that it
  may depend on anything that happened before. \<open>sys\<close> performs a call and records it in \<open>w_hist\<close>;
  \<open>errno\<close> changes only when a call fails. \<open>comply\<close> holds a result to what the manual pages
  promise: a read gives no more bytes than were asked for and says how many, a write takes no more
  bytes than it was given, and \<open>epoll_wait\<close> fills no more than \<open>maxevents\<close> entries.

  Messages to the log are not modelled.
\<close>

section \<open>Definitions\<close>

subsection \<open>Socket addresses\<close>

text \<open>The union of \<open>sockaddr_in\<close> and \<open>sockaddr_in6\<close>: both start with the family and the port, kept
  as the \<open>uint16_t\<close> that a little-endian machine reads; the next four bytes are \<open>sin_addr\<close> or the
  flow label, the next sixteen \<open>sin6_addr\<close> or \<open>sin_zero\<close>, the last four the scope.\<close>

record sockaddr_ina =
  sa_family :: nat
  sa_port :: nat
  sa_word4 :: "byte list"
  sa_addr16 :: "byte list"
  sa_scope :: "byte list"

definition AF_INET :: nat where "AF_INET = 2"
definition AF_INET6 :: nat where "AF_INET6 = 10"
definition AF_UNIX :: nat where "AF_UNIX = 1"
definition SOCK_STREAM :: nat where "SOCK_STREAM = 1"
definition SOCK_DGRAM :: nat where "SOCK_DGRAM = 2"

definition zero_addr :: sockaddr_ina where
  "zero_addr = \<lparr>sa_family = 0, sa_port = 0, sa_word4 = replicate 4 0, sa_addr16 = replicate 16 0,
     sa_scope = replicate 4 0\<rparr>"

definition le16 :: "nat \<Rightarrow> byte list" where
  "le16 x = [lo8 x, hi8 x]"

text \<open>The 28 bytes of the union as they are in memory.\<close>

definition sa_bytes :: "sockaddr_ina \<Rightarrow> byte list" where
  "sa_bytes a = le16 (sa_family a) @ le16 (sa_port a) @ sa_word4 a @ sa_addr16 a @ sa_scope a"

definition addr_ok :: "sockaddr_ina \<Rightarrow> bool" where
  "addr_ok a \<longleftrightarrow> sa_family a < 65536 \<and> sa_port a < 65536 \<and> length (sa_word4 a) = 4 \<and>
     length (sa_addr16 a) = 16 \<and> length (sa_scope a) = 4"

subsection \<open>Settings\<close>

datatype demode =
  DESYNC_NONE | DESYNC_SPLIT | DESYNC_DISORDER | DESYNC_OOB | DESYNC_DISOOB | DESYNC_FAKE

datatype offset_flag = OFFSET_NONE | OFFSET_SNI | OFFSET_HOST | OFFSET_END

definition DETECT_HTTP_LOCAT :: "32 word" where "DETECT_HTTP_LOCAT = 1"
definition DETECT_TLS_ERR :: "32 word" where "DETECT_TLS_ERR = 2"
definition DETECT_TORST :: "32 word" where "DETECT_TORST = 8"

record part =
  part_m :: demode
  part_flag :: offset_flag
  part_pos :: int

record desync_params =
  dp_ttl :: int
  dp_ip_options :: "byte list option"
  dp_md5sig :: bool
  dp_fake_data :: "byte list option"
  dp_udp_fake_count :: int
  dp_fake_offset :: int
  dp_drop_sack :: bool
  dp_oob_char :: "byte \<times> byte"
  dp_parts :: "part list"
  dp_mod_http :: "32 word"
  dp_tlsrec :: "part list"
  dp_proto :: "32 word"
  dp_detect :: "32 word"
  dp_hosts :: "mphdr option"
  dp_pf :: "nat \<times> nat"
  dp_file :: "byte list option"

record params =
  pr_dp :: "desync_params list"
  pr_sfdelay :: int
  pr_wait_send :: bool
  pr_def_ttl :: int
  pr_custom_ttl :: bool
  pr_tfo :: bool
  pr_timeout :: nat
  pr_cache_ttl :: int
  pr_ipv6 :: bool
  pr_resolve :: bool
  pr_udp :: bool
  pr_max_open :: nat
  pr_debug :: int
  pr_bfsize :: nat
  pr_baddr :: sockaddr_ina
  pr_laddr :: sockaddr_ina
  pr_mempool :: "mphdr option"
  pr_protect_path :: "byte list option"

subsection \<open>Connections\<close>

datatype eid =
  EV_ACCEPT | EV_REQUEST | EV_CONNECT | EV_IGNORE | EV_TUNNEL | EV_PRE_TUNNEL | EV_UDP_TUNNEL | EV_DESYNC

definition FLAG_S4 :: nat where "FLAG_S4 = 1"
definition FLAG_S5 :: nat where "FLAG_S5 = 2"
definition FLAG_CONN :: nat where "FLAG_CONN = 4"

definition POLLIN :: "32 word" where "POLLIN = 1"
definition POLLOUT :: "32 word" where "POLLOUT = 4"
definition POLLERR :: "32 word" where "POLLERR = 8"
definition POLLHUP :: "32 word" where "POLLHUP = 16"
definition POLLRDHUP :: "32 word" where "POLLRDHUP = 8192"

record buffer =
  b_size :: int
  b_offset :: int
  b_data :: "byte list option"

text \<open>A pointer to a connection is its position in \<open>items\<close>.\<close>

record eval =
  v_fd :: int
  v_index :: nat
  v_mod_iter :: "32 word"
  v_type :: eid
  v_pair :: "nat option"
  v_buff :: buffer
  v_flag :: nat
  v_addr :: sockaddr_ina
  v_recv_count :: int
  v_attempt :: nat
  v_cache :: bool

record poolhd =
  p_max :: nat
  p_count :: nat
  p_efd :: int
  p_links :: "nat list"
  p_items :: "eval list"
  p_pevents :: "(nat \<times> 32 word) list"
  p_iters :: "32 word"

subsection \<open>The kernel\<close>

datatype epoll_op = EPOLL_CTL_ADD | EPOLL_CTL_DEL | EPOLL_CTL_MOD

datatype sockopt =
    Ip_ttl int | Ipv6_unicast_hops int | Ip_options "byte list" | Ipv6_v6only int
  | So_attach_filter "(nat \<times> nat \<times> nat \<times> nat) list" | So_detach_filter
  | So_reuseaddr int | So_rcvtimeo nat | So_sndtimeo nat
  | Tcp_md5sig nat sockaddr_ina | Tcp_user_timeout nat | Tcp_syncnt int
  | Tcp_fastopen_connect int | Tcp_nodelay int

datatype sockinfo = Tcp_info | So_error | Get_ip_ttl

datatype syscall =
    Socket nat nat bool
  | Setsockopt int sockopt
  | Getsockopt int sockinfo
  | Bind int sockaddr_ina
  | Listen int nat
  | Accept4 int
  | Connect int sockaddr_ina
  | Connect_unix int "byte list"
  | Send int "byte list" bool
  | Sendto int "byte list" sockaddr_ina
  | Send_fd int int
  | Recv int nat
  | Recvfrom int nat
  | Getsockname int
  | Getpeername int
  | Close int
  | Epoll_create nat
  | Epoll_ctl int epoll_op int "32 word" nat
  | Epoll_wait int nat
  | Memfd_create
  | Ftruncate int int
  | Mmap int int
  | Map_write int "byte list"
  | Munmap int int
  | Sendfile int int int
  | Nanosleep int
  | Time
  | Malloc nat
  | Getaddrinfo "byte list" nat nat
  | Signals
  | Shutdown int
  | Read_file "byte list"
  | Getaddrnum "byte list"

text \<open>A result: the return value, the error number, bytes read, an address, other numbers that the
  call stores, and the events of \<open>epoll_wait\<close>.\<close>

record sysret =
  r_ret :: int
  r_errno :: int
  r_data :: "byte list"
  r_addr :: sockaddr_ina
  r_vals :: "int list"
  r_events :: "(nat \<times> 32 word) list"

type_synonym history = "(syscall \<times> sysret) list"

definition ok_ret :: "int \<Rightarrow> sysret" where
  "ok_ret v = \<lparr>r_ret = v, r_errno = 0, r_data = [], r_addr = zero_addr, r_vals = [], r_events = []\<rparr>"

definition err_ret :: "int \<Rightarrow> sysret" where
  "err_ret e = (ok_ret (- 1))\<lparr>r_errno := e\<rparr>"

definition comply_read :: "nat \<Rightarrow> sysret \<Rightarrow> sysret" where
  "comply_read n r =
     (if r_ret r < 0 then r\<lparr>r_ret := - 1\<rparr>
      else r\<lparr>r_data := take n (r_data r), r_ret := int (length (take n (r_data r)))\<rparr>)"

definition comply_write :: "int \<Rightarrow> sysret \<Rightarrow> sysret" where
  "comply_write n r = r\<lparr>r_ret := (if r_ret r < 0 then - 1 else min (r_ret r) n)\<rparr>"

fun comply :: "syscall \<Rightarrow> sysret \<Rightarrow> sysret" where
  "comply (Recv fd n) r = comply_read n r"
| "comply (Recvfrom fd n) r = comply_read n r"
| "comply (Send fd bs oob) r = comply_write (int (length bs)) r"
| "comply (Sendto fd bs a) r = comply_write (int (length bs)) r"
| "comply (Sendfile fd ffd n) r = comply_write (max 0 n) r"
| "comply (Epoll_wait efd n) r =
     (if r_ret r < 0 then r\<lparr>r_ret := - 1\<rparr>
      else r\<lparr>r_events := take n (r_events r), r_ret := int (length (take n (r_events r)))\<rparr>)"
| "comply c r = r"

definition EINTR :: int where "EINTR = 4"
definition EAGAIN :: int where "EAGAIN = 11"
definition ENETUNREACH :: int where "ENETUNREACH = 101"
definition ECONNRESET :: int where "ECONNRESET = 104"
definition ETIMEDOUT :: int where "ETIMEDOUT = 110"
definition ECONNREFUSED :: int where "ECONNREFUSED = 111"
definition EHOSTUNREACH :: int where "EHOSTUNREACH = 113"
definition EINPROGRESS :: int where "EINPROGRESS = 115"

subsection \<open>The state of the process\<close>

record world =
  w_os :: "history \<Rightarrow> syscall \<Rightarrow> sysret"
  w_hist :: history
  w_errno :: int
  w_params :: params
  w_pool :: poolhd
  w_buffer :: "byte list"
  w_not_exit :: bool
  w_fake_tls :: "byte list"
  w_fake_http :: "byte list"
  w_fake_udp :: "byte list"

definition sys :: "syscall \<Rightarrow> world \<Rightarrow> sysret \<times> world" where
  "sys c w =
     (let r = comply c (w_os w (w_hist w) c) in
      (r, w\<lparr>w_hist := w_hist w @ [(c, r)],
            w_errno := (if r_ret r < 0 then r_errno r else w_errno w)\<rparr>))"

text \<open>A call of which only the return value matters.\<close>

definition call :: "syscall \<Rightarrow> world \<Rightarrow> int \<times> world" where
  "call c w = (let (r, w) = sys c w in (r_ret r, w))"

definition close_fd :: "int \<Rightarrow> world \<Rightarrow> world" where
  "close_fd fd w = snd (sys (Close fd) w)"

definition rval :: "sysret \<Rightarrow> nat \<Rightarrow> int" where
  "rval r i = (if i < length (r_vals r) then r_vals r ! i else 0)"

subsection \<open>Access to the connections\<close>

abbreviation items :: "world \<Rightarrow> eval list" where
  "items w \<equiv> p_items (w_pool w)"

definition ev :: "world \<Rightarrow> nat \<Rightarrow> eval option" where
  "ev w v = (if v < length (items w) then Some (items w ! v) else None)"

definition upd :: "nat \<Rightarrow> (eval \<Rightarrow> eval) \<Rightarrow> world \<Rightarrow> world option" where
  "upd v f w =
     (if v < length (items w)
      then Some (w\<lparr>w_pool := (w_pool w)\<lparr>p_items := (items w)[v := f (items w ! v)]\<rparr>\<rparr>) else None)"

text \<open>The pool as \<open>del_event\<close> and \<open>add_event\<close> change it.\<close>

definition in_pool :: "(poolhd \<Rightarrow> poolhd) \<Rightarrow> world \<Rightarrow> world" where
  "in_pool f w = w\<lparr>w_pool := f (w_pool w)\<rparr>"

subsection \<open>What a history says\<close>

text \<open>The byte stream that the peer of a socket ends up with. The last byte of a \<open>send\<close> with \<open>MSG_OOB\<close>
  is urgent data and not part of the stream. \<open>sendfile\<close> from the mapped memory file refers to the
  pages of the file: what is lost on the way is sent again with what the pages hold by then, so for a
  packet that does not reach the peer the content is the one written last before the file is
  closed.\<close>

fun last_map :: "int \<Rightarrow> history \<Rightarrow> byte list \<Rightarrow> byte list" where
  "last_map ffd [] bs = bs"
| "last_map ffd ((c, r) # h) bs =
     (case c of
        Close fd \<Rightarrow> if fd = ffd then bs else last_map ffd h bs
      | Map_write fd bs' \<Rightarrow> last_map ffd h (if fd = ffd then bs' else bs)
      | _ \<Rightarrow> last_map ffd h bs)"

fun delivered :: "int \<Rightarrow> history \<Rightarrow> byte list" where
  "delivered fd [] = []"
| "delivered fd ((c, r) # h) =
     (case c of
        Send s bs oob \<Rightarrow>
          (if s = fd \<and> 0 \<le> r_ret r then take (nat (r_ret r - (if oob then 1 else 0))) bs else [])
      | Sendfile s ffd n \<Rightarrow>
          (if s = fd \<and> 0 \<le> r_ret r then take (nat (r_ret r)) (last_map ffd h []) else [])
      | _ \<Rightarrow> []) @ delivered fd h"

text \<open>Every memory file that was sent is closed again.\<close>

fun settled :: "history \<Rightarrow> bool" where
  "settled [] = True"
| "settled ((c, r) # h) =
     ((case c of Sendfile s ffd n \<Rightarrow> (\<exists>r. (Close ffd, r) \<in> set h) | _ \<Rightarrow> True) \<and> settled h)"

text \<open>Calls that neither send nor touch memory files.\<close>

fun quiet_call :: "syscall \<Rightarrow> bool" where
  "quiet_call (Send s bs oob) = False"
| "quiet_call (Sendfile s ffd n) = False"
| "quiet_call (Map_write fd bs) = False"
| "quiet_call (Close fd) = False"
| "quiet_call _ = True"

definition quiet :: "history \<Rightarrow> bool" where
  "quiet h \<longleftrightarrow> (\<forall>(c, r) \<in> set h. quiet_call c)"

text \<open>The descriptors a process holds: those it received and did not close.\<close>

fun fds_step :: "syscall \<times> sysret \<Rightarrow> int set \<Rightarrow> int set" where
  "fds_step (Socket d t nb, r) s = (if 0 \<le> r_ret r then insert (r_ret r) s else s)"
| "fds_step (Accept4 fd, r) s = (if 0 \<le> r_ret r then insert (r_ret r) s else s)"
| "fds_step (Memfd_create, r) s = (if 0 \<le> r_ret r then insert (r_ret r) s else s)"
| "fds_step (Epoll_create n, r) s = (if 0 \<le> r_ret r then insert (r_ret r) s else s)"
| "fds_step (Close fd, r) s = s - {fd}"
| "fds_step _ s = s"

definition fds :: "history \<Rightarrow> int set" where
  "fds h = fold fds_step h {}"

text \<open>The kernel's promise on new descriptors: one that is not open, and not the standard streams.\<close>

definition fresh_fds :: "(history \<Rightarrow> syscall \<Rightarrow> sysret) \<Rightarrow> bool" where
  "fresh_fds os \<longleftrightarrow>
     (\<forall>h c. (\<exists>d t nb. c = Socket d t nb) \<or> (\<exists>fd. c = Accept4 fd) \<or> c = Memfd_create \<or>
            (\<exists>n. c = Epoll_create n) \<longrightarrow>
        0 \<le> r_ret (os h c) \<longrightarrow> 2 < r_ret (os h c) \<and> r_ret (os h c) \<notin> fds h)"

text \<open>The slots that are registered at an \<open>epoll\<close> descriptor, by the descriptor they are for: none when
  the \<open>epoll\<close> descriptor is new, and closing a descriptor removes it.\<close>

fun reg_step :: "int \<Rightarrow> syscall \<times> sysret \<Rightarrow> (int \<rightharpoonup> nat) \<Rightarrow> (int \<rightharpoonup> nat)" where
  "reg_step e (Epoll_ctl efd op fd k v, r) m =
     (if efd \<noteq> e \<or> r_ret r \<noteq> 0 then m
      else case op of
          EPOLL_CTL_ADD \<Rightarrow> m(fd \<mapsto> v)
        | EPOLL_CTL_MOD \<Rightarrow> if m fd = None then m else m(fd \<mapsto> v)
        | EPOLL_CTL_DEL \<Rightarrow> m(fd := None))"
| "reg_step e (Epoll_create n, r) m = (if r_ret r = e then Map.empty else m)"
| "reg_step e (Close fd, r) m = m(fd := None)"
| "reg_step e _ m = m"

definition registered :: "int \<Rightarrow> history \<Rightarrow> (int \<rightharpoonup> nat)" where
  "registered e h = fold (reg_step e) h Map.empty"

text \<open>The kernel's promise on events: \<open>epoll_wait\<close> reports slots that are registered.\<close>

definition reports_registered :: "(history \<Rightarrow> syscall \<Rightarrow> sysret) \<Rightarrow> bool" where
  "reports_registered os \<longleftrightarrow>
     (\<forall>h e n. \<forall>(v, t) \<in> set (r_events (os h (Epoll_wait e n))). v \<in> ran (registered e h))"

text \<open>Nothing of the process changed but the pool, the history and \<open>errno\<close>.\<close>

definition keeps :: "world \<Rightarrow> world \<Rightarrow> bool" where
  "keeps w w' \<longleftrightarrow> w_os w' = w_os w \<and> w_params w' = w_params w \<and> w_buffer w' = w_buffer w \<and>
     w_not_exit w' = w_not_exit w \<and> w_fake_tls w' = w_fake_tls w \<and> w_fake_http w' = w_fake_http w \<and>
     w_fake_udp w' = w_fake_udp w \<and> (\<exists>h. w_hist w' = w_hist w @ h)"

subsection \<open>A concrete world\<close>

definition zero_eval :: eval where
  "zero_eval = \<lparr>v_fd = 0, v_index = 0, v_mod_iter = 0, v_type = EV_ACCEPT, v_pair = None,
     v_buff = \<lparr>b_size = 0, b_offset = 0, b_data = None\<rparr>, v_flag = 0, v_addr = zero_addr,
     v_recv_count = 0, v_attempt = 0, v_cache = False\<rparr>"

text \<open>A pool with the listening socket and one connection with its partner, in a world whose kernel
  reports one event on the listening socket at every \<open>epoll_wait\<close>.\<close>

definition sample_pool :: poolhd where
  "sample_pool = \<lparr>p_max = 5, p_count = 3, p_efd = 3, p_links = [0, 1, 2, 3, 4],
     p_items = [zero_eval\<lparr>v_fd := 4\<rparr>,
                zero_eval\<lparr>v_fd := 5, v_index := 1, v_type := EV_TUNNEL, v_pair := Some 2\<rparr>,
                zero_eval\<lparr>v_fd := 6, v_index := 2, v_type := EV_TUNNEL, v_pair := Some 1, v_flag := FLAG_CONN\<rparr>,
                zero_eval, zero_eval],
     p_pevents = [], p_iters = 1\<rparr>"

definition sample_os :: "history \<Rightarrow> syscall \<Rightarrow> sysret" where
  "sample_os h c =
     (case c of
        Epoll_wait efd n \<Rightarrow> (ok_ret 1)\<lparr>r_events := [(0, POLLIN)]\<rparr>
      | Epoll_create n \<Rightarrow> ok_ret 3
      | Socket d t nb \<Rightarrow> ok_ret (10 + int (length h))
      | Send fd bs oob \<Rightarrow> ok_ret (int (length bs))
      | Sendto fd bs a \<Rightarrow> ok_ret (int (length bs))
      | Recv fd n \<Rightarrow> err_ret EAGAIN
      | _ \<Rightarrow> ok_ret 0)"

definition sample_dp :: desync_params where
  "sample_dp = \<lparr>dp_ttl = 0, dp_ip_options = None, dp_md5sig = False, dp_fake_data = None,
     dp_udp_fake_count = 2, dp_fake_offset = 0, dp_drop_sack = False, dp_oob_char = (0, 0), dp_parts = [\<lparr>part_m = DESYNC_DISORDER, part_flag = OFFSET_NONE, part_pos = 5\<rparr>],
     dp_mod_http = 0, dp_tlsrec = [], dp_proto = 0, dp_detect = 0, dp_hosts = None, dp_pf = (0, 0),
     dp_file = None\<rparr>"

definition sample_params :: params where
  "sample_params = \<lparr>pr_dp = [sample_dp], pr_sfdelay = 3, pr_wait_send = False, pr_def_ttl = 64,
     pr_custom_ttl = False, pr_tfo = False, pr_timeout = 0, pr_cache_ttl = 100800, pr_ipv6 = True,
     pr_resolve = True, pr_udp = True, pr_max_open = 512, pr_debug = 0, pr_bfsize = 16384,
     pr_baddr = zero_addr\<lparr>sa_family := AF_INET6\<rparr>, pr_laddr = zero_addr\<lparr>sa_family := AF_INET\<rparr>,
     pr_mempool = Some \<lparr>stat = False, root = Null\<rparr>, pr_protect_path = None\<rparr>"

definition sample_world :: world where
  "sample_world = \<lparr>w_os = sample_os, w_hist = [], w_errno = 0, w_params = sample_params,
     w_pool = sample_pool, w_buffer = replicate 16384 0, w_not_exit = True, w_fake_tls = tls_data,
     w_fake_http = http_data, w_fake_udp = udp_data\<rparr>"

section \<open>Lemmas\<close>

lemma comply_send_bound:
  "r_ret (comply (Send fd bs oob) r) \<le> int (length bs)"
  by (simp add: comply_write_def)

lemma comply_recv:
  "0 \<le> r_ret (comply (Recv fd n) r) \<Longrightarrow>
     r_ret (comply (Recv fd n) r) = int (length (r_data (comply (Recv fd n) r))) \<and>
     length (r_data (comply (Recv fd n) r)) \<le> n"
  by (auto simp: comply_read_def split: if_splits)

text \<open>A system call changes the history and \<open>errno\<close> only.\<close>

lemma sys_frame [simp]:
  "w_os (snd (sys c w)) = w_os w" "w_params (snd (sys c w)) = w_params w"
  "w_pool (snd (sys c w)) = w_pool w" "w_buffer (snd (sys c w)) = w_buffer w"
  "w_not_exit (snd (sys c w)) = w_not_exit w" "w_fake_tls (snd (sys c w)) = w_fake_tls w"
  "w_fake_http (snd (sys c w)) = w_fake_http w" "w_fake_udp (snd (sys c w)) = w_fake_udp w"
  by (simp_all add: sys_def Let_def)

lemma sys_hist [simp]:
  "w_hist (snd (sys c w)) = w_hist w @ [(c, comply c (w_os w (w_hist w) c))]"
  "fst (sys c w) = comply c (w_os w (w_hist w) c)"
  by (simp_all add: sys_def Let_def)

lemma quiet_Nil [simp]: "quiet []"
  by (simp add: quiet_def)

lemma quiet_Cons [simp]: "quiet ((c, r) # h) \<longleftrightarrow> quiet_call c \<and> quiet h"
  by (simp add: quiet_def)

lemma quiet_append [simp]: "quiet (h @ h') \<longleftrightarrow> quiet h \<and> quiet h'"
  by (auto simp: quiet_def)

lemma quiet_last_map: "quiet h \<Longrightarrow> last_map ffd (h @ h') bs = last_map ffd h' bs"
  by (induction h) (auto split: syscall.split)

lemma quiet_delivered [simp]: "quiet h \<Longrightarrow> delivered fd h = []"
  by (induction h) (auto split: syscall.split)

lemma quiet_settled [simp]: "quiet h \<Longrightarrow> settled h"
  by (induction h) (auto split: syscall.split)

lemma quiet_delivered_append [simp]: "quiet h \<Longrightarrow> delivered fd (h @ h') = delivered fd h'"
  by (induction h) (auto split: syscall.split)

lemma last_map_settled:
  "(Close ffd, r) \<in> set h \<Longrightarrow> last_map ffd (h @ h') bs = last_map ffd h bs"
  by (induction h arbitrary: bs) (auto split: syscall.split)

lemma delivered_append [simp]: "settled h \<Longrightarrow> delivered fd (h @ h') = delivered fd h @ delivered fd h'"
  by (induction h) (auto simp: last_map_settled split: syscall.split)

lemma settled_append [simp]: "settled h \<Longrightarrow> settled h' \<Longrightarrow> settled (h @ h')"
  by (induction h) (auto split: syscall.split, blast)

lemma registered_snoc: "registered e (h @ [c]) = reg_step e c (registered e h)"
  by (simp add: registered_def)

lemma fds_snoc: "fds (h @ [c]) = fds_step c (fds h)"
  by (simp add: fds_def)

lemma sa_bytes_length: "addr_ok a \<Longrightarrow> length (sa_bytes a) = 28"
  by (simp add: sa_bytes_def addr_ok_def le16_def)

lemma keeps_refl [simp]: "keeps w w"
  by (simp add: keeps_def)

lemma keeps_trans [trans]: "keeps w w' \<Longrightarrow> keeps w' w'' \<Longrightarrow> keeps w w''"
  by (auto simp: keeps_def)

lemma keeps_sys [simp]: "keeps w (snd (sys c w))"
  by (simp add: keeps_def)

lemma keeps_call [simp]: "keeps w (snd (call c w))"
  by (simp add: keeps_def call_def split_beta)

lemma keeps_close_fd [simp]: "keeps w (close_fd fd w)"
  by (simp add: close_fd_def)

lemma keeps_in_pool [simp]: "keeps w (in_pool f w)"
  by (simp add: keeps_def in_pool_def)

lemma keeps_pool_update [simp]: "keeps w (w'\<lparr>w_pool := p\<rparr>) \<longleftrightarrow> keeps w w'"
  by (simp add: keeps_def)

lemma keeps_upd: "upd v f w = Some w' \<Longrightarrow> keeps w w'"
  by (auto simp: upd_def split: if_splits)

lemma close_fd_pool [simp]: "w_pool (close_fd fd w) = w_pool w"
  by (simp add: close_fd_def)

lemma call_pool [simp]: "w_pool (snd (call c w)) = w_pool w"
  by (simp add: call_def split_beta)

lemma upd_length: "upd v f w = Some w' \<Longrightarrow> length (items w') = length (items w)"
  by (auto simp: upd_def split: if_splits)

end
