(* ===== verification/Conev.thy ===== *)
theory Conev
  imports World
begin

text \<open>
  The pool of connections of \<open>src/app/src/main/cpp/byedpi/conev.c\<close> in its \<open>epoll\<close> variant. The pool
  has \<open>max\<close> slots (\<open>items\<close>); \<open>links\<close> is a permutation of them whose first \<open>count\<close> entries are the
  slots in use. \<open>del_event\<close> moves a slot behind the slots in use and then deletes the connection it
  is paired with. \<open>next_event\<close> hands out the events of one \<open>epoll_wait\<close>, from the last to the first,
  and skips slots that were added or deleted since that call, which it sees from \<open>mod_iter\<close>.

  Memory that \<open>malloc\<close> returned and nobody wrote is the parameter \<open>junk\<close>. The invariant \<open>pool_inv\<close>
  covers the permutation, the positions stored in the slots, the pairs (each connection that is
  paired is the partner of exactly one connection, so that pairs form cycles) and the listening
  socket, which stays in slot 0. \<open>batch_ok\<close> is what makes handing out the events safe.
\<close>

section \<open>Definitions\<close>

definition zero_pool :: poolhd where
  "zero_pool = \<lparr>p_max = 0, p_count = 0, p_efd = 0, p_links = [], p_items = [], p_pevents = [],
     p_iters = 0\<rparr>"

definition nth_link :: "world \<Rightarrow> nat \<Rightarrow> nat option" where
  "nth_link w i =
     (if i < length (p_links (w_pool w)) then Some (p_links (w_pool w) ! i) else None)"

definition set_link :: "nat \<Rightarrow> nat \<Rightarrow> world \<Rightarrow> world option" where
  "set_link i v w =
     (if i < length (p_links (w_pool w))
      then Some (in_pool (\<lambda>p. p\<lparr>p_links := (p_links p)[i := v]\<rparr>) w) else None)"

fun destroy_links :: "nat list \<Rightarrow> world \<Rightarrow> world option" where
  "destroy_links [] w = Some w"
| "destroy_links (v # vs) w = do {
     e \<leftarrow> ev w v;
     let w = (if v_fd e \<noteq> 0 then close_fd (v_fd e) w else w);
     w \<leftarrow> upd v (\<lambda>e. e\<lparr>v_fd := 0, v_buff := (v_buff e)\<lparr>b_data := None\<rparr>\<rparr>) w;
     destroy_links vs w }"

definition destroy_pool :: "world \<Rightarrow> world option" where
  "destroy_pool w = do {
     w \<leftarrow> (if p_count (w_pool w) \<le> length (p_links (w_pool w))
           then destroy_links (take (p_count (w_pool w)) (p_links (w_pool w))) w else None);
     let w = (if p_efd (w_pool w) \<noteq> 0 then close_fd (p_efd (w_pool w)) w else w);
     Some (w\<lparr>w_pool := zero_pool\<rparr>) }"

text \<open>\<open>init_pool(count)\<close>: only the first item is cleared.\<close>

definition init_pool :: "(nat \<Rightarrow> eval) \<Rightarrow> nat \<Rightarrow> world \<Rightarrow> (bool \<times> world) option" where
  "init_pool junk n w =
     (let (hd_ok, w) = call (Malloc 48) w in
      if hd_ok < 0 then Some (False, w)
      else let (efd, w) = call (Epoll_create n) w in
      if efd < 0 then Some (False, w)
      else let (ok1, w) = call (Malloc (16 * n)) w;
               (ok2, w) = call (Malloc (8 * n)) w;
               (ok3, w) = call (Malloc (96 * n)) w in
      if ok1 < 0 \<or> ok2 < 0 \<or> ok3 < 0
      then do {
        w \<leftarrow> destroy_pool (w\<lparr>w_pool := zero_pool\<lparr>p_max := n, p_efd := efd\<rparr>\<rparr>);
        Some (False, w) }
      else if n = 0 then None
      else Some (True, w\<lparr>w_pool :=
        \<lparr>p_max = n, p_count = 0, p_efd = efd, p_links = [0..<n],
         p_items = (map junk [0..<n])[0 := zero_eval], p_pevents = [], p_iters = 0\<rparr>\<rparr>))"

definition add_event :: "eid \<Rightarrow> int \<Rightarrow> 32 word \<Rightarrow> world \<Rightarrow> (nat option \<times> world) option" where
  "add_event type fd e w =
     (if \<not> fd > 0 then None
      else if p_count (w_pool w) \<ge> p_max (w_pool w) then Some (None, w)
      else do {
        v \<leftarrow> nth_link w (p_count (w_pool w));
        w \<leftarrow> upd v (\<lambda>_. zero_eval\<lparr>v_mod_iter := p_iters (w_pool w), v_fd := fd,
                       v_index := p_count (w_pool w), v_type := type\<rparr>) w;
        let (r, w) = call (Epoll_ctl (p_efd (w_pool w)) EPOLL_CTL_ADD fd (POLLRDHUP OR e) v) w;
        if r \<noteq> 0 then Some (None, w)
        else Some (Some v, in_pool (\<lambda>p. p\<lparr>p_count := p_count p + 1\<rparr>) w) })"

text \<open>The slot moves behind the slots in use, and the last of them takes its place.\<close>

definition drop_link :: "nat \<Rightarrow> nat \<Rightarrow> world \<Rightarrow> world option" where
  "drop_link v index w =
     (let w = in_pool (\<lambda>p. p\<lparr>p_count := p_count p - 1\<rparr>) w in
      do {
        l \<leftarrow> nth_link w (p_count (w_pool w));
        if l \<noteq> v
        then do {
          w \<leftarrow> set_link index l w;
          w \<leftarrow> set_link (p_count (w_pool w)) v w;
          upd l (\<lambda>x. x\<lparr>v_index := index\<rparr>) w }
        else Some w })"

text \<open>\<open>del_event\<close> up to the treatment of the pair, for a slot whose descriptor is not \<open>-1\<close>.\<close>

definition del_slot :: "nat \<Rightarrow> eval \<Rightarrow> world \<Rightarrow> world option" where
  "del_slot v e w =
     (let w = snd (call (Epoll_ctl (p_efd (w_pool w)) EPOLL_CTL_DEL (v_fd e) 0 0) w) in
      if b_data (v_buff e) \<noteq> None \<and> b_size (v_buff e) = 0 then None
      else let w = close_fd (v_fd e) w in
      if p_count (w_pool w) = 0 then None
      else do {
        w \<leftarrow> upd v (\<lambda>e. e\<lparr>v_buff := (v_buff e)\<lparr>b_data := None\<rparr>, v_fd := - 1,
                       v_mod_iter := p_iters (w_pool w)\<rparr>) w;
        drop_link v (v_index e) w })"

text \<open>Detaching a slot from its pair, before the pair is deleted.\<close>

definition unpair :: "nat \<Rightarrow> nat \<Rightarrow> world \<Rightarrow> world option" where
  "unpair v p w = do {
     pe \<leftarrow> ev w p;
     w \<leftarrow> (if v_pair pe = Some v then upd p (\<lambda>x. x\<lparr>v_pair := None\<rparr>) w else Some w);
     upd v (\<lambda>x. x\<lparr>v_pair := None\<rparr>) w }"

text \<open>Each call of \<open>del_event\<close> that goes on to the pair has closed one more slot.\<close>

definition open_slots :: "world \<Rightarrow> nat set" where
  "open_slots w = {i. i < length (items w) \<and> v_fd (items w ! i) \<noteq> - 1}"

lemma open_slots_finite [simp]: "finite (open_slots w)"
  by (simp add: open_slots_def)

lemma open_slots_upd:
  "upd v f w = Some w' \<Longrightarrow> (\<And>x. v_fd (f x) = v_fd x) \<Longrightarrow> open_slots w' = open_slots w"
  by (auto simp: upd_def open_slots_def nth_list_update split: if_splits)

lemma open_slots_cong: "items w' = items w \<Longrightarrow> open_slots w' = open_slots w"
  by (simp add: open_slots_def)

lemma open_slots_close:
  "upd v f w = Some w' \<Longrightarrow> (\<And>x. v_fd (f x) = - 1) \<Longrightarrow> open_slots w' = open_slots w - {v}"
  by (auto simp: upd_def open_slots_def nth_list_update split: if_splits)

lemma set_link_items: "set_link i v w = Some w' \<Longrightarrow> items w' = items w"
  by (auto simp: set_link_def in_pool_def split: if_splits)

lemma open_slots_drop_link:
  assumes "drop_link v index w = Some w'"
  shows "open_slots w' = open_slots w"
proof -
  define w2 where "w2 = in_pool (\<lambda>p. p\<lparr>p_count := p_count p - 1\<rparr>) w"
  have "open_slots w2 = open_slots w"
    by (rule open_slots_cong) (simp add: w2_def in_pool_def)
  moreover have "open_slots w' = open_slots w2"
    using assms unfolding drop_link_def Let_def w2_def [symmetric]
    by (auto simp: bind_eq_Some_conv split: if_splits
        dest!: open_slots_upd open_slots_cong [OF set_link_items])
  ultimately show ?thesis by simp
qed

lemma open_slots_del_slot:
  assumes "del_slot v e w = Some w'"
  shows "open_slots w' = open_slots w - {v}"
proof -
  define w0 where "w0 = close_fd (v_fd e)
     (snd (call (Epoll_ctl (p_efd (w_pool w)) EPOLL_CTL_DEL (v_fd e) 0 0) w))"
  have "open_slots w0 = open_slots w"
    by (rule open_slots_cong) (simp add: w0_def)
  then show ?thesis
    using assms unfolding del_slot_def Let_def w0_def [symmetric]
    by (auto simp: bind_eq_Some_conv split: if_splits
        dest!: open_slots_drop_link dest: open_slots_close)
qed

lemma open_slots_pair:
  "upd v (v_pair_update f) w = Some w' \<Longrightarrow> open_slots w' = open_slots w"
  by (erule open_slots_upd) simp

lemma open_slots_unpair:
  assumes "unpair v p w = Some w'"
  shows "open_slots w' = open_slots w"
proof -
  have "\<exists>w1. (w1 = w \<or> upd p (\<lambda>x. x\<lparr>v_pair := None\<rparr>) w = Some w1) \<and>
      upd v (\<lambda>x. x\<lparr>v_pair := None\<rparr>) w1 = Some w'"
    using assms unfolding unpair_def by (auto simp: bind_eq_Some_conv split: if_splits)
  then show ?thesis
    using open_slots_pair by blast
qed

function del_event :: "nat \<Rightarrow> world \<Rightarrow> world option" where
  "del_event v w = do {
     e \<leftarrow> ev w v;
     if \<not> (v_fd e \<ge> - 1 \<and> v_mod_iter e \<le> p_iters (w_pool w)) then None
     else if v_fd e = - 1 then Some w
     else do {
       w1 \<leftarrow> del_slot v e w;
       w2 \<leftarrow> (case v_pair e of
                None \<Rightarrow> Some w1
              | Some p \<Rightarrow> do { w1 \<leftarrow> unpair v p w1; del_event p w1 });
       if p_count (w_pool w2) > 0 then Some w2 else None } }"
  by pat_completeness auto
termination
proof (relation "measure (\<lambda>(v, w). card (open_slots w))", goal_cases)
  case (2 v w e w1 p w1')
  then have "open_slots w1' = open_slots w - {v}" "v \<in> open_slots w"
    using open_slots_del_slot [of v e w w1] open_slots_unpair [of v p w1 w1']
    by (auto simp: open_slots_def ev_def split: if_splits)
  then show ?case using card_Diff1_less [of "open_slots w" v] by simp
qed simp

declare del_event.simps [simp del]

text \<open>\<open>epoll_wait\<close> when no event of the last batch is left; the result is the position of the
  event to look at, or -1.\<close>

definition epoll_step :: "int \<Rightarrow> world \<Rightarrow> int \<times> world" where
  "epoll_step offs w =
     (if offs < 0
      then let (r, w) = sys (Epoll_wait (p_efd (w_pool w)) (p_max (w_pool w))) w; i = r_ret r - 1 in
           if i < 0 then (i, w)
           else (i, in_pool (\<lambda>p. p\<lparr>p_pevents := r_events r @ drop (length (r_events r)) (p_pevents p),
                     p_iters := (if p_iters p = - 1 then 0 else p_iters p) + 1\<rparr>) w)
      else (offs, w))"

definition nth_event :: "world \<Rightarrow> int \<Rightarrow> (nat \<times> 32 word) option" where
  "nth_event w i =
     (if 0 \<le> i \<and> nat i < length (p_pevents (w_pool w)) then Some (p_pevents (w_pool w) ! nat i) else None)"

partial_function (option) next_event ::
    "int \<Rightarrow> world \<Rightarrow> ((nat \<times> 32 word) option \<times> int \<times> world) option" where
  "next_event offs w =
     (if \<not> (offs \<ge> - 1 \<and> offs < int (p_max (w_pool w))) then None
      else let (i, w) = epoll_step offs w in
      if i < 0 then Some (None, offs, w)
      else do {
        (v, type) \<leftarrow> nth_event w i;
        e \<leftarrow> ev w v;
        if v_mod_iter e = p_iters (w_pool w) then next_event (i - 1) w
        else Some (Some (v, type), i - 1, w) })"

definition mod_etype :: "nat \<Rightarrow> 32 word \<Rightarrow> world \<Rightarrow> (int \<times> world) option" where
  "mod_etype v type w = do {
     e \<leftarrow> ev w v;
     if v_fd e > 0
     then Some (call (Epoll_ctl (p_efd (w_pool w)) EPOLL_CTL_MOD (v_fd e) (POLLRDHUP OR type) v) w)
     else None }"

subsection \<open>Specification\<close>

definition live :: "world \<Rightarrow> nat set" where
  "live w = set (take (p_count (w_pool w)) (p_links (w_pool w)))"

definition pr :: "world \<Rightarrow> nat \<Rightarrow> nat option" where
  "pr w i = v_pair (items w ! i)"

definition paired :: "world \<Rightarrow> nat set" where
  "paired w = {i \<in> live w. pr w i \<noteq> None}"

definition dead :: "world \<Rightarrow> nat \<Rightarrow> bool" where
  "dead w i \<longleftrightarrow> i < p_max (w_pool w) \<and> v_fd (items w ! i) = - 1 \<and>
     v_mod_iter (items w ! i) \<le> p_iters (w_pool w)"

definition slot_ok :: "32 word \<Rightarrow> nat \<Rightarrow> eval \<Rightarrow> bool" where
  "slot_ok iters i e \<longleftrightarrow> v_index e = i \<and> 0 < v_fd e \<and> v_mod_iter e \<le> iters \<and>
     (b_data (v_buff e) \<noteq> None \<longrightarrow> b_size (v_buff e) \<noteq> 0)"

definition slots_ok :: "world \<Rightarrow> bool" where
  "slots_ok w \<longleftrightarrow>
     (let p = w_pool w in
      length (p_links p) = p_max p \<and> length (p_items p) = p_max p \<and> distinct (p_links p) \<and>
      set (p_links p) = {..<p_max p} \<and> p_count p \<le> p_max p \<and>
      (\<forall>i<p_count p. slot_ok (p_iters p) i (p_items p ! (p_links p ! i))))"

text \<open>The listening socket is in slot 0, in use, not paired, and the only one of its kind.\<close>

definition listener :: "world \<Rightarrow> bool" where
  "listener w \<longleftrightarrow> 0 < p_count (w_pool w) \<and> p_links (w_pool w) ! 0 = 0 \<and> pr w 0 = None \<and>
     (\<forall>i\<in>live w. v_type (items w ! i) = EV_ACCEPT \<longleftrightarrow> i = 0)"

definition pairs_ok :: "world \<Rightarrow> bool" where
  "pairs_ok w \<longleftrightarrow> inj_on (pr w) (paired w) \<and> Some ` paired w \<subseteq> pr w ` paired w"

definition pool_inv :: "world \<Rightarrow> bool" where
  "pool_inv w \<longleftrightarrow> slots_ok w \<and> listener w \<and> pairs_ok w"

text \<open>The events that are still to be handed out belong to slots in use, or to slots that were
  changed since they were reported.\<close>

definition pending :: "world \<Rightarrow> nat \<Rightarrow> bool" where
  "pending w v \<longleftrightarrow>
     v \<in> live w \<or> v < p_max (w_pool w) \<and> v_mod_iter (items w ! v) = p_iters (w_pool w)"

definition batch_ok :: "int \<Rightarrow> world \<Rightarrow> bool" where
  "batch_ok offs w \<longleftrightarrow> - 1 \<le> offs \<and> offs < int (p_max (w_pool w)) \<and>
     (\<forall>j. int j \<le> offs \<longrightarrow> j < length (p_pevents (w_pool w)) \<and>
        pending w (fst (p_pevents (w_pool w) ! j)))"

text \<open>What the kernel promises on events: it reports the slots of registered descriptors. These are
  the slots in use, because a slot is registered when it is added and removed when it is deleted.\<close>

definition reports_live :: "world \<Rightarrow> bool" where
  "reports_live w \<longleftrightarrow>
     (let r = w_os w (w_hist w) (Epoll_wait (p_efd (w_pool w)) (p_max (w_pool w))) in
      \<forall>(v, t) \<in> set (r_events r). v \<in> live w)"

text \<open>The state while \<open>del_event\<close> follows the pairs: a connection may still point to one that was
  deleted, and only \<open>p\<close>, the next to be deleted, may have lost the one that points to it.\<close>

definition chain_ok :: "nat \<Rightarrow> world \<Rightarrow> bool" where
  "chain_ok p w \<longleftrightarrow> inj_on (pr w) (paired w) \<and> Some ` (paired w - {p}) \<subseteq> pr w ` paired w \<and>
     (\<forall>i\<in>paired w. \<forall>j. pr w i = Some j \<longrightarrow> j \<noteq> 0 \<and> (j \<in> live w \<or> dead w j))"

section \<open>Lemmas\<close>

subsection \<open>Slots\<close>

lemma live_iff:
  "slots_ok w \<Longrightarrow> v \<in> live w \<longleftrightarrow>
     (\<exists>k<p_count (w_pool w). p_links (w_pool w) ! k = v)"
  by (auto simp: slots_ok_def live_def in_set_conv_nth Let_def)

lemma live_index:
  assumes "slots_ok w" "v \<in> live w"
  shows "v_index (items w ! v) < p_count (w_pool w)"
    "p_links (w_pool w) ! v_index (items w ! v) = v" "v < p_max (w_pool w)"
    "0 < v_fd (items w ! v)" "v_mod_iter (items w ! v) \<le> p_iters (w_pool w)"
    "b_data (v_buff (items w ! v)) \<noteq> None \<Longrightarrow> b_size (v_buff (items w ! v)) \<noteq> 0"
proof -
  obtain k where k: "k < p_count (w_pool w)" "p_links (w_pool w) ! k = v"
    using assms live_iff by blast
  then have "slot_ok (p_iters (w_pool w)) k (items w ! v)"
    using assms(1) by (auto simp: slots_ok_def Let_def)
  with k show "v_index (items w ! v) < p_count (w_pool w)"
    "p_links (w_pool w) ! v_index (items w ! v) = v"
    "0 < v_fd (items w ! v)" "v_mod_iter (items w ! v) \<le> p_iters (w_pool w)"
    "b_data (v_buff (items w ! v)) \<noteq> None \<Longrightarrow> b_size (v_buff (items w ! v)) \<noteq> 0"
    by (auto simp: slot_ok_def)
  show "v < p_max (w_pool w)"
    using assms k by (auto simp: slots_ok_def Let_def)
qed

lemma live_ev: "slots_ok w \<Longrightarrow> v \<in> live w \<Longrightarrow> ev w v = Some (items w ! v)"
  using live_index(3) [of w v] by (simp add: ev_def slots_ok_def Let_def)

lemma listener_live: "listener w \<Longrightarrow> slots_ok w \<Longrightarrow> 0 \<in> live w"
  by (auto simp: listener_def live_iff)

lemma index_nonzero:
  assumes "slots_ok w" "listener w" "v \<in> live w" "v \<noteq> 0"
  shows "0 < v_index (items w ! v)"
  using live_index(2) [OF assms(1,3)] assms(2,4) by (cases "v_index (items w ! v)") (auto simp: listener_def)

text \<open>Closing the gap that a deleted slot leaves among the links.\<close>

lemma links_close_gap:
  assumes d: "distinct L" and c: "Suc c \<le> length L" and k: "k \<le> c"
  defines "L' \<equiv> L[k := L ! c, c := L ! k]"
  shows "set (take c L') = set (take (Suc c) L) - {L ! k}" "distinct L'" "set L' = set L"
    "L' ! c = L ! k" "i < c \<Longrightarrow> L' ! i = (if i = k then L ! c else L ! i)"
proof -
  have S: "set (take (Suc c) L) = insert (L ! c) (set (take c L))"
    using c by (simp add: take_Suc_conv_app_nth)
  have n: "L ! c \<notin> set (take c L)"
    using d c by (metis Suc_le_eq distinct_take take_Suc_conv_app_nth distinct_append
        disjoint_iff list.set_intros(1))
  have t: "take c L' = (take c L)[k := L ! c]"
    by (simp add: L'_def take_update_swap list_update_beyond)
  show "set (take c L') = set (take (Suc c) L) - {L ! k}"
  proof (cases "k = c")
    case True
    with t n S show ?thesis by (simp add: list_update_beyond)
  next
    case False
    then have k: "k < c" using k by simp
    then have "set (take c L') = insert (L ! c) (set (take c L) - {L ! k})"
      using t d c by (simp add: set_update_distinct)
    moreover have "L ! k \<noteq> L ! c" using d k c by (simp add: nth_eq_iff_index_eq)
    ultimately show ?thesis using S by auto
  qed
  show "distinct L'" "set L' = set L"
    using d c k by (simp_all add: L'_def distinct_swap set_swap)
  show "L' ! c = L ! k" using c by (simp add: L'_def)
  show "i < c \<Longrightarrow> L' ! i = (if i = k then L ! c else L ! i)" using c by (simp add: L'_def nth_list_update)
qed

definition closed :: "32 word \<Rightarrow> eval \<Rightarrow> eval" where
  "closed iters e = e\<lparr>v_buff := (v_buff e)\<lparr>b_data := None\<rparr>, v_fd := - 1, v_mod_iter := iters\<rparr>"

lemma del_slot_eq:
  assumes s: "slots_ok w" and v: "v \<in> live w" and c: "p_count (w_pool w) = Suc c"
  defines "P \<equiv> w_pool w"
  defines "k \<equiv> v_index (p_items P ! v)" and "l \<equiv> p_links P ! c"
  defines "I \<equiv> (p_items P)[v := closed (p_iters P) (p_items P ! v)]"
  shows "\<exists>w'. del_slot v (items w ! v) w = Some w' \<and> w_pool w' =
      P\<lparr>p_items := I[l := (I ! l)\<lparr>v_index := k\<rparr>], p_links := (p_links P)[k := l, c := v], p_count := c\<rparr> \<and>
    keeps w w'"
proof -
  note li = live_index [OF s v]
  have len: "length (p_links P) = p_max P" "length (p_items P) = p_max P" "Suc c \<le> p_max P"
    using s c by (simp_all add: slots_ok_def P_def Let_def)
  have lmax: "l < p_max P"
    using s len by (auto simp: slots_ok_def P_def Let_def l_def)
  have k: "k < p_max P" "p_links P ! k = v" "k \<le> c"
    using li c len by (simp_all add: k_def P_def)
  let ?w0 = "close_fd (v_fd (items w ! v))
     (snd (call (Epoll_ctl (p_efd P) EPOLL_CTL_DEL (v_fd (items w ! v)) 0 0) w))"
  have w0: "keeps w ?w0"
    using keeps_trans keeps_call keeps_close_fd by blast
  have nb: "\<not> (b_data (v_buff (items w ! v)) \<noteq> None \<and> b_size (v_buff (items w ! v)) = 0)"
    using li(6) by blast
  show ?thesis
  proof (cases "l = v")
    case True
    have "k = c"
      using s k len True l_def by (auto simp: slots_ok_def P_def Let_def nth_eq_iff_index_eq)
    moreover have "(I ! v)\<lparr>v_index := k\<rparr> = I ! v"
      using lmax True len by (simp add: I_def k_def closed_def)
    moreover have "(p_links P)[c := v] = p_links P"
      using True l_def by (metis list_update_id)
    ultimately show ?thesis
      using True nb c len lmax k w0 [folded P_def]
      by (simp add: del_slot_def drop_link_def Let_def upd_def in_pool_def nth_link_def set_link_def P_def [symmetric]
          l_def [symmetric] I_def closed_def)
  next
    case False
    then show ?thesis
      using nb c len lmax k w0 [folded P_def] li(3) [folded P_def]
      by (simp add: del_slot_def drop_link_def Let_def upd_def in_pool_def nth_link_def set_link_def P_def [symmetric]
          l_def [symmetric] k_def [symmetric] I_def closed_def)
  qed
qed

text \<open>Every slot but \<open>v\<close> keeps all but its position among the links.\<close>

definition kept :: "nat set \<Rightarrow> world \<Rightarrow> world \<Rightarrow> bool" where
  "kept D w w' \<longleftrightarrow> p_max (w_pool w') = p_max (w_pool w) \<and> p_iters (w_pool w') = p_iters (w_pool w) \<and>
     p_efd (w_pool w') = p_efd (w_pool w) \<and> p_pevents (w_pool w') = p_pevents (w_pool w) \<and>
     (\<forall>i. i \<notin> D \<longrightarrow> (\<exists>k. items w' ! i = (items w ! i)\<lparr>v_index := k\<rparr>))"

lemma same_index: "\<exists>k. e = e\<lparr>v_index := k\<rparr>"
  by (rule exI [of _ "v_index e"]) simp

definition stamped :: "world \<Rightarrow> world \<Rightarrow> bool" where
  "stamped w w' \<longleftrightarrow> (\<forall>i. v_mod_iter (items w' ! i) =
     (if i \<in> live w - live w' then p_iters (w_pool w) else v_mod_iter (items w ! i)))"

text \<open>The last link takes the place of the deleted one, and its slot learns its new position.\<close>

lemma links_closed_ok:
  assumes d: "distinct ls" and c: "Suc c \<le> length ls" and k: "k \<le> c" "ls ! k = v" and l: "l = ls ! c"
    and gap: "\<And>i. i < c \<Longrightarrow> ls[k := l, c := v] ! i = (if i = k then l else ls ! i)"
    and so: "\<And>j. j \<le> c \<Longrightarrow> slot_ok n j (its ! (ls ! j))"
    and it: "\<And>j. its' ! j = (if j = l then (I ! l)\<lparr>v_index := k\<rparr> else I ! j)"
    and I: "\<And>j. I ! j = (if j = v then e else its ! j)" and i: "i < c"
  shows "slot_ok n i (its' ! (ls[k := l, c := v] ! i))"
proof -
  note inj = nth_eq_iff_index_eq [OF d]
  show ?thesis
  proof (cases "i = k")
    case True
    then have "l \<noteq> v" using inj [of c k] i c k(2) by (simp add: l)
    then have "its' ! l = (its ! l)\<lparr>v_index := k\<rparr>" by (simp add: it I)
    with so [of c, folded l] gap [OF i] True show ?thesis by (simp add: slot_ok_def)
  next
    case False
    then have "ls ! i \<noteq> v" "ls ! i \<noteq> l"
      using inj [of i k] inj [of i c] i c k by (simp_all add: l)
    then have "its' ! (ls ! i) = its ! (ls ! i)" by (simp add: it I)
    with so [of i] gap [OF i] False i show ?thesis by simp
  qed
qed

lemma listener_deleted:
  assumes ls: "listener w" and v: "v \<noteq> 0" and lv: "live w' = live w - {v}"
    and c: "0 < p_count (w_pool w')" and 0: "p_links (w_pool w') ! 0 = p_links (w_pool w) ! 0"
    and t: "\<And>i. v_type (items w' ! i) = v_type (items w ! i)" and p: "v_pair (items w' ! 0) = v_pair (items w ! 0)"
  shows "listener w'"
  using assms by (simp add: listener_def pr_def)

lemma del_slot_inv:
  assumes s: "slots_ok w" and ls: "listener w" and v: "v \<in> live w" "v \<noteq> 0"
  shows "\<exists>w'. del_slot v (items w ! v) w = Some w' \<and> slots_ok w' \<and> listener w' \<and>
    live w' = live w - {v} \<and> dead w' v \<and> pr w' v = pr w v \<and> kept {v} w w' \<and> keeps w w' \<and>
    stamped w w'"
proof -
  obtain c where c: "p_count (w_pool w) = Suc c"
    using ls by (cases "p_count (w_pool w)") (auto simp: listener_def)
  define P where "P = w_pool w"
  define k where "k = v_index (p_items P ! v)"
  define l where "l = p_links P ! c"
  define I where "I = (p_items P)[v := closed (p_iters P) (p_items P ! v)]"
  from del_slot_eq [OF s v(1) c, folded P_def, folded k_def l_def, folded I_def] obtain w' where
    w': "del_slot v (items w ! v) w = Some w'" "keeps w w'" and pool: "w_pool w' =
      P\<lparr>p_items := I[l := (I ! l)\<lparr>v_index := k\<rparr>], p_links := (p_links P)[k := l, c := v], p_count := c\<rparr>"
    by (auto simp: P_def)
  note li = live_index [OF s v(1), folded P_def, folded k_def]
  have len: "length (p_links P) = p_max P" "length (p_items P) = p_max P" "Suc c \<le> p_max P"
      "distinct (p_links P)" "set (p_links P) = {..<p_max P}"
    using s c by (simp_all add: slots_ok_def P_def Let_def)
  have k: "k \<le> c" "0 < k" "p_links P ! k = v"
    using li(1,2) c index_nonzero [OF s ls v] by (simp_all only: P_def k_def)
  have lmax: "l < p_max P" using nth_mem [of c "p_links P"] len by (simp add: l_def)
  note gap = links_close_gap [OF len(4) _ k(1), unfolded k(3), folded l_def]
  have lc: "Suc c \<le> length (p_links P)" using len by simp
  note gap = gap [OF lc]
  have lv: "live w' = live w - {v}"
    using gap(1) c by (simp add: live_def pool P_def)
  have vv: "v \<noteq> l \<Longrightarrow> k \<noteq> c" using k(3) l_def by auto
  have it: "items w' ! i = (if i = l then (I ! l)\<lparr>v_index := k\<rparr> else I ! i)" for i
    using lmax len by (simp add: pool I_def nth_list_update)
  have Iv: "I ! i = (if i = v then closed (p_iters P) (p_items P ! v) else p_items P ! i)" for i
    using li(3) len by (simp add: I_def nth_list_update)
  have "slot_ok (p_iters P) j (p_items P ! (p_links P ! j))" if "j \<le> c" for j
    using s c that by (auto simp: slots_ok_def P_def Let_def)
  from links_closed_ok [OF len(4) lc k(1,3) l_def gap(5) this it Iv]
  have "slots_ok w'"
    using len gap(2,3) by (simp add: slots_ok_def pool Let_def I_def)
  moreover have "listener w'"
  proof (rule listener_deleted [OF ls v(2) lv])
    show "0 < p_count (w_pool w')" using k by (simp add: pool)
    show "p_links (w_pool w') ! 0 = p_links (w_pool w) ! 0" using gap(5) [of 0] k by (simp add: pool P_def)
    show "v_type (items w' ! i) = v_type (items w ! i)" for i by (simp add: it Iv closed_def P_def)
    show "v_pair (items w' ! 0) = v_pair (items w ! 0)" using v(2) by (simp add: it Iv P_def)
  qed
  moreover have "dead w' v" "pr w' v = pr w v"
    using li(3) it [of v] Iv [of v]
    by (auto simp: dead_def pr_def pool P_def closed_def)
  moreover have "kept {v} w w'"
  proof -
    have "\<exists>k. items w' ! i = (items w ! i)\<lparr>v_index := k\<rparr>" if "i \<noteq> v" for i
      using that it [of i] Iv [of i] same_index by (auto simp: P_def)
    then show ?thesis by (simp add: kept_def pool P_def)
  qed
  moreover have "stamped w w'"
    using v(1) by (auto simp: stamped_def lv it Iv closed_def P_def)
  ultimately show ?thesis using w' lv by (intro exI [of _ w'] conjI)
qed

subsection \<open>Changes to one slot\<close>

lemma upd_facts:
  assumes "upd v f w = Some w'"
  shows "p_links (w_pool w') = p_links (w_pool w)" "p_count (w_pool w') = p_count (w_pool w)"
    "p_max (w_pool w') = p_max (w_pool w)" "p_iters (w_pool w') = p_iters (w_pool w)"
    "p_efd (w_pool w') = p_efd (w_pool w)" "p_pevents (w_pool w') = p_pevents (w_pool w)"
    "items w' ! i = (if i = v then f (items w ! v) else items w ! i)" "v < length (items w)"
    "live w' = live w" "length (items w') = length (items w)"
  using assms by (auto simp: upd_def live_def nth_list_update split: if_splits)

lemma slots_ok_upd:
  assumes u: "upd v f w = Some w'" and s: "slots_ok w"
    and f: "\<And>i. slot_ok (p_iters (w_pool w)) i (items w ! v) \<Longrightarrow>
                 slot_ok (p_iters (w_pool w)) i (f (items w ! v))"
  shows "slots_ok w'"
  using s f by (auto simp: slots_ok_def Let_def upd_facts [OF u])

lemma slots_ok_len: "slots_ok w \<Longrightarrow> length (items w) = p_max (w_pool w)"
  by (simp add: slots_ok_def Let_def)

lemma kept_dead: "kept D w w' \<Longrightarrow> i \<notin> D \<Longrightarrow> dead w i \<Longrightarrow> dead w' i"
  by (auto simp: kept_def dead_def dest!: spec [of _ i])

lemma kept_pr: "kept D w w' \<Longrightarrow> i \<notin> D \<Longrightarrow> pr w' i = pr w i"
  by (auto simp: kept_def pr_def dest!: spec [of _ i])

lemma kept_trans:
  assumes "kept D w w'" "kept D' w' w''"
  shows "kept (D \<union> D') w w''"
proof -
  have "\<exists>k. items w'' ! i = (items w ! i)\<lparr>v_index := k\<rparr>" if i: "i \<notin> D \<union> D'" for i
  proof -
    obtain k k' where "items w' ! i = (items w ! i)\<lparr>v_index := k\<rparr>"
        "items w'' ! i = (items w' ! i)\<lparr>v_index := k'\<rparr>"
      using assms i unfolding kept_def by blast
    then show ?thesis by auto
  qed
  with assms show ?thesis by (simp add: kept_def)
qed

lemma forget_partner:
  assumes s: "slots_ok w" and ls: "listener w" and x: "x < p_max (w_pool w)"
  shows "\<exists>w'. upd x (\<lambda>x. x\<lparr>v_pair := None\<rparr>) w = Some w' \<and> slots_ok w' \<and> listener w' \<and>
    live w' = live w \<and> pr w' = (pr w)(x := None) \<and> (\<forall>i. dead w' i = dead w i) \<and>
    kept {x} w w' \<and> keeps w w' \<and> (\<forall>i. v_mod_iter (items w' ! i) = v_mod_iter (items w ! i))"
proof -
  obtain w' where u: "upd x (\<lambda>x. x\<lparr>v_pair := None\<rparr>) w = Some w'"
    using x slots_ok_len [OF s] by (simp add: upd_def)
  note uf = upd_facts [OF u]
  have "slots_ok w'" by (rule slots_ok_upd [OF u s]) (simp add: slot_ok_def)
  moreover have "pr w' = (pr w)(x := None)" by (auto simp: pr_def uf)
  moreover have "listener w'"
    using ls by (simp add: listener_def uf calculation(2) pr_def)
  moreover have "\<forall>i. dead w' i = dead w i" by (simp add: dead_def uf)
  moreover have "kept {x} w w'"
    by (auto simp: kept_def uf same_index)
  moreover have "\<forall>i. v_mod_iter (items w' ! i) = v_mod_iter (items w ! i)" by (simp add: uf)
  ultimately show ?thesis using u uf(9) keeps_upd [OF u] by blast
qed

lemma unpair_inv:
  assumes s: "slots_ok w" and ls: "listener w" and v: "v < p_max (w_pool w)" "v \<noteq> 0"
    and q: "q < p_max (w_pool w)" "q \<noteq> 0"
  shows "\<exists>w'. unpair v q w = Some w' \<and> slots_ok w' \<and> listener w' \<and> live w' = live w \<and>
    pr w' = (\<lambda>i. if i = v \<or> i = q \<and> pr w q = Some v then None else pr w i) \<and>
    (\<forall>i. dead w' i = dead w i) \<and> kept {v, q} w w' \<and> keeps w w' \<and>
    (\<forall>i. v_mod_iter (items w' ! i) = v_mod_iter (items w ! i))"
proof -
  have "ev w q = Some (items w ! q)" using q slots_ok_len [OF s] by (simp add: ev_def)
  then have un: "unpair v q w =
      (if pr w q = Some v then upd q (\<lambda>x. x\<lparr>v_pair := None\<rparr>) w else Some w) \<bind>
        upd v (\<lambda>x. x\<lparr>v_pair := None\<rparr>)"
    by (simp add: unpair_def pr_def)
  show ?thesis
  proof (cases "pr w q = Some v")
    case True
    obtain w1 where w1: "upd q (\<lambda>x. x\<lparr>v_pair := None\<rparr>) w = Some w1" "slots_ok w1" "listener w1"
        "live w1 = live w" "pr w1 = (pr w)(q := None)" "\<forall>i. dead w1 i = dead w i" "kept {q} w w1" "keeps w w1"
        "\<forall>i. v_mod_iter (items w1 ! i) = v_mod_iter (items w ! i)"
      using forget_partner [OF s ls q(1)] by blast
    have "v < p_max (w_pool w1)" using v w1(7) by (simp add: kept_def)
    from forget_partner [OF w1(2,3) this] obtain w2 where
      w2: "upd v (\<lambda>x. x\<lparr>v_pair := None\<rparr>) w1 = Some w2" "slots_ok w2" "listener w2"
        "live w2 = live w1" "pr w2 = (pr w1)(v := None)" "\<forall>i. dead w2 i = dead w1 i" "kept {v} w1 w2" "keeps w1 w2"
        "\<forall>i. v_mod_iter (items w2 ! i) = v_mod_iter (items w1 ! i)"
      by blast
    have "pr w2 = (\<lambda>i. if i = v \<or> i = q \<and> pr w q = Some v then None else pr w i)"
      using True by (auto simp: w2(5) w1(5))
    moreover have "kept {v, q} w w2"
      using kept_trans [OF w1(7) w2(7)] by (simp add: insert_commute)
    ultimately show ?thesis
      using True w1 w2 keeps_trans by (intro exI [of _ w2]) (auto simp: un)
  next
    case False
    obtain w1 where w1: "upd v (\<lambda>x. x\<lparr>v_pair := None\<rparr>) w = Some w1" "slots_ok w1" "listener w1"
        "live w1 = live w" "pr w1 = (pr w)(v := None)" "\<forall>i. dead w1 i = dead w i" "kept {v} w w1" "keeps w w1"
        "\<forall>i. v_mod_iter (items w1 ! i) = v_mod_iter (items w ! i)"
      using forget_partner [OF s ls v(1)] by blast
    have "pr w1 = (\<lambda>i. if i = v \<or> i = q \<and> pr w q = Some v then None else pr w i)"
      using False by (auto simp: w1(5))
    moreover have "kept {v, q} w w1"
      using w1(7) by (auto simp: kept_def)
    ultimately show ?thesis
      using False w1 by (intro exI [of _ w1]) (auto simp: un)
  qed
qed

subsection \<open>Deleting a connection with its pairs\<close>

lemma chain_step:
  assumes c: "chain_ok v w" and v: "v \<in> live w" "pr w v = Some q"
    and l: "live w' = live w - {v}"
    and p: "pr w' = (\<lambda>i. if i = v \<or> i = q \<and> pr w q = Some v then None else pr w i)"
    and d: "\<forall>i. dead w i \<longrightarrow> dead w' i" "dead w' v"
  shows "chain_ok q w'" "q \<noteq> 0" "q \<in> live w' \<or> dead w' q"
proof -
  have P: "paired w' = {i \<in> paired w. i \<noteq> v \<and> \<not> (i = q \<and> pr w q = Some v)}"
    by (auto simp: paired_def l p)
  have vp: "v \<in> paired w" using v by (simp add: paired_def)
  have t: "j \<noteq> 0 \<and> (j \<in> live w' \<or> dead w' j)" if "i \<in> paired w" "pr w i = Some j" for i j
  proof -
    have "j \<noteq> 0 \<and> (j \<in> live w \<or> dead w j)" using c that unfolding chain_ok_def by blast
    with d l show ?thesis by (cases "j = v") auto
  qed
  from t [OF vp v(2)] show "q \<noteq> 0" "q \<in> live w' \<or> dead w' q" by simp_all
  have "inj_on (pr w') (paired w')"
    using c unfolding chain_ok_def inj_on_def P p by auto
  moreover have "Some ` (paired w' - {q}) \<subseteq> pr w' ` paired w'"
  proof (rule image_subsetI)
    fix i assume "i \<in> paired w' - {q}"
    then have i: "i \<in> paired w'" "i \<noteq> q" by simp_all
    then have "i \<in> paired w" "i \<noteq> v" using P by auto
    then obtain k where k: "k \<in> paired w" "pr w k = Some i"
      using c unfolding chain_ok_def by (metis DiffI image_iff image_subset_iff singletonD)
    then have "k \<noteq> v" "\<not> (k = q \<and> pr w q = Some v)" using v(2) i(2) \<open>i \<noteq> v\<close> by auto
    with k have "k \<in> paired w'" "pr w' k = Some i" by (auto simp: P p)
    then show "Some i \<in> pr w' ` paired w'" by (metis image_eqI)
  qed
  moreover have "\<forall>i\<in>paired w'. \<forall>j. pr w' i = Some j \<longrightarrow> j \<noteq> 0 \<and> (j \<in> live w' \<or> dead w' j)"
    using t by (auto simp: P p)
  ultimately show "chain_ok q w'" by (simp add: chain_ok_def)
qed

lemma chain_end:
  assumes "chain_ok v w" "v \<notin> paired w"
  shows "pairs_ok w"
  using assms by (simp add: chain_ok_def pairs_ok_def)

lemma paired_cong: "live w' = live w \<Longrightarrow> (\<And>i. i \<in> live w \<Longrightarrow> pr w' i = pr w i) \<Longrightarrow> paired w' = paired w"
  by (auto simp: paired_def)

lemma pairs_ok_cong:
  assumes "paired w' = paired w" "\<And>i. i \<in> paired w \<Longrightarrow> pr w' i = pr w i"
  shows "pairs_ok w' = pairs_ok w"
proof -
  have "inj_on (pr w') (paired w) = inj_on (pr w) (paired w)" "pr w' ` paired w = pr w ` paired w"
    using assms(2) by (rule inj_on_cong, auto intro: image_cong)
  then show ?thesis by (simp add: pairs_ok_def assms(1))
qed

lemma dead_not_live: "slots_ok w \<Longrightarrow> dead w v \<Longrightarrow> v \<notin> live w"
  using live_index(4) [of w v] by (auto simp: dead_def)

text \<open>The two halves of a deletion: a slot is freed, and it and its partner forget each other.\<close>

definition freed :: "nat \<Rightarrow> world \<Rightarrow> world \<Rightarrow> bool" where
  "freed v w w' \<longleftrightarrow> del_slot v (items w ! v) w = Some w' \<and> slots_ok w' \<and> listener w' \<and> live w' = live w - {v} \<and>
     dead w' v \<and> pr w' = pr w \<and> kept {v} w w' \<and> keeps w w' \<and> stamped w w'"

definition parted :: "nat \<Rightarrow> nat \<Rightarrow> world \<Rightarrow> world \<Rightarrow> bool" where
  "parted v q w w' \<longleftrightarrow> unpair v q w = Some w' \<and> slots_ok w' \<and> listener w' \<and> live w' = live w \<and>
     (\<forall>i. dead w' i = dead w i) \<and> kept {v, q} w w' \<and> keeps w w' \<and>
     (\<forall>i. v_mod_iter (items w' ! i) = v_mod_iter (items w ! i))"

lemma freed_ex:
  assumes "slots_ok w" "listener w" "v \<in> live w" "v \<noteq> 0"
  shows "\<exists>w'. freed v w w'"
proof -
  obtain w1 where w1: "del_slot v (items w ! v) w = Some w1" "slots_ok w1" "listener w1" "live w1 = live w - {v}"
      "dead w1 v" "pr w1 v = pr w v" "kept {v} w w1" "keeps w w1" "stamped w w1"
    using del_slot_inv [OF assms] by blast
  moreover have "pr w1 = pr w" using kept_pr [OF w1(7)] w1(6) by (intro ext) (metis singletonD)
  ultimately show ?thesis unfolding freed_def by blast
qed

text \<open>Induction along the cycle of partners: the walk ends at a slot that is freed already, at one
  without a partner, or goes on with the partner.\<close>

lemma del_event_walk:
  assumes "slots_ok w" "listener w" "chain_ok v w" "v \<noteq> 0" "v \<in> live w \<or> dead w v"
    and gone: "\<And>v w. slots_ok w \<Longrightarrow> listener w \<Longrightarrow> pairs_ok w \<Longrightarrow> v \<noteq> 0 \<Longrightarrow> dead w v \<Longrightarrow> P v w w"
    and free: "\<And>v w w1. slots_ok w \<Longrightarrow> v \<in> live w \<Longrightarrow> v \<noteq> 0 \<Longrightarrow> freed v w w1 \<Longrightarrow> pairs_ok w1 \<Longrightarrow> P v w w1"
    and part: "\<And>v q w w1 w2 w3. slots_ok w \<Longrightarrow> v \<in> live w \<Longrightarrow> v \<noteq> 0 \<Longrightarrow> freed v w w1 \<Longrightarrow> parted v q w1 w2 \<Longrightarrow> P q w2 w3 \<Longrightarrow> P v w w3"
  shows "\<exists>w'. del_event v w = Some w' \<and> listener w' \<and> P v w w'"
  using assms(1-5)
proof (induction v w rule: del_event.induct)
  case (1 v w)
  note s = "1.prems"(1) and ls = "1.prems"(2) and c = "1.prems"(3)
  show ?case
  proof (cases "dead w v")
    case True
    then have "ev w v = Some (items w ! v)" "v \<notin> live w"
      using slots_ok_len [OF s] dead_not_live [OF s] by (simp_all add: dead_def ev_def)
    moreover from this have "pairs_ok w" by (intro chain_end [OF c]) (simp add: paired_def)
    ultimately show ?thesis
      using True s ls "1.prems"(4) gone by (auto simp: del_event.simps dead_def)
  next
    case False
    then have v: "v \<in> live w" using "1.prems"(5) by simp
    let ?e = "items w ! v"
    note li = live_index [OF s v] and le = live_ev [OF s v]
    have guard: "v_fd ?e \<ge> - 1 \<and> v_mod_iter ?e \<le> p_iters (w_pool w)" "v_fd ?e \<noteq> - 1"
      using li by auto
    obtain w1 where f: "freed v w w1" using freed_ex [OF s ls v "1.prems"(4)] by blast
    then have w1: "del_slot v ?e w = Some w1" "slots_ok w1" "listener w1" "live w1 = live w - {v}" "pr w1 = pr w"
        "dead w1 v" "kept {v} w w1"
      by (simp_all add: freed_def)
    show ?thesis
    proof (cases "v_pair ?e")
      case None
      then have "paired w1 = paired w" "v \<notin> paired w" by (auto simp: paired_def w1(4,5) pr_def)
      then have "pairs_ok w1" using chain_end [OF c] pairs_ok_cong [of w1 w] by (simp add: w1(5))
      with free [OF s v "1.prems"(4) f] w1 le guard None show ?thesis
        by (auto simp: del_event.simps [of v w] listener_def)
    next
      case (Some q)
      then have q: "pr w v = Some q" by (simp add: pr_def)
      have "v \<in> paired w" using v q by (simp add: paired_def)
      then have "q \<noteq> 0 \<and> (q \<in> live w \<or> dead w q)" using c q unfolding chain_ok_def by blast
      then have qb: "q \<noteq> 0" "q < p_max (w_pool w1)"
        using live_index(3) [OF s] w1(7) by (auto simp: dead_def kept_def)
      have "v < p_max (w_pool w1)" using li(3) w1(7) by (simp add: kept_def)
      from unpair_inv [OF w1(2,3) this "1.prems"(4) qb(2,1)] obtain w2 where w2: "parted v q w1 w2"
          "pr w2 = (\<lambda>i. if i = v \<or> i = q \<and> pr w1 q = Some v then None else pr w1 i)"
        unfolding parted_def by blast
      then have p: "unpair v q w1 = Some w2" "slots_ok w2" "listener w2" "live w2 = live w1" "\<forall>i. dead w2 i = dead w1 i"
        by (simp_all add: parted_def)
      have "dead w1 i" if "dead w i" for i
        using that kept_dead [OF w1(7), of i] w1(6) by (cases "i = v") simp_all
      with w1(6) p(5) have d2: "\<forall>i. dead w i \<longrightarrow> dead w2 i" "dead w2 v" by simp_all
      have l2: "live w2 = live w - {v}" using w1(4) p(4) by simp
      note ch = chain_step [OF c v q l2 w2(2) [unfolded w1(5)] d2]
      have "\<not> \<not> (- 1 \<le> v_fd ?e \<and> v_mod_iter ?e \<le> p_iters (w_pool w))" using guard(1) by simp
      from "1.IH" [OF le this guard(2) w1(1) Some p(1-3) ch(1) qb(1) ch(3)]
      obtain w3 where w3: "del_event q w2 = Some w3" "listener w3" "P q w2 w3" by blast
      with le guard w1(1) Some p(1) part [OF s v "1.prems"(4) f w2(1)] show ?thesis
        by (auto simp: del_event.simps [of v w] listener_def)
    qed
  qed
qed

lemma del_event_chain:
  assumes "slots_ok w" "listener w" "chain_ok v w" "v \<noteq> 0" "v \<in> live w \<or> dead w v"
  shows "\<exists>w' D. del_event v w = Some w' \<and> pool_inv w' \<and> v \<in> D \<and> 0 \<notin> D \<and> live w' = live w - D \<and>
     (\<forall>i\<in>D. dead w' i) \<and> kept D w w' \<and> keeps w w' \<and> stamped w w'"
proof -
  let ?P = "\<lambda>v w w'. \<exists>D. pool_inv w' \<and> v \<in> D \<and> 0 \<notin> D \<and> live w' = live w - D \<and>
     (\<forall>i\<in>D. dead w' i) \<and> kept D w w' \<and> keeps w w' \<and> stamped w w'"
  have "\<exists>w'. del_event v w = Some w' \<and> listener w' \<and> ?P v w w'"
  proof (rule del_event_walk [OF assms], goal_cases)
    case (1 v w)
    then show ?case
      using same_index dead_not_live [of w v]
      by (intro exI [of _ "{v}"]) (auto simp: pool_inv_def dead_def kept_def stamped_def)
  next
    case (2 v w w1)
    then show ?case by (intro exI [of _ "{v}"]) (simp add: freed_def pool_inv_def)
  next
    case (3 v q w w1 w2 w3)
    then obtain D where D: "pool_inv w3" "q \<in> D" "0 \<notin> D" "live w3 = live w2 - D" "\<forall>i\<in>D. dead w3 i" "kept D w2 w3"
        "keeps w2 w3" "stamped w2 w3"
      by blast
    have f: "live w1 = live w - {v}" "dead w1 v" "kept {v} w w1" "keeps w w1" "stamped w w1"
      using 3(4) by (simp_all add: freed_def)
    have p: "live w2 = live w1" "dead w2 v" "kept {v, q} w1 w2" "keeps w1 w2"
        "\<forall>i. v_mod_iter (items w2 ! i) = v_mod_iter (items w1 ! i)"
      using 3(5) f(2) by (simp_all add: parted_def)
    have "kept (insert v D) w w3"
      using kept_trans [OF kept_trans [OF f(3) p(3)] D(6)] D(2) by (simp add: insert_absorb insert_commute)
    moreover have "dead w3 v" using D(5) kept_dead [OF D(6), of v] p(2) by blast
    moreover have "keeps w w3" using keeps_trans [OF f(4) keeps_trans [OF p(4) D(7)]] .
    moreover have "stamped w w3"
    proof -
      have "p_iters (w_pool w2) = p_iters (w_pool w)" using f(3) p(3) by (simp add: kept_def)
      with f p D(8) 3(2) show ?thesis by (simp add: stamped_def D(4))
    qed
    ultimately show ?case using D(1,3,4,5) f(1) p(1) 3(3) by (intro exI [of _ "insert v D"]) auto
  qed
  then show ?thesis by blast
qed

lemma live_finite [simp]: "finite (live w)"
  by (simp add: live_def)

lemma paired_finite [simp]: "finite (paired w)"
  by (simp add: paired_def)

text \<open>The partners of the paired connections are the paired connections.\<close>

lemma pairs_closed:
  assumes "pairs_ok w"
  shows "pr w ` paired w = Some ` paired w"
proof (rule sym, rule card_subset_eq)
  show "Some ` paired w \<subseteq> pr w ` paired w" "finite (pr w ` paired w)"
    using assms by (simp_all add: pairs_ok_def)
  show "card (Some ` paired w) = card (pr w ` paired w)"
    using assms by (simp add: pairs_ok_def card_image)
qed

lemma pair_live:
  assumes "pool_inv w" "v \<in> live w" "pr w v = Some q"
  shows "q \<in> live w" "q \<noteq> 0" "pr w q \<noteq> None"
proof -
  have "v \<in> paired w" using assms by (simp add: paired_def)
  then have "Some q \<in> Some ` paired w"
    using pairs_closed [of w] assms by (metis image_eqI pool_inv_def)
  then have "q \<in> paired w" by auto
  with assms(1) show "q \<in> live w" "q \<noteq> 0" "pr w q \<noteq> None"
    by (auto simp: paired_def pool_inv_def listener_def intro!: notI)
qed

lemma pool_inv_chain: "pool_inv w \<Longrightarrow> chain_ok v w"
proof -
  assume i: "pool_inv w"
  then have "inj_on (pr w) (paired w)" "Some ` (paired w - {v}) \<subseteq> pr w ` paired w"
    by (auto simp: pool_inv_def pairs_ok_def)
  moreover have "j \<noteq> 0 \<and> (j \<in> live w \<or> dead w j)" if "k \<in> paired w" "pr w k = Some j" for k j
    using pair_live [OF i _ that(2)] that(1) by (simp add: paired_def)
  ultimately show "chain_ok v w" by (simp add: chain_ok_def)
qed

lemma batch_mono:
  assumes "batch_ok offs w" "p_max (w_pool w') = p_max (w_pool w)"
    "p_pevents (w_pool w') = p_pevents (w_pool w)" "\<And>v. pending w v \<Longrightarrow> pending w' v"
  shows "batch_ok offs w'"
  using assms(1,4) unfolding batch_ok_def assms(2,3) by blast

lemma batch_stamped:
  assumes b: "batch_ok offs w" and s: "stamped w w'" and k: "kept D w w'" and sl: "slots_ok w"
  shows "batch_ok offs w'"
proof (rule batch_mono [OF b])
  show e: "p_max (w_pool w') = p_max (w_pool w)" "p_pevents (w_pool w') = p_pevents (w_pool w)"
    using k by (simp_all add: kept_def)
  fix v assume p: "pending w v"
  have "v < p_max (w_pool w)" using p live_index(3) [OF sl] unfolding pending_def by blast
  moreover have "v_mod_iter (items w' ! v) =
      (if v \<in> live w - live w' then p_iters (w_pool w) else v_mod_iter (items w ! v))"
    using s unfolding stamped_def by (rule spec)
  moreover have "p_iters (w_pool w') = p_iters (w_pool w)"
    using k by (simp add: kept_def)
  ultimately show "pending w' v"
    using p unfolding pending_def e by (cases "v \<in> live w"; cases "v \<in> live w'") simp_all
qed

lemma del_event_inv:
  assumes "pool_inv w" "v \<in> live w" "v \<noteq> 0" "batch_ok offs w"
  shows "\<exists>w' D. del_event v w = Some w' \<and> pool_inv w' \<and> v \<in> D \<and> 0 \<notin> D \<and> live w' = live w - D \<and>
    (\<forall>i\<in>D. dead w' i) \<and> kept D w w' \<and> batch_ok offs w' \<and> keeps w w'"
proof -
  have "slots_ok w" "listener w" using assms(1) by (simp_all add: pool_inv_def)
  from del_event_chain [OF this pool_inv_chain [OF assms(1)] assms(3)] assms(2)
  obtain w' D where w': "del_event v w = Some w'" "pool_inv w'" "v \<in> D" "0 \<notin> D" "live w' = live w - D"
      "\<forall>i\<in>D. dead w' i" "kept D w w'" "keeps w w'" "stamped w w'"
    by blast
  with batch_stamped [OF assms(4) w'(9,7) \<open>slots_ok w\<close>] show ?thesis by blast
qed


subsection \<open>Adding a connection\<close>

lemma add_event_slot:
  fixes w :: world and type :: eid and fd :: int and e :: "32 word"
  assumes s: "slots_ok w" and fd: "0 < fd" and c: "p_count (w_pool w) < p_max (w_pool w)"
  defines "v \<equiv> p_links (w_pool w) ! p_count (w_pool w)"
  defines "e' \<equiv> zero_eval\<lparr>v_mod_iter := p_iters (w_pool w), v_fd := fd,
                 v_index := p_count (w_pool w), v_type := type\<rparr>"
  obtains w' r where "add_event type fd e w = Some (r, w')" "r = None \<or> r = Some v" "keeps w w'"
    "w_pool w' = (w_pool w)\<lparr>p_items := (items w)[v := e'],
       p_count := (if r = None then p_count (w_pool w) else Suc (p_count (w_pool w)))\<rparr>"
    "v \<notin> live w" "v < p_max (w_pool w)" "slots_ok w'"
    "live w' = (if r = None then live w else insert v (live w))"
proof -
  let ?P = "w_pool w" and ?c = "p_count (w_pool w)"
  have len: "length (p_links ?P) = p_max ?P" "length (items w) = p_max ?P" "distinct (p_links ?P)"
      "set (p_links ?P) = {..<p_max ?P}"
    using s by (simp_all add: slots_ok_def Let_def)
  have vm: "v < p_max ?P" using nth_mem [of ?c "p_links ?P"] len c by (simp add: v_def)
  have vl: "v \<notin> live w"
  proof
    assume "v \<in> live w"
    then obtain k where "k < ?c" "p_links ?P ! k = p_links ?P ! ?c"
      using live_iff [OF s] by (auto simp: v_def)
    then show False using nth_eq_iff_index_eq [OF len(3), of k ?c] c len by simp
  qed
  define w1 where "w1 = w\<lparr>w_pool := ?P\<lparr>p_items := (items w)[v := e']\<rparr>\<rparr>"
  define cl where "cl = call (Epoll_ctl (p_efd ?P) EPOLL_CTL_ADD fd (POLLRDHUP OR e) v) w1"
  define r where "r = (if fst cl \<noteq> 0 then None else Some v)"
  define w' where "w' = (if fst cl \<noteq> 0 then snd cl
      else in_pool (\<lambda>p. p\<lparr>p_count := p_count p + 1\<rparr>) (snd cl))"
  have "add_event type fd e w = Some (r, w')"
    using fd c len vm
    by (simp add: add_event_def nth_link_def upd_def v_def [symmetric] e'_def [symmetric]
        w1_def [symmetric] r_def w'_def cl_def split_beta) (simp add: w1_def)
  moreover have pool: "w_pool w' = ?P\<lparr>p_items := (items w)[v := e'],
       p_count := (if r = None then ?c else Suc ?c)\<rparr>"
    by (simp add: w'_def r_def cl_def w1_def in_pool_def)
  moreover have "keeps w w'"
  proof -
    have "keeps w w1" by (simp add: w1_def)
    then have "keeps w (snd cl)" using keeps_trans keeps_call unfolding cl_def by blast
    then show ?thesis using keeps_trans keeps_in_pool unfolding w'_def by (simp add: in_pool_def)
  qed
  moreover have "slot_ok (p_iters ?P) i ((items w)[v := e'] ! (p_links ?P ! i))" if "i < Suc ?c" for i
  proof (cases "i = ?c")
    case True
    then show ?thesis using vm len fd by (simp add: v_def [symmetric] e'_def slot_ok_def zero_eval_def)
  next
    case False
    then have i: "i < ?c" using that by simp
    then have "p_links ?P ! i \<noteq> v" using nth_eq_iff_index_eq [OF len(3), of i ?c] c len by (simp add: v_def)
    with s i show ?thesis by (simp add: slots_ok_def Let_def)
  qed
  then have "slots_ok w'"
    using s len c by (simp add: slots_ok_def Let_def pool)
  moreover have "live w' = (if r = None then live w else insert v (live w))"
    using c len by (simp add: live_def pool take_Suc_conv_app_nth v_def)
  moreover have "r = None \<or> r = Some v" by (simp add: r_def)
  ultimately show thesis using that vm vl by blast
qed

lemma add_event_inv:
  assumes "pool_inv w" "0 < fd" "type \<noteq> EV_ACCEPT" "batch_ok offs w"
  shows "\<exists>r w'. add_event type fd e w = Some (r, w') \<and> pool_inv w' \<and> batch_ok offs w' \<and> keeps w w' \<and>
    (\<forall>i\<in>live w. items w' ! i = items w ! i) \<and>
    (case r of None \<Rightarrow> live w' = live w
     | Some v \<Rightarrow> v \<notin> live w \<and> live w' = insert v (live w) \<and> v_fd (items w' ! v) = fd \<and>
         v_type (items w' ! v) = type \<and> pr w' v = None \<and> b_data (v_buff (items w' ! v)) = None)"
proof (cases "p_count (w_pool w) < p_max (w_pool w)")
  case False
  with assms show ?thesis by (intro exI [of _ None] exI [of _ w]) (simp add: add_event_def)
next
  case True
  have s: "slots_ok w" "listener w" "pairs_ok w" using assms(1) by (simp_all add: pool_inv_def)
  let ?v = "p_links (w_pool w) ! p_count (w_pool w)"
  from add_event_slot [OF s(1) assms(2) True, of type e] obtain w' r where
    w': "add_event type fd e w = Some (r, w')" "r = None \<or> r = Some ?v" "keeps w w'"
    and pool: "w_pool w' = (w_pool w)\<lparr>p_items := (items w)[?v := zero_eval\<lparr>v_mod_iter := p_iters (w_pool w),
        v_fd := fd, v_index := p_count (w_pool w), v_type := type\<rparr>],
       p_count := (if r = None then p_count (w_pool w) else Suc (p_count (w_pool w)))\<rparr>"
    and v: "?v \<notin> live w" "?v < p_max (w_pool w)" and w2: "slots_ok w'"
    "live w' = (if r = None then live w else insert ?v (live w))" .
  have same: "items w' ! i = items w ! i" if "i \<noteq> ?v" for i
    using that by (simp add: pool)
  have new: "v_fd (items w' ! ?v) = fd" "v_type (items w' ! ?v) = type" "pr w' ?v = None"
      "v_mod_iter (items w' ! ?v) = p_iters (w_pool w)" "b_data (v_buff (items w' ! ?v)) = None"
    using v(2) slots_ok_len [OF s(1)] by (simp_all add: pool pr_def zero_eval_def)
  have prl: "pr w' i = pr w i" if "i \<in> live w" for i
  proof -
    have "i \<noteq> ?v" using v(1) that by blast
    then show ?thesis by (simp add: same pr_def)
  qed
  have "paired w' = paired w"
    using new(3) prl by (auto simp: paired_def w2(2))
  then have "pairs_ok w'"
    using s(3) prl pairs_ok_cong [of w' w] by (simp add: paired_def)
  moreover have "listener w'"
  proof -
    have 0: "0 \<in> live w" using listener_live s by blast
    have "v_type (items w' ! i) = EV_ACCEPT \<longleftrightarrow> i = 0" if "i \<in> live w'" for i
    proof (cases "i = ?v")
      case True
      moreover have "?v \<noteq> 0" using 0 v(1) by metis
      ultimately show ?thesis using new(2) assms(3) by simp
    next
      case False
      then have "i \<in> live w" using that w2(2) by (simp split: if_splits)
      then show ?thesis using same [OF False] s(2) by (simp add: listener_def)
    qed
    then show ?thesis using s(2) prl [OF 0] by (simp add: listener_def pool)
  qed
  moreover have "batch_ok offs w'"
  proof (rule batch_mono [OF assms(4)])
    show "p_max (w_pool w') = p_max (w_pool w)" "p_pevents (w_pool w') = p_pevents (w_pool w)"
      by (simp_all add: pool)
    fix i assume "pending w i"
    then show "pending w' i"
      using same [of i] new(4) v(2) w2(2) by (cases "i = ?v") (auto simp: pending_def pool)
  qed
  ultimately have "pool_inv w'" "batch_ok offs w'" using w2(1) by (simp_all add: pool_inv_def)
  moreover have "\<forall>i\<in>live w. items w' ! i = items w ! i" using same v(1) by metis
  ultimately show ?thesis
    using w' v(1) w2(2) new by (intro exI [of _ r] exI [of _ w']) (auto split: option.split)
qed

text \<open>C22: Adding a connection to a well-formed pool keeps the pool well formed and the pending events
  safe to hand out. Either nothing changes for the connections in use, or one slot that was not in
  use now holds the new connection, cleared and without a partner.\<close>

theorem add_event_correct:
  assumes "pool_inv w" "0 < fd" "type \<noteq> EV_ACCEPT" "batch_ok offs w"
  shows "\<exists>r w'. add_event type fd e w = Some (r, w') \<and> pool_inv w' \<and> batch_ok offs w' \<and> keeps w w' \<and>
    (\<forall>i\<in>live w. items w' ! i = items w ! i) \<and>
    (case r of None \<Rightarrow> live w' = live w
     | Some v \<Rightarrow> v \<notin> live w \<and> live w' = insert v (live w) \<and> v_fd (items w' ! v) = fd \<and>
         v_type (items w' ! v) = type \<and> pr w' v = None \<and> b_data (v_buff (items w' ! v)) = None)"
  by (rule add_event_inv [OF assms])

lemma init_pool_inv:
  assumes "init_pool junk n w = Some (True, w1)" "add_event EV_ACCEPT srvfd e w1 = Some (Some v, w2)"
  shows "pool_inv w2 \<and> v = 0 \<and> live w2 = {0} \<and> v_fd (items w2 ! 0) = srvfd \<and> p_max (w_pool w2) = n \<and>
    batch_ok (- 1) w2 \<and> keeps w w2"
proof -
  obtain efd where n: "n \<noteq> 0" and pool: "w_pool w1 = \<lparr>p_max = n, p_count = 0, p_efd = efd, p_links = [0..<n],
      p_items = (map junk [0..<n])[0 := zero_eval], p_pevents = [], p_iters = 0\<rparr>"
    and k: "keeps w w1"
    using assms(1)
    by (auto simp: init_pool_def call_def sys_def keeps_def Let_def split_beta bind_eq_Some_conv split: if_splits)
  have s: "slots_ok w1"
    by (auto simp: slots_ok_def pool)
  have fd: "0 < srvfd"
    using assms(2) by (simp add: add_event_def split: if_splits)
  have c: "p_count (w_pool w1) < p_max (w_pool w1)" using n by (simp add: pool)
  have 0: "p_links (w_pool w1) ! p_count (w_pool w1) = 0" using n by (simp add: pool)
  from add_event_slot [OF s fd c, of EV_ACCEPT e, unfolded 0] obtain r w' where
    r: "add_event EV_ACCEPT srvfd e w1 = Some (r, w')" "r = None \<or> r = Some 0" "keeps w1 w'"
    "slots_ok w'" "live w' = (if r = None then live w1 else insert 0 (live w1))"
    and pool': "w_pool w' = (w_pool w1)\<lparr>p_items := (items w1)[0 := zero_eval\<lparr>v_mod_iter := p_iters (w_pool w1),
        v_fd := srvfd, v_index := p_count (w_pool w1), v_type := EV_ACCEPT\<rparr>],
        p_count := (if r = None then p_count (w_pool w1) else Suc (p_count (w_pool w1)))\<rparr>" .
  have w2: "r = Some v" "w2 = w'" "v = 0" using r(1,2) assms(2) by auto
  have l: "live w2 = {0}" using r(5) w2 by (simp add: live_def pool)
  have item: "items w2 ! 0 = zero_eval\<lparr>v_mod_iter := 0, v_fd := srvfd, v_index := 0, v_type := EV_ACCEPT\<rparr>"
    using n by (simp add: w2 pool' pool)
  have "pr w2 0 = None" by (simp add: pr_def item zero_eval_def)
  then have "pr w2 x = None" if "x \<in> live w2" for x using that by (simp add: l)
  then have "paired w2 = {}" by (simp add: paired_def)
  then have "pairs_ok w2" "listener w2"
    using n \<open>pr w2 0 = None\<close>
    by (simp_all add: pairs_ok_def listener_def l item) (simp_all add: w2 pool' pool zero_eval_def)
  with r w2 l item k keeps_trans show ?thesis
    by (auto simp: pool_inv_def batch_ok_def pool' pool)
qed

text \<open>The pool that \<open>init_pool\<close> makes, with the listening socket added as \<open>event_loop\<close> adds it,
  is well formed, whatever the uninitialised items contain.\<close>

theorem init_pool_correct:
  assumes "init_pool junk n w = Some (True, w1)" "add_event EV_ACCEPT srvfd e w1 = Some (Some v, w2)"
  shows "pool_inv w2 \<and> v = 0 \<and> live w2 = {0} \<and> v_fd (items w2 ! 0) = srvfd \<and> p_max (w_pool w2) = n \<and>
    batch_ok (- 1) w2 \<and> keeps w w2"
  by (rule init_pool_inv [OF assms])

lemma next_event_pending:
  assumes "nth_event w i = Some (v, t)" "batch_ok i w" "0 \<le> i"
  shows "pending w v" "batch_ok (i - 1) w"
  using assms by (auto simp: batch_ok_def nth_event_def split: if_splits) (metis fst_conv nat_0_le order_refl)

lemma next_event_batch:
  assumes "slots_ok w" "batch_ok offs w" "0 \<le> offs"
  shows "\<exists>v t. nth_event w offs = Some (v, t) \<and> ev w v = Some (items w ! v) \<and>
    (v_mod_iter (items w ! v) \<noteq> p_iters (w_pool w) \<longrightarrow> v \<in> live w)"
proof -
  have "nth_event w offs \<noteq> None"
    using assms(2) nat_0_le [OF assms(3)] unfolding batch_ok_def nth_event_def by (metis assms(3) option.distinct(1) order_refl)
  then obtain v t where e: "nth_event w offs = Some (v, t)" by auto
  have "pending w v" using next_event_pending(1) [OF e assms(2,3)] .
  with e show ?thesis
    using live_index(3) [OF assms(1)] slots_ok_len [OF assms(1)] by (auto simp: pending_def ev_def)
qed

lemma comply_events:
  "0 \<le> r_ret (comply (Epoll_wait efd n) r) \<Longrightarrow>
     r_ret (comply (Epoll_wait efd n) r) = int (length (r_events (comply (Epoll_wait efd n) r))) \<and>
     length (r_events (comply (Epoll_wait efd n) r)) \<le> n \<and>
     set (r_events (comply (Epoll_wait efd n) r)) \<subseteq> set (r_events r)"
  by (auto split: if_splits dest: in_set_takeD)

lemma pool_inv_iters:
  assumes i: "pool_inv w" and p: "w_pool w' = (w_pool w)\<lparr>p_pevents := es, p_iters := k\<rparr>"
    "p_iters (w_pool w) \<le> k"
  shows "pool_inv w'" "live w' = live w"
proof -
  have "items w' = items w" "live w' = live w" by (simp_all add: p live_def)
  then have "pr w' = pr w" "paired w' = paired w" by (auto simp: pr_def paired_def)
  moreover have "slot_ok k j e" if "slot_ok (p_iters (w_pool w)) j e" for j e
    using that p(2) by (auto simp: slot_ok_def)
  ultimately show "pool_inv w'" "live w' = live w"
    using i \<open>live w' = live w\<close>
    by (simp_all add: pool_inv_def pairs_ok_def listener_def slots_ok_def Let_def p(1))
qed

lemma next_event_old:
  assumes s: "pool_inv w" and b: "batch_ok offs w" and o: "0 \<le> offs"
  shows "next_event offs w =
    (let (v, t) = the (nth_event w offs) in
     if v_mod_iter (items w ! v) = p_iters (w_pool w) then next_event (offs - 1) w
     else Some (Some (v, t), offs - 1, w))"
  using next_event_batch [of w offs] assms
  by (subst next_event.simps) (auto simp: epoll_step_def pool_inv_def batch_ok_def)

text \<open>A round of \<open>epoll_wait\<close>: no slot in use carries the new number of the round.\<close>

text \<open>A new batch of events: all belong to connections in use, and none has been handed out.\<close>

lemma epoll_batch:
  assumes s: "pool_inv w" and m: "p_iters (w_pool w) \<noteq> - 1" and r: "reports_live w"
    and e: "epoll_step (- 1) w = (int n, w1)"
  shows "pool_inv w1 \<and> live w1 = live w \<and> items w1 = items w \<and> keeps w w1 \<and> p_iters (w_pool w) < p_iters (w_pool w1) \<and>
    n < length (p_pevents (w_pool w1)) \<and> n < p_max (w_pool w1) \<and> (\<forall>j\<le>n. fst (p_pevents (w_pool w1) ! j) \<in> live w1)"
proof -
  let ?P = "w_pool w" and ?c = "Epoll_wait (p_efd (w_pool w)) (p_max (w_pool w))"
  define res where "res = comply ?c (w_os w (w_hist w) ?c)"
  define w0 where "w0 = snd (sys ?c w)"
  have sy: "sys ?c w = (res, w0)" by (simp add: res_def w0_def prod_eq_iff)
  have w0: "w_pool w0 = ?P" "keeps w w0" by (simp_all add: w0_def)
  have g: "r_ret res - 1 = int n" and w1: "w1 = in_pool (\<lambda>p. p\<lparr>p_pevents := r_events res @ drop (length (r_events res)) (p_pevents p),
      p_iters := (if p_iters p = - 1 then 0 else p_iters p) + 1\<rparr>) w0"
    using e sy by (auto simp: epoll_step_def Let_def split: if_splits)
  have c: "r_ret res = int (length (r_events res))" "length (r_events res) \<le> p_max ?P"
      "set (r_events res) \<subseteq> set (r_events (w_os w (w_hist w) ?c))"
    using comply_events [of "p_efd ?P" "p_max ?P" "w_os w (w_hist w) ?c"] g unfolding res_def [symmetric] by simp_all
  have n: "n < length (r_events res)" using g c(1) by linarith
  have pool: "w_pool w1 = ?P\<lparr>p_pevents := r_events res @ drop (length (r_events res)) (p_pevents ?P),
      p_iters := p_iters ?P + 1\<rparr>"
    using m by (simp add: w1 in_pool_def w0)
  have "p_iters ?P + 1 \<noteq> 0" using m by (metis eq_neg_iff_add_eq_0)
  then have less: "p_iters ?P < p_iters ?P + 1" by (simp add: word_less_nat_alt unatSuc add.commute)
  have inv: "pool_inv w1" "live w1 = live w"
    using pool_inv_iters [OF s pool] less by simp_all
  have "fst (p_pevents (w_pool w1) ! j) \<in> live w1" if "j \<le> n" for j
  proof -
    have "p_pevents (w_pool w1) ! j \<in> set (r_events res)"
      using that n by (simp add: pool nth_append)
    then show ?thesis using r c(3) inv(2) unfolding reports_live_def by (auto simp: split_beta)
  qed
  moreover have "keeps w w1" using w0(2) keeps_trans keeps_in_pool unfolding w1 by blast
  ultimately show ?thesis using inv less n c(2) by (simp add: pool)
qed

lemma next_event_new:
  assumes s: "pool_inv w" and m: "p_iters (w_pool w) \<noteq> - 1" and r: "reports_live w"
  shows "\<exists>r offs' w'. next_event (- 1) w = Some (r, offs', w') \<and> pool_inv w' \<and> batch_ok offs' w' \<and>
    keeps w w' \<and> (case r of None \<Rightarrow> True | Some (v, t) \<Rightarrow> v \<in> live w') \<and> live w' = live w \<and>
    items w' = items w"
proof -
  have ls: "listener w" "slots_ok w" using s by (simp_all add: pool_inv_def)
  have max: "0 < p_max (w_pool w)" using live_index(3) [OF ls(2) listener_live [OF ls]] by simp
  obtain i w1 where e: "epoll_step (- 1) w = (i, w1)" by fastforce
  show ?thesis
  proof (cases "i < 0")
    case True
    then have w1: "w_pool w1 = w_pool w" "keeps w w1"
      using e by (auto simp: epoll_step_def Let_def split_beta split: if_splits)
    moreover have "pool_inv w1" "live w1 = live w"
      using pool_inv_iters [OF s, where es = "p_pevents (w_pool w)" and k = "p_iters (w_pool w)" and w' = w1] w1 by simp_all
    ultimately show ?thesis
      using True max e by (subst next_event.simps) (simp add: batch_ok_def)
  next
    case False
    define k where "k = nat i"
    have n: "i = int k" using False by (simp add: k_def)
    note b = epoll_batch [OF s m r e [unfolded n]]
    have b: "pool_inv w1" "live w1 = live w" "items w1 = items w" "keeps w w1" "p_iters (w_pool w) < p_iters (w_pool w1)"
      "k < length (p_pevents (w_pool w1))" "k < p_max (w_pool w1)"
      and l: "\<forall>j\<le>k. fst (p_pevents (w_pool w1) ! j) \<in> live w1"
      using b by blast+
    obtain v t where vt: "p_pevents (w_pool w1) ! k = (v, t)" by (cases "p_pevents (w_pool w1) ! k")
    then have v: "v \<in> live w1" using spec [OF l, of k] by simp
    have "v_mod_iter (items w ! v) \<le> p_iters (w_pool w)"
      using live_index(5) [OF ls(2), of v] v b(2) by simp
    then have old: "v_mod_iter (items w1 ! v) \<noteq> p_iters (w_pool w1)" using b(3,5) by (metis leD)
    have "slots_ok w1" using b(1) by (simp add: pool_inv_def)
    then have at: "ev w1 v = Some (items w1 ! v)" using live_ev v by blast
    have ne: "nth_event w1 (int k) = Some (v, t)" using b(6) vt by (simp add: nth_event_def)
    have "next_event (- 1) w = Some (Some (v, t), int k - 1, w1)"
      using max e n old ne at by (subst next_event.simps) simp
    moreover have "batch_ok (int k - 1) w1"
      unfolding batch_ok_def pending_def using b(6,7) l by auto
    ultimately show ?thesis
      using b(1,2,3,4) v by (intro exI [of _ "Some (v, t)"] exI [of _ "int k - 1"] exI [of _ w1]) simp
  qed
qed

lemma next_event_inv:
  assumes "pool_inv w" "batch_ok offs w" "p_iters (w_pool w) \<noteq> - 1" "reports_live w"
  shows "\<exists>r offs' w'. next_event offs w = Some (r, offs', w') \<and> pool_inv w' \<and> batch_ok offs' w' \<and>
    keeps w w' \<and> (case r of None \<Rightarrow> True | Some (v, t) \<Rightarrow> v \<in> live w') \<and> live w' = live w \<and>
    items w' = items w"
  using assms(2)
proof (induction "nat (offs + 1)" arbitrary: offs)
  case 0
  then have "offs = - 1" by (simp add: batch_ok_def)
  with next_event_new [OF assms(1,3,4)] show ?case by simp
next
  case (Suc n)
  then have o: "0 \<le> offs" by (simp add: batch_ok_def)
  have sl: "slots_ok w" using assms(1) by (simp add: pool_inv_def)
  from next_event_batch [OF sl Suc.prems o] obtain v t where
    e: "nth_event w offs = Some (v, t)" "v_mod_iter (items w ! v) \<noteq> p_iters (w_pool w) \<longrightarrow> v \<in> live w" by blast
  have b: "batch_ok (offs - 1) w" using next_event_pending(2) [OF e(1) Suc.prems o] .
  show ?case
  proof (cases "v_mod_iter (items w ! v) = p_iters (w_pool w)")
    case True
    with next_event_old [OF assms(1) Suc.prems o] e have "next_event offs w = next_event (offs - 1) w" by simp
    with Suc.hyps(1) [OF _ b] Suc.hyps(2) show ?thesis by simp
  next
    case False
    with next_event_old [OF assms(1) Suc.prems o] e b assms(1) show ?thesis by simp
  qed
qed

text \<open>C13: As long as the counter of rounds has not reached its last value, \<open>next_event\<close> returns on
  a well-formed pool: its loop ends and no assertion fails. An event that it hands out belongs to a
  connection in use, even when handlers added and deleted connections since the events were
  reported, and the events left over stay safe to hand out.\<close>

theorem next_event_live:
  assumes "pool_inv w" "batch_ok offs w" "p_iters (w_pool w) \<noteq> - 1" "reports_live w"
  shows "\<exists>r offs' w'. next_event offs w = Some (r, offs', w') \<and> pool_inv w' \<and> batch_ok offs' w' \<and>
    keeps w w' \<and> (case r of None \<Rightarrow> True | Some (v, t) \<Rightarrow> v \<in> live w') \<and> live w' = live w"
  using next_event_inv [OF assms] by blast

subsection \<open>A concrete pool\<close>

lemma sample_live: "live sample_world = {0, 1, 2}"
  by (simp add: live_def sample_world_def sample_pool_def)

lemma sample_paired: "paired sample_world = {1, 2}"
  unfolding paired_def sample_live
  by (auto simp: pr_def sample_world_def sample_pool_def zero_eval_def)

lemma sample_inv: "pool_inv sample_world"
proof -
  have "slots_ok sample_world"
    by (auto simp: slots_ok_def sample_world_def sample_pool_def slot_ok_def zero_eval_def
        less_Suc_eq numeral_eq_Suc)
  moreover have "listener sample_world"
    unfolding listener_def sample_live
    by (simp add: pr_def sample_world_def sample_pool_def zero_eval_def)
  moreover have "pairs_ok sample_world"
    unfolding pairs_ok_def sample_paired
    by (simp add: pr_def sample_world_def sample_pool_def zero_eval_def)
  ultimately show ?thesis by (simp add: pool_inv_def)
qed

lemma sample_batch: "batch_ok (- 1) sample_world"
  by (simp add: batch_ok_def sample_world_def sample_pool_def)


theorem add_event_correct_witness:
  "\<exists>r w'. add_event EV_REQUEST 9 POLLIN sample_world = Some (r, w') \<and> pool_inv w'"
  using add_event_correct [OF sample_inv _ _ sample_batch, of 9 EV_REQUEST POLLIN] by auto

theorem next_event_live_witness:
  "\<exists>r offs' w'. next_event (- 1) sample_world = Some (r, offs', w') \<and> batch_ok offs' w'"
proof -
  have "p_iters (w_pool sample_world) \<noteq> - 1" "reports_live sample_world"
    by (simp_all add: reports_live_def sample_live) (simp_all add: sample_world_def sample_pool_def sample_os_def)
  with next_event_live [OF sample_inv sample_batch] show ?thesis by blast
qed

theorem init_pool_correct_witness:
  "\<exists>w1 w2. init_pool (\<lambda>_. zero_eval) 5 sample_world = Some (True, w1) \<and>
     add_event EV_ACCEPT 4 POLLIN w1 = Some (Some 0, w2) \<and> pool_inv w2"
proof -
  obtain w1 where w1: "init_pool (\<lambda>_. zero_eval) 5 sample_world = Some (True, w1)"
    by (simp add: init_pool_def call_def sys_def sample_world_def sample_os_def Let_def ok_ret_def)
  obtain w2 where w2: "add_event EV_ACCEPT 4 POLLIN w1 = Some (Some 0, w2)"
    using w1 by (auto simp: init_pool_def call_def sys_def sample_world_def sample_os_def Let_def ok_ret_def
        add_event_def nth_link_def upd_def)
  from init_pool_correct [OF w1 w2] w1 w2 show ?thesis by blast
qed

end
