(* ===== verification/Desync.thy ===== *)
theory Desync
  imports World
begin

text \<open>
  How a request is sent so that a filter on the way does not recognise it
  (\<open>src/app/src/main/cpp/byedpi/desync.c\<close>, the Linux variant). \<open>desync\<close> finds the host name in the
  request, edits the request (\<open>mod_http\<close>, extra TLS records), cuts it at the configured positions
  and sends each part in the configured way. Its result is the position up to which the request
  was sent, or -1.

  A \<open>char *\<close> argument that points into the scratch buffer is the buffer with an offset \<open>off\<close>. The
  memory file of \<open>send_fake\<close> is in the history only: \<open>Map_write\<close> is a \<open>memcpy\<close> into the mapping.
\<close>

section \<open>Definitions\<close>

definition get_family :: "sockaddr_ina \<Rightarrow> nat" where
  "get_family dst =
     (if sa_family dst = AF_INET6 \<and> take 12 (sa_addr16 dst) = replicate 10 0 @ [255, 255]
      then AF_INET else sa_family dst)"

definition setttl :: "int \<Rightarrow> int \<Rightarrow> nat \<Rightarrow> world \<Rightarrow> int \<times> world" where
  "setttl fd ttl family w =
     (let (r, w) = call (Setsockopt fd (if family = AF_INET then Ip_ttl ttl else Ipv6_unicast_hops ttl)) w in
      (if r < 0 then - 1 else 0, w))"

definition drop_sack :: "int \<Rightarrow> world \<Rightarrow> int \<times> world" where
  "drop_sack fd w =
     (let (r, w) = call (Setsockopt fd (So_attach_filter
        [(48, 0, 0, 12), (116, 0, 0, 4), (53, 0, 3, 11), (48, 0, 0, 34), (21, 0, 1, 5), (6, 0, 0, 0),
         (6, 0, 0, 262144)])) w in
      (if r = - 1 then - 1 else 0, w))"

definition delay :: "int \<Rightarrow> world \<Rightarrow> world" where
  "delay ms w = snd (call (Nanosleep ms) w)"

definition set_wait_send :: "bool \<Rightarrow> world \<Rightarrow> world" where
  "set_wait_send b w = w\<lparr>w_params := (w_params w)\<lparr>pr_wait_send := b\<rparr>\<rparr>"

text \<open>The loop of \<open>wait_send\<close> with the number of rounds left. False if the function returns from
  inside the loop. \<open>Tcp_info\<close> stores the state, the bytes not sent yet and how much of the structure
  the kernel filled; the field for the bytes not sent is at offset 144.\<close>

fun wait_send_loop :: "nat \<Rightarrow> int \<Rightarrow> world \<Rightarrow> bool \<times> world" where
  "wait_send_loop 0 sfd w = (True, w)"
| "wait_send_loop (Suc k) sfd w =
     (if \<not> pr_wait_send (w_params w) then (True, w)
      else let (r, w) = sys (Getsockopt sfd Tcp_info) w in
      if r_ret r < 0 then (True, w)
      else if rval r 0 \<noteq> 1 then (False, w)
      else if rval r 2 < 144 then (True, set_wait_send False w)
      else if rval r 1 = 0 then (False, w)
      else wait_send_loop k sfd (delay 1 w))"

definition wait_send :: "int \<Rightarrow> world \<Rightarrow> world" where
  "wait_send sfd w =
     (let (b, w) = wait_send_loop 500 sfd w in if b then delay (pr_sfdelay (w_params w)) w else w)"

definition wait_send_if_support :: "int \<Rightarrow> world \<Rightarrow> world" where
  "wait_send_if_support sfd w = (if pr_wait_send (w_params w) then wait_send sfd w else w)"

subsection \<open>Ways to send a part\<close>

text \<open>The packet that is sent instead, from its offset on.\<close>

definition fake_from :: "byte list \<Rightarrow> int \<Rightarrow> byte list option" where
  "fake_from pkt offs =
     (if offs = 0 then Some pkt
      else if int (length pkt) > offs then (if offs < 0 then None else Some (drop (nat offs) pkt))
      else Some [])"

definition md5sig_opt :: "bool \<Rightarrow> int \<Rightarrow> nat \<Rightarrow> sockaddr_ina \<Rightarrow> world \<Rightarrow> int \<times> world" where
  "md5sig_opt on sfd keylen addr w =
     (if on then call (Setsockopt sfd (Tcp_md5sig keylen addr)) w else (0, w))"

definition ip_options_opt :: "byte list option \<Rightarrow> nat \<Rightarrow> int \<Rightarrow> bool \<Rightarrow> world \<Rightarrow> int \<times> world" where
  "ip_options_opt ops fa sfd clear w =
     (case ops of
        None \<Rightarrow> (0, w)
      | Some ip \<Rightarrow> if fa = AF_INET then call (Setsockopt sfd (Ip_options (if clear then [] else ip))) w
                  else (0, w))"

text \<open>The body of the \<open>while (1)\<close> up to \<open>sendfile\<close>: whether the memory was mapped, and \<open>len\<close>.\<close>

definition fake_send ::
    "int \<Rightarrow> int \<Rightarrow> byte list \<Rightarrow> nat \<Rightarrow> nat \<Rightarrow> sockaddr_ina \<Rightarrow> desync_params \<Rightarrow> world \<Rightarrow> bool \<times> int \<times> world" where
  "fake_send sfd ffd pkt pos fa addr opt w =
     (let (r, w) = call (Ftruncate ffd (int pos)) w in
      if r < 0 then (False, - 1, w)
      else let (r, w) = call (Mmap ffd (int pos)) w in
      if r < 0 then (False, - 1, w)
      else let (_, w) = call (Map_write ffd (take pos pkt)) w;
               (r, w) = setttl sfd (if dp_ttl opt \<noteq> 0 then dp_ttl opt else 8) fa w in
      if r < 0 then (True, - 1, w)
      else let (r, w) = md5sig_opt (dp_md5sig opt) sfd 5 addr w in
      if r < 0 then (True, - 1, w)
      else let (r, w) = ip_options_opt (dp_ip_options opt) fa sfd False w in
      if r < 0 then (True, - 1, w)
      else let (len, w) = call (Sendfile sfd ffd (int pos)) w in
      (True, len, w))"

text \<open>The rest of it, after \<open>sendfile\<close> sent something: the mapping gets the real bytes, which the
  kernel sends when the fake packet is lost on the way, and the socket its options back.\<close>

definition fake_restore ::
    "int \<Rightarrow> int \<Rightarrow> byte list \<Rightarrow> nat \<Rightarrow> sockaddr_ina \<Rightarrow> desync_params \<Rightarrow> world \<Rightarrow> world" where
  "fake_restore sfd ffd bytes fa addr opt w =
     (let w = wait_send sfd w;
          (_, w) = call (Map_write ffd bytes) w;
          (r, w) = setttl sfd (pr_def_ttl (w_params w)) fa w in
      if r < 0 then w
      else let (r, w) = ip_options_opt (dp_ip_options opt) fa sfd True w in
      if r < 0 then w
      else snd (md5sig_opt (dp_md5sig opt) sfd 0 addr w))"

definition send_fake ::
    "int \<Rightarrow> byte list \<Rightarrow> nat \<Rightarrow> 32 word \<Rightarrow> nat \<Rightarrow> nat \<Rightarrow> desync_params \<Rightarrow> world \<Rightarrow> (int \<times> world) option" where
  "send_fake sfd buffer off kind pos fa opt w =
     (let (addr_res, w) = (if dp_md5sig opt then sys (Getpeername sfd) w else (ok_ret 0, w)) in
      if r_ret addr_res < 0 then Some (- 1, w)
      else do {
        pkt \<leftarrow> fake_from (case dp_fake_data opt of Some d \<Rightarrow> d
                 | None \<Rightarrow> if kind \<noteq> IS_HTTP then w_fake_tls w else w_fake_http w) (dp_fake_offset opt);
        let (ffd, w) = call Memfd_create w;
        if ffd < 0 then Some (- 1, w)
        else do {
          bytes \<leftarrow> mem_read buffer off pos;
          let (mapped, len, w) = fake_send sfd ffd pkt pos fa (r_addr addr_res) opt w;
          let w = (if 0 \<le> len then fake_restore sfd ffd bytes fa (r_addr addr_res) opt w else w);
          let w = (if mapped then snd (call (Munmap ffd (int pos)) w) else w);
          Some (len, close_fd ffd w) } })"

definition send_oob ::
    "int \<Rightarrow> byte list \<Rightarrow> nat \<Rightarrow> nat \<Rightarrow> byte \<times> byte \<Rightarrow> world \<Rightarrow> (int \<times> world) option" where
  "send_oob sfd buffer off pos c w = do {
     rchar \<leftarrow> rd buffer (off + pos);
     b \<leftarrow> wr buffer (off + pos) (if snd c \<noteq> 0 then fst c else 97);
     bytes \<leftarrow> mem_read b off (pos + 1);
     let (len, w) = call (Send sfd bytes True) w;
     if len < 0 then Some (- 1, w) else Some (len - 1, wait_send_if_support sfd w) }"

definition send_disorder :: "int \<Rightarrow> byte list \<Rightarrow> nat \<Rightarrow> nat \<Rightarrow> nat \<Rightarrow> world \<Rightarrow> (int \<times> world) option" where
  "send_disorder sfd buffer off pos fa w =
     (let (r, w) = setttl sfd 1 fa w in
      if r < 0 then Some (- 1, w)
      else do {
        bytes \<leftarrow> mem_read buffer off pos;
        let (len, w) = call (Send sfd bytes False) w;
        let w = (if len < 0 then w else wait_send_if_support sfd w);
        let (r, w) = setttl sfd (pr_def_ttl (w_params w)) fa w;
        if r < 0 then Some (- 1, w) else Some (len, w) })"

definition send_late_oob ::
    "int \<Rightarrow> byte list \<Rightarrow> nat \<Rightarrow> nat \<Rightarrow> nat \<Rightarrow> byte \<times> byte \<Rightarrow> world \<Rightarrow> (int \<times> world) option" where
  "send_late_oob sfd buffer off pos fa c w =
     (let (r, w) = setttl sfd 1 fa w in
      if r < 0 then Some (- 1, w)
      else do {
        (len, w) \<leftarrow> send_oob sfd buffer off pos c w;
        let (r, w) = setttl sfd (pr_def_ttl (w_params w)) fa w;
        if r < 0 then Some (- 1, w) else Some (len, w) })"

definition send_plain :: "int \<Rightarrow> byte list \<Rightarrow> nat \<Rightarrow> nat \<Rightarrow> world \<Rightarrow> (int \<times> world) option" where
  "send_plain sfd buffer off pos w = do {
     bytes \<leftarrow> mem_read buffer off pos;
     let (s, w) = call (Send sfd bytes False) w;
     Some (s, wait_send_if_support sfd w) }"

text \<open>The \<open>switch\<close> over the way a part is sent, with \<open>kind\<close> the kind of the request.\<close>

definition send_part ::
    "int \<Rightarrow> byte list \<Rightarrow> 32 word \<Rightarrow> nat \<Rightarrow> desync_params \<Rightarrow> demode \<Rightarrow> nat \<Rightarrow> nat \<Rightarrow> world \<Rightarrow> (int \<times> world) option" where
  "send_part sfd buffer kind fa dp m off k w =
     (case m of
        DESYNC_FAKE \<Rightarrow> if k \<noteq> 0 then send_fake sfd buffer off kind k fa dp w else Some (0, w)
      | DESYNC_DISORDER \<Rightarrow> send_disorder sfd buffer off k fa w
      | DESYNC_OOB \<Rightarrow> send_oob sfd buffer off k (dp_oob_char dp) w
      | DESYNC_DISOOB \<Rightarrow> send_late_oob sfd buffer off k fa (dp_oob_char dp) w
      | _ \<Rightarrow> send_plain sfd buffer off k w)"

subsection \<open>The strategy\<close>

text \<open>The loop over the TLS record positions: the length of the request and the buffer afterwards.
  \<open>part_tls\<close> works on the rest of the buffer from \<open>lp\<close> on.\<close>

fun tlsrec_loop ::
    "nat \<Rightarrow> int \<Rightarrow> part list \<Rightarrow> int \<Rightarrow> int \<Rightarrow> int \<Rightarrow> byte list \<Rightarrow> (int \<times> byte list) option" where
  "tlsrec_loop bfsize host [] i lp n b = Some (n, b)"
| "tlsrec_loop bfsize host (p # ps) i lp n b =
     (let pos = part_pos p + i * 5;
          pos = (if part_flag p = OFFSET_SNI then pos + (host - 5) else if pos < 0 then pos + n else pos) in
      if pos < lp then Some (n, b)
      else if lp < 0 \<or> lp > int (length b) then None
      else do {
        (r, b') \<leftarrow> part_tls (drop (nat lp) b) (usub bfsize (nat lp)) (n - lp) (pos - lp);
        let b = take (nat lp) b @ b';
        if r = 0 then Some (n, b) else tlsrec_loop bfsize host ps (i + 1) (pos + 5) (n + 5) b })"

text \<open>The position of a part, or none if the part is for another kind of request.\<close>

definition split_pos :: "32 word \<Rightarrow> nat option \<Rightarrow> int \<Rightarrow> part \<Rightarrow> int option option" where
  "split_pos kind host n p =
     (case part_flag p of
        OFFSET_SNI \<Rightarrow> if kind \<noteq> IS_HTTPS then Some None
                     else do { h \<leftarrow> host; Some (Some (part_pos p + int h)) }
      | OFFSET_HOST \<Rightarrow> if kind \<noteq> IS_HTTP then Some None
                      else do { h \<leftarrow> host; Some (Some (part_pos p + int h)) }
      | f \<Rightarrow> Some (Some (if part_pos p < 0 \<or> f = OFFSET_END then part_pos p + n else part_pos p)))"

text \<open>The loop over the parts: \<open>Inl\<close> a value that \<open>desync\<close> returns, or \<open>Inr\<close> the position reached.\<close>

fun parts_loop ::
    "int \<Rightarrow> byte list \<Rightarrow> 32 word \<Rightarrow> nat option \<Rightarrow> nat \<Rightarrow> desync_params \<Rightarrow> int \<Rightarrow> int \<Rightarrow> part list \<Rightarrow> int \<Rightarrow>
     world \<Rightarrow> ((int + int) \<times> world) option" where
  "parts_loop sfd b kind host fa dp n offset [] lp w = Some (Inr lp, w)"
| "parts_loop sfd b kind host fa dp n offset (p # ps) lp w = do {
     pos \<leftarrow> split_pos kind host n p;
     (case pos of
        None \<Rightarrow> parts_loop sfd b kind host fa dp n offset ps lp w
      | Some pos \<Rightarrow>
          if offset \<noteq> 0 \<and> pos \<le> offset then parts_loop sfd b kind host fa dp n offset ps lp w
          else if pos < 0 \<or> pos > n \<or> pos < lp then Some (Inr lp, w)
          else if lp < 0 then None
          else do {
            (s, w) \<leftarrow> send_part sfd b kind fa dp (part_m p) (nat lp) (nat (pos - lp)) w;
            if s < 0 then Some (Inl (if w_errno w = EAGAIN then lp else - 1), w)
            else if s \<noteq> pos - lp then Some (Inl (lp + s), w)
            else parts_loop sfd b kind host fa dp n offset ps pos w }) }"

text \<open>The kind of the request and the place of the host name.\<close>

definition classify :: "byte list \<Rightarrow> nat \<Rightarrow> (32 word \<times> nat option) option" where
  "classify buffer n = do {
     (len, hs) \<leftarrow> parse_tls buffer n;
     if len \<noteq> 0 then Some (IS_HTTPS, hs)
     else do {
       (len, hs2, _) \<leftarrow> parse_http buffer n False;
       if len \<noteq> 0 then Some (IS_HTTP, hs2) else Some (0, None) } }"

definition edit_request ::
    "nat \<Rightarrow> 32 word \<Rightarrow> nat option \<Rightarrow> desync_params \<Rightarrow> int \<Rightarrow> byte list \<Rightarrow> (bool \<times> int \<times> byte list) option" where
  "edit_request bfsize kind host dp n b =
     (if kind = IS_HTTP \<and> dp_mod_http dp \<noteq> 0
      then do { (r, b) \<leftarrow> mod_http b (nat n) (dp_mod_http dp); Some (r = 0, n, b) }
      else if kind = IS_HTTPS \<and> dp_tlsrec dp \<noteq> []
      then do {
        h \<leftarrow> host;
        (n, b) \<leftarrow> tlsrec_loop bfsize (int h) (dp_tlsrec dp) 0 0 n b;
        Some (True, n, b) }
      else Some (True, n, b))"

definition nth_dp :: "world \<Rightarrow> nat \<Rightarrow> desync_params option" where
  "nth_dp w k = (if k < length (pr_dp (w_params w)) then Some (pr_dp (w_params w) ! k) else None)"

definition desync ::
    "int \<Rightarrow> byte list \<Rightarrow> nat \<Rightarrow> nat \<Rightarrow> int \<Rightarrow> sockaddr_ina \<Rightarrow> nat \<Rightarrow> world \<Rightarrow> (int \<times> byte list \<times> world) option" where
  "desync sfd buffer bfsize n0 offset dst dp_c w = do {
     dp \<leftarrow> nth_dp w dp_c;
     (kind, host) \<leftarrow> classify buffer n0;
     (ok, n, b) \<leftarrow> edit_request bfsize kind host dp (int n0) buffer;
     if \<not> ok then Some (- 1, b, w)
     else let (r, w) = (if dp_drop_sack dp then drop_sack sfd w else (0, w)) in
     if r \<noteq> 0 then Some (- 1, b, w)
     else do {
       (res, w) \<leftarrow> parts_loop sfd b kind host (get_family dst) dp n offset (dp_parts dp) offset w;
       (case res of
          Inl v \<Rightarrow> Some (v, b, w)
        | Inr lp \<Rightarrow>
            if lp < n
            then if lp < 0 then None
              else do {
                bytes \<leftarrow> mem_read b (nat lp) (nat (n - lp));
                let (r, w) = call (Send sfd bytes False) w;
                if r < 0 then Some (if w_errno w = EAGAIN then lp else - 1, b, w) else Some (n, b, w) }
            else Some (n, b, w)) } }"

definition post_desync :: "int \<Rightarrow> nat \<Rightarrow> world \<Rightarrow> (int \<times> world) option" where
  "post_desync sfd dp_c w = do {
     dp \<leftarrow> nth_dp w dp_c;
     if dp_drop_sack dp
     then let (r, w) = call (Setsockopt sfd So_detach_filter) w in Some (if r = - 1 then - 1 else 0, w)
     else Some (0, w) }"

subsection \<open>UDP\<close>

fun udp_fakes :: "nat \<Rightarrow> int \<Rightarrow> byte list \<Rightarrow> sockaddr_ina \<Rightarrow> world \<Rightarrow> bool \<times> world" where
  "udp_fakes 0 sfd pkt dst w = (True, w)"
| "udp_fakes (Suc k) sfd pkt dst w =
     (let (r, w) = call (Sendto sfd pkt dst) w in
      if r < 0 then (False, w) else udp_fakes k sfd pkt dst w)"

definition desync_udp ::
    "int \<Rightarrow> byte list \<Rightarrow> nat \<Rightarrow> nat \<Rightarrow> sockaddr_ina \<Rightarrow> nat \<Rightarrow> world \<Rightarrow> (int \<times> world) option" where
  "desync_udp sfd buffer off n dst dp_c w = do {
     dp \<leftarrow> nth_dp w dp_c;
     let fa = get_family dst;
     (go, w) \<leftarrow>
       (if dp_udp_fake_count dp \<noteq> 0
        then do {
          pkt \<leftarrow> fake_from (case dp_fake_data dp of Some d \<Rightarrow> d | None \<Rightarrow> w_fake_udp w) (dp_fake_offset dp);
          let (r, w) = setttl sfd (if dp_ttl dp \<noteq> 0 then dp_ttl dp else 8) fa w;
          if r < 0 then Some (False, w)
          else let (ok, w) = udp_fakes (nat (dp_udp_fake_count dp)) sfd pkt dst w in
          if \<not> ok then Some (False, w)
          else let (r, w) = setttl sfd (pr_def_ttl (w_params w)) fa w in
          Some (0 \<le> r, w) }
        else Some (True, w));
     if \<not> go then Some (- 1, w)
     else do {
       bytes \<leftarrow> mem_read buffer off n;
       Some (call (Sendto sfd bytes dst) w) } }"

subsection \<open>Specification\<close>

text \<open>What the kernel promises: the calls that set socket options do not fail with \<open>EAGAIN\<close>; a
  blocking-style kernel takes all of a \<open>send\<close> that it accepts.\<close>

definition sockopt_ok :: "(history \<Rightarrow> syscall \<Rightarrow> sysret) \<Rightarrow> bool" where
  "sockopt_ok os \<longleftrightarrow> (\<forall>h fd opt. r_errno (os h (Setsockopt fd opt)) \<noteq> EAGAIN)"

definition never_short :: "int \<Rightarrow> (history \<Rightarrow> syscall \<Rightarrow> sysret) \<Rightarrow> bool" where
  "never_short fd os \<longleftrightarrow>
     (\<forall>h bs. 0 \<le> r_ret (os h (Send fd bs False)) \<longrightarrow> int (length bs) \<le> r_ret (os h (Send fd bs False)))"

text \<open>From \<open>w\<close> to \<open>w'\<close> the calls \<open>h\<close> were made; \<open>quietly\<close>: none of them sent anything; \<open>chunk\<close>: they
  deliver \<open>bs\<close> on the socket and leave no memory file open.\<close>

definition ext :: "world \<Rightarrow> history \<Rightarrow> world \<Rightarrow> bool" where
  "ext w h w' \<longleftrightarrow> w_hist w' = w_hist w @ h \<and> w_os w' = w_os w"

definition quietly :: "world \<Rightarrow> world \<Rightarrow> bool" where
  "quietly w w' \<longleftrightarrow> (\<exists>h. ext w h w' \<and> quiet h)"

definition chunk :: "int \<Rightarrow> byte list \<Rightarrow> world \<Rightarrow> world \<Rightarrow> bool" where
  "chunk fd bs w w' \<longleftrightarrow> (\<exists>h. ext w h w' \<and> settled h \<and> delivered fd h = bs)"

section \<open>Lemmas\<close>

lemma ext_call: "call c w = (r, w') \<Longrightarrow> ext w [(c, comply c (w_os w (w_hist w) c))] w' \<and>
    r = r_ret (comply c (w_os w (w_hist w) c)) \<and>
    (r < 0 \<longrightarrow> w_errno w' = r_errno (comply c (w_os w (w_hist w) c)))"
  by (auto simp: call_def sys_def ext_def Let_def)

lemma ext_trans: "ext w h w' \<Longrightarrow> ext w' h' w'' \<Longrightarrow> ext w (h @ h') w''"
  by (simp add: ext_def)

lemma quietly_refl [simp]: "quietly w w"
  by (auto simp: quietly_def ext_def intro: exI [of _ "[]"])

lemma quietly_trans [trans]: "quietly w w' \<Longrightarrow> quietly w' w'' \<Longrightarrow> quietly w w''"
  unfolding quietly_def using ext_trans quiet_append by blast

lemma quietly_sys: "quiet_call c \<Longrightarrow> quietly w (snd (sys c w))"
  unfolding quietly_def ext_def by (rule exI [of _ "[(c, comply c (w_os w (w_hist w) c))]"]) simp

lemma quietly_call: "quiet_call c \<Longrightarrow> call c w = (r, w') \<Longrightarrow> quietly w w'"
  using quietly_sys [of c w] by (auto simp: call_def split_beta)

lemma quietly_snd_call: "quiet_call c \<Longrightarrow> quietly w (snd (call c w))"
  using quietly_sys [of c w] by (simp add: call_def split_beta)

lemma quietly_os: "quietly w w' \<Longrightarrow> w_os w' = w_os w"
  by (auto simp: quietly_def ext_def)

lemma setttl_quiet: "setttl fd ttl fa w = (r, w') \<Longrightarrow> quietly w w'"
  using quietly_snd_call by (auto simp: setttl_def split_beta)

lemma setttl_errno:
  assumes "setttl fd ttl fa w = (r, w')" "r < 0" "sockopt_ok (w_os w)"
  shows "w_errno w' \<noteq> EAGAIN"
  using assms
  by (auto simp: setttl_def call_def sys_def Let_def sockopt_ok_def split: if_splits)

lemma quietly_set_wait [simp]: "quietly w (set_wait_send b w)"
  by (auto simp: quietly_def ext_def set_wait_send_def intro: exI [of _ "[]"])

lemma quietly_delay: "quietly w (delay ms w)"
  by (simp add: delay_def quietly_snd_call)

lemma wait_send_loop_quiet: "quietly w (snd (wait_send_loop k sfd w))"
proof (induction k arbitrary: w)
  case (Suc k)
  let ?w = "snd (sys (Getsockopt sfd Tcp_info) w)"
  have "quietly w ?w" by (rule quietly_sys) simp
  moreover from this have "quietly w (snd (wait_send_loop k sfd (delay 1 ?w)))"
    using quietly_delay quietly_trans Suc by blast
  moreover have "quietly w (set_wait_send False ?w)"
    using calculation(1) quietly_set_wait quietly_trans by blast
  ultimately show ?case by (simp add: split_beta)
qed simp

lemma wait_send_quiet: "quietly w (wait_send sfd w)" "quietly w (wait_send_if_support sfd w)"
proof -
  show q: "quietly w (wait_send sfd w)" for w
    using wait_send_loop_quiet [of w 500 sfd] quietly_delay quietly_trans
    by (auto simp: wait_send_def split_beta simp del: wait_send_loop.simps)
  show "quietly w (wait_send_if_support sfd w)"
    using q by (simp add: wait_send_if_support_def)
qed

lemma chunk_quiet: "quietly w w' \<Longrightarrow> chunk fd [] w w'"
  by (auto simp: chunk_def quietly_def)

lemma chunk_trans: "chunk fd bs w w' \<Longrightarrow> chunk fd bs' w' w'' \<Longrightarrow> chunk fd (bs @ bs') w w''"
proof -
  assume "chunk fd bs w w'" "chunk fd bs' w' w''"
  then obtain h h' where "ext w h w'" "settled h" "delivered fd h = bs"
      "ext w' h' w''" "settled h'" "delivered fd h' = bs'"
    unfolding chunk_def by blast
  then show ?thesis
    unfolding chunk_def using ext_trans by (intro exI [of _ "h @ h'"]) simp
qed

lemma chunk_quiet_trans: "quietly w w' \<Longrightarrow> chunk fd bs w' w'' \<Longrightarrow> chunk fd bs w w''"
  using chunk_trans [OF chunk_quiet] by fastforce

lemma chunk_trans_quiet: "chunk fd bs w w' \<Longrightarrow> quietly w' w'' \<Longrightarrow> chunk fd bs w w''"
  using chunk_trans [OF _ chunk_quiet] by fastforce

lemma chunk_os: "chunk fd bs w w' \<Longrightarrow> w_os w' = w_os w"
  by (auto simp: chunk_def ext_def)

lemma chunk_send:
  assumes "call (Send fd bs oob) w = (r, w')"
  shows "chunk fd (take (nat (r - (if oob then 1 else 0))) bs) w w'" "r \<le> int (length bs)" "- 1 \<le> r"
proof -
  from ext_call [OF assms] have e: "ext w [(Send fd bs oob, comply (Send fd bs oob) (w_os w (w_hist w) (Send fd bs oob)))] w'"
      and r: "r = r_ret (comply (Send fd bs oob) (w_os w (w_hist w) (Send fd bs oob)))" by simp_all
  show "chunk fd (take (nat (r - (if oob then 1 else 0))) bs) w w'"
    unfolding chunk_def
    by (rule exI [of _ "[(Send fd bs oob, comply (Send fd bs oob) (w_os w (w_hist w) (Send fd bs oob)))]"])
       (use e r in \<open>simp add: comply_write_def\<close>)
  show "r \<le> int (length bs)" "- 1 \<le> r" using r by (auto simp: comply_write_def)
qed

text \<open>What every way to send \<open>k\<close> bytes from \<open>off\<close> on achieves: a prefix of them is delivered, of the
  length that is returned.\<close>

definition sends :: "int \<Rightarrow> byte list \<Rightarrow> nat \<Rightarrow> nat \<Rightarrow> world \<Rightarrow> int \<Rightarrow> world \<Rightarrow> bool" where
  "sends sfd b off k w s w' \<longleftrightarrow>
     (\<exists>d. chunk sfd (take d (drop off b)) w w' \<and> d \<le> k \<and> s \<le> int k \<and> (0 \<le> s \<longrightarrow> int d = s) \<and>
          (s < 0 \<and> w_errno w' = EAGAIN \<longrightarrow> d = 0) \<and> (d = 0 \<or> off + d \<le> length b))"

lemma mem_read_Some: "mem_read b p n = Some bs \<longleftrightarrow> p + n \<le> length b \<and> bs = take n (drop p b)"
  by (auto simp: mem_read_def)

lemma send_plain_sends:
  assumes "send_plain sfd b off k w = Some (s, w')"
  shows "sends sfd b off k w s w'"
proof -
  obtain w1 where r: "off + k \<le> length b"
    and c: "call (Send sfd (take k (drop off b)) False) w = (s, w1)" and w': "w' = wait_send_if_support sfd w1"
    using assms by (auto simp: send_plain_def bind_eq_Some_conv mem_read_Some split: prod.splits)
  note cs = chunk_send [OF c]
  have "chunk sfd (take (nat s) (drop off b)) w w'"
    unfolding w' using chunk_trans_quiet [OF cs(1) wait_send_quiet(2)] cs(2) r by simp
  moreover have "s \<le> int k" using cs(2) r by simp
  ultimately show ?thesis
    using r unfolding sends_def by (intro exI [of _ "nat s"]) auto
qed

lemma send_oob_sends:
  assumes "send_oob sfd b off k c w = Some (s, w')"
  shows "sends sfd b off k w s w'"
proof -
  let ?b = "b[off + k := if snd c \<noteq> 0 then fst c else 97]"
  obtain w1 len where r: "off + k < length b"
    and c: "call (Send sfd (take (k + 1) (drop off ?b)) True) w = (len, w1)"
    and w': "(s, w') = (if len < 0 then (- 1, w1) else (len - 1, wait_send_if_support sfd w1))"
    using assms by (auto simp: send_oob_def bind_eq_Some_conv mem_read_Some wr_def split: if_splits prod.splits)
  note cs = chunk_send [OF c]
  have k: "len - 1 \<le> int k" using cs(2) by simp
  have "take (nat (len - 1)) (take (k + 1) (drop off ?b)) = take (nat (len - 1)) (drop off b)"
    using k by (simp add: drop_update_swap take_update_cancel min_def nat_le_iff)
  with cs(1) have ch: "chunk sfd (take (nat (len - 1)) (drop off b)) w w1" by simp
  have "chunk sfd (take (nat (len - 1)) (drop off b)) w w'"
    using chunk_trans_quiet [OF ch wait_send_quiet(2)] ch w' by (simp split: if_splits)
  then show ?thesis
    using w' r k unfolding sends_def by (intro exI [of _ "nat (len - 1)"]) (auto split: if_splits)
qed

text \<open>Setting the TTL around something that sends.\<close>

lemma setttl_around:
  assumes "setttl sfd ttl fa w = (r1, w1)" "sends sfd b off k w1 s w2" "setttl sfd ttl' fa w2 = (r2, w3)"
    and "sockopt_ok (w_os w)"
  shows "sends sfd b off k w (if r2 < 0 then - 1 else s) w3"
proof -
  note q = setttl_quiet [OF assms(1)] setttl_quiet [OF assms(3)]
  obtain d where d: "chunk sfd (take d (drop off b)) w1 w2" "d \<le> k" "s \<le> int k" "0 \<le> s \<longrightarrow> int d = s"
      "s < 0 \<and> w_errno w2 = EAGAIN \<longrightarrow> d = 0" and len: "d = 0 \<or> off + d \<le> length b"
    using assms(2) by (auto simp: sends_def)
  have ch: "chunk sfd (take d (drop off b)) w w3"
    using chunk_quiet_trans [OF q(1) chunk_trans_quiet [OF d(1) q(2)]] .
  have ok: "sockopt_ok (w_os w2)" using assms(4) quietly_os [OF q(1)] chunk_os [OF d(1)] by simp
  have "w_errno w3 \<noteq> EAGAIN" if "r2 < 0" using setttl_errno [OF assms(3) that ok] .
  moreover have "w_errno w3 = w_errno w2" if "\<not> r2 < 0"
    using assms(3) that by (auto simp: setttl_def call_def sys_def Let_def split: if_splits)
  ultimately show ?thesis
    using ch d len unfolding sends_def by (intro exI [of _ d]) auto
qed

lemma sends_nothing: "quietly w w' \<Longrightarrow> sends sfd b off k w (- 1) w'"
  unfolding sends_def by (intro exI [of _ 0]) (simp_all add: chunk_quiet)

lemma send_disorder_sends:
  assumes "send_disorder sfd b off k fa w = Some (s, w')" "sockopt_ok (w_os w)"
  shows "sends sfd b off k w s w'"
proof -
  obtain r1 w1 where t1: "setttl sfd 1 fa w = (r1, w1)" by fastforce
  show ?thesis
  proof (cases "r1 < 0")
    case True
    with assms(1) t1 have "s = - 1" "w' = w1" by (simp_all add: send_disorder_def)
    with sends_nothing [OF setttl_quiet [OF t1]] show ?thesis by simp
  next
    case False
    have rng: "off + k \<le> length b"
      using assms(1) t1 False by (auto simp: send_disorder_def bind_eq_Some_conv mem_read_Some)
    obtain len w2 where c: "call (Send sfd (take k (drop off b)) False) w1 = (len, w2)" by fastforce
    define w3 where "w3 = (if len < 0 then w2 else wait_send_if_support sfd w2)"
    obtain r2 w4 where t2: "setttl sfd (pr_def_ttl (w_params w3)) fa w3 = (r2, w4)" by fastforce
    note cs = chunk_send [OF c]
    have "chunk sfd (take (nat len) (drop off b)) w1 w3"
      using cs(1,2) chunk_trans_quiet [OF cs(1) wait_send_quiet(2)] rng
      by (cases "len < 0") (simp_all add: w3_def)
    then have "sends sfd b off k w1 len w3"
      using cs(2) rng unfolding sends_def by (intro exI [of _ "nat len"]) auto
    from setttl_around [OF t1 this t2 assms(2)] assms(1) rng t1 False c t2
    show ?thesis by (auto simp: send_disorder_def mem_read_def w3_def split: if_splits)
  qed
qed

lemma send_late_oob_sends:
  assumes "send_late_oob sfd b off k fa c w = Some (s, w')" "sockopt_ok (w_os w)"
  shows "sends sfd b off k w s w'"
proof -
  obtain r1 w1 where t1: "setttl sfd 1 fa w = (r1, w1)" by fastforce
  show ?thesis
  proof (cases "r1 < 0")
    case True
    with assms(1) t1 have "s = - 1" "w' = w1" by (simp_all add: send_late_oob_def)
    with sends_nothing [OF setttl_quiet [OF t1]] show ?thesis by simp
  next
    case False
    obtain len w2 where c: "send_oob sfd b off k c w1 = Some (len, w2)"
      using assms(1) t1 False by (auto simp: send_late_oob_def bind_eq_Some_conv)
    obtain r2 w4 where t2: "setttl sfd (pr_def_ttl (w_params w2)) fa w2 = (r2, w4)" by fastforce
    from setttl_around [OF t1 send_oob_sends [OF c] t2 assms(2)] assms(1) t1 False c t2
    show ?thesis by (auto simp: send_late_oob_def split: if_splits)
  qed
qed

subsection \<open>The fake packet\<close>

text \<open>Calls that send nothing and leave memory files open.\<close>

definition mapping :: "history \<Rightarrow> bool" where
  "mapping h \<longleftrightarrow> (\<forall>(c, r) \<in> set h. quiet_call c \<or> (\<exists>f bs. c = Map_write f bs))"

lemma mapping_delivered: "mapping h \<Longrightarrow> delivered fd (h @ h') = delivered fd h' \<and> settled (h @ h') = settled h'"
  by (induction h) (auto simp: mapping_def split: syscall.split)

lemma quiet_mapping: "quiet h \<Longrightarrow> mapping h"
  by (auto simp: quiet_def mapping_def)

lemma mapping_append [simp]: "mapping (h @ h') \<longleftrightarrow> mapping h \<and> mapping h'"
  by (auto simp: mapping_def)

definition maps :: "world \<Rightarrow> world \<Rightarrow> bool" where
  "maps w w' \<longleftrightarrow> (\<exists>h. ext w h w' \<and> mapping h)"

lemma maps_quiet: "quietly w w' \<Longrightarrow> maps w w'"
  unfolding maps_def quietly_def using quiet_mapping by blast

lemma maps_trans: "maps w w' \<Longrightarrow> maps w' w'' \<Longrightarrow> maps w w''"
  unfolding maps_def using ext_trans mapping_append by blast

lemma maps_write: "call (Map_write f bs) w = (r, w') \<Longrightarrow> maps w w'"
  unfolding maps_def by (drule ext_call) (fastforce simp: mapping_def)

lemma md5sig_quiet: "md5sig_opt on sfd n addr w = (r, w') \<Longrightarrow> quietly w w'"
  by (auto simp: md5sig_opt_def split: if_splits intro: quietly_call [rotated])

lemma ip_options_quiet: "ip_options_opt ops fa sfd cl w = (r, w') \<Longrightarrow> quietly w w'"
  by (auto simp: ip_options_opt_def split: if_splits option.splits intro: quietly_call [rotated])

text \<open>Before \<open>sendfile\<close> nothing is sent; \<open>sendfile\<close> comes last.\<close>

lemma fake_send_calls:
  assumes "fake_send sfd ffd pkt pos fa addr opt w = (mapped, len, w')"
  shows "(len = - 1 \<and> maps w w') \<or>
    (\<exists>w0 r. maps w w0 \<and> ext w0 [(Sendfile sfd ffd (int pos), r)] w' \<and> r_ret r = len \<and>
       - 1 \<le> len \<and> len \<le> int pos)"
proof -
  obtain r1 w1 where 1: "call (Ftruncate ffd (int pos)) w = (r1, w1)" by fastforce
  obtain r2 w2 where 2: "call (Mmap ffd (int pos)) w1 = (r2, w2)" by fastforce
  obtain r3 w3 where 3: "call (Map_write ffd (take pos pkt)) w2 = (r3, w3)" by fastforce
  obtain r4 w4 where 4: "setttl sfd (if dp_ttl opt \<noteq> 0 then dp_ttl opt else 8) fa w3 = (r4, w4)" by fastforce
  obtain r5 w5 where 5: "md5sig_opt (dp_md5sig opt) sfd 5 addr w4 = (r5, w5)" by fastforce
  obtain r6 w6 where 6: "ip_options_opt (dp_ip_options opt) fa sfd False w5 = (r6, w6)" by fastforce
  obtain r7 w7 where 7: "call (Sendfile sfd ffd (int pos)) w6 = (r7, w7)" by fastforce
  have m1: "maps w w1" using quietly_call [OF _ 1] maps_quiet by simp
  have m2: "maps w w2" using quietly_call [OF _ 2] maps_quiet maps_trans [OF m1] by simp
  have m4: "maps w w4" using maps_trans [OF maps_trans [OF m2 maps_write [OF 3]] maps_quiet [OF setttl_quiet [OF 4]]] .
  have m5: "maps w w5" using maps_trans [OF m4 maps_quiet [OF md5sig_quiet [OF 5]]] .
  have m6: "maps w w6" using maps_trans [OF m5 maps_quiet [OF ip_options_quiet [OF 6]]] .
  have "(len = - 1 \<and> w' \<in> {w1, w2, w4, w5, w6}) \<or> (len = r7 \<and> w' = w7)"
    using assms 1 2 3 4 5 6 7 by (auto simp: fake_send_def split: if_splits)
  then show ?thesis
  proof
    assume "len = - 1 \<and> w' \<in> {w1, w2, w4, w5, w6}"
    then show ?thesis using m1 m2 m4 m5 m6 by blast
  next
    assume l: "len = r7 \<and> w' = w7"
    note e = ext_call [OF 7]
    then have "- 1 \<le> r7 \<and> r7 \<le> int pos" by (auto simp: comply_write_def)
    with e l m6 show ?thesis by blast
  qed
qed

text \<open>After it the mapping is written once more.\<close>

lemma fake_restore_calls:
  "\<exists>h. ext w h (fake_restore sfd ffd bytes fa addr opt w) \<and> mapping h \<and>
     (\<forall>h' bs. last_map ffd (h @ h') bs = last_map ffd h' bytes)"
proof -
  obtain r1 w1 where 1: "call (Map_write ffd bytes) (wait_send sfd w) = (r1, w1)" by fastforce
  obtain r2 w2 where 2: "setttl sfd (pr_def_ttl (w_params w1)) fa w1 = (r2, w2)" by fastforce
  obtain r3 w3 where 3: "ip_options_opt (dp_ip_options opt) fa sfd True w2 = (r3, w3)" by fastforce
  obtain r4 w4 where 4: "md5sig_opt (dp_md5sig opt) sfd 0 addr w3 = (r4, w4)" by fastforce
  let ?w = "fake_restore sfd ffd bytes fa addr opt w"
  have "?w \<in> {w2, w3, w4}" using 1 2 3 4 by (auto simp: fake_restore_def)
  moreover have "quietly w1 w2" "quietly w1 w3" "quietly w1 w4"
    using setttl_quiet [OF 2] ip_options_quiet [OF 3] md5sig_quiet [OF 4] quietly_trans by blast+
  ultimately have "quietly w1 ?w" by auto
  then obtain h2 where h2: "ext w1 h2 ?w" "quiet h2" by (auto simp: quietly_def)
  obtain h1 where h1: "ext w h1 (wait_send sfd w)" "quiet h1"
    using wait_send_quiet(1) by (auto simp: quietly_def)
  obtain r where m: "ext (wait_send sfd w) [(Map_write ffd bytes, r)] w1" using ext_call [OF 1] by blast
  let ?h = "h1 @ [(Map_write ffd bytes, r)] @ h2"
  have "ext w ?h ?w" using ext_trans [OF h1(1) ext_trans [OF m h2(1)]] .
  moreover have "mapping ?h"
    using quiet_mapping [OF h1(2)] quiet_mapping [OF h2(2)] by (auto simp: mapping_def)
  moreover have "last_map ffd (?h @ h') bs = last_map ffd h' bytes" for h' bs
    using h1(2) h2(2) by (simp add: quiet_last_map)
  ultimately show ?thesis by blast
qed

text \<open>The ways through \<open>send_fake\<close>: it fails before it sends, or it sends the decoy, writes the real
  bytes into the memory file if that worked, and closes the file.\<close>

lemma send_fake_cases [consumes 1, case_names fails goes]:
  assumes "send_fake sfd b off kind k fa opt w = Some (s, w')"
  obtains wa where "wa = (if dp_md5sig opt then snd (sys (Getpeername sfd) w) else w)" "s = - 1"
      "w' = wa \<or> (\<exists>fd. fd < 0 \<and> call Memfd_create wa = (fd, w'))"
  | wa a ffd w1 pkt mapped w2 w3 where "wa = (if dp_md5sig opt then snd (sys (Getpeername sfd) w) else w)"
      "fake_from (case dp_fake_data opt of Some d \<Rightarrow> d
         | None \<Rightarrow> if kind \<noteq> IS_HTTP then w_fake_tls w else w_fake_http w) (dp_fake_offset opt) = Some pkt"
      "call Memfd_create wa = (ffd, w1)" "0 \<le> ffd" "off + k \<le> length b"
      "fake_send sfd ffd pkt k fa a opt w1 = (mapped, s, w2)"
      "w3 = (if 0 \<le> s then fake_restore sfd ffd (take k (drop off b)) fa a opt w2 else w2)"
      "w' = close_fd ffd (if mapped then snd (call (Munmap ffd (int k)) w3) else w3)"
proof -
  define ar where "ar = (if dp_md5sig opt then sys (Getpeername sfd) w else (ok_ret 0, w))"
  have wa: "snd ar = (if dp_md5sig opt then snd (sys (Getpeername sfd) w) else w)" by (simp add: ar_def)
  have keep: "w_fake_tls (snd ar) = w_fake_tls w" "w_fake_http (snd ar) = w_fake_http w"
    using keeps_sys [of w "Getpeername sfd"] by (simp_all add: ar_def keeps_def)
  obtain ffd w1 where 1: "call Memfd_create (snd ar) = (ffd, w1)" by fastforce
  show ?thesis
  proof (cases "r_ret (fst ar) < 0 \<or> ffd < 0")
    case True
    with assms 1 have "s = - 1" "w' = snd ar \<or> ffd < 0 \<and> w' = w1"
      by (auto simp: send_fake_def ar_def [symmetric] split_beta bind_eq_Some_conv split: if_splits)
    with 1 show ?thesis by (intro that(1) [OF wa]) auto
  next
    case False
    with assms 1 obtain pkt where pkt: "fake_from (case dp_fake_data opt of Some d \<Rightarrow> d
         | None \<Rightarrow> if kind \<noteq> IS_HTTP then w_fake_tls (snd ar) else w_fake_http (snd ar)) (dp_fake_offset opt) = Some pkt"
      by (auto simp: send_fake_def ar_def [symmetric] split_beta bind_eq_Some_conv)
    obtain mapped len w2 where 2: "fake_send sfd ffd pkt k fa (r_addr (fst ar)) opt w1 = (mapped, len, w2)"
      by (metis prod_cases3)
    from assms 1 False pkt 2 have "off + k \<le> length b" "s = len"
      by (auto simp: send_fake_def ar_def [symmetric] split_beta bind_eq_Some_conv mem_read_Some Let_def)
    with assms 1 False pkt 2 show ?thesis
      by (intro that(2) [OF wa pkt [unfolded keep] 1 _ _ 2 [folded \<open>s = len\<close>] refl])
        (auto simp: send_fake_def ar_def [symmetric] split_beta bind_eq_Some_conv mem_read_def Let_def)
  qed
qed

text \<open>What follows the decoy: nothing that is sent, and the file holds the real bytes when it is closed.\<close>

lemma send_fake_tail:
  assumes "w3 = (if 0 \<le> s then fake_restore sfd ffd bs fa a opt w2 else w2)"
    "w' = close_fd ffd (if mapped then snd (call (Munmap ffd n) w3) else w3)"
  obtains t where "ext w2 t w'" "delivered sfd t = []" "settled t" "\<exists>r. (Close ffd, r) \<in> set t" "0 \<le> s \<longrightarrow> last_map ffd t [] = bs"
proof -
  obtain h3 where h3: "ext w2 h3 w3" "mapping h3" "0 \<le> s \<longrightarrow> (\<forall>h'. last_map ffd (h3 @ h') [] = last_map ffd h' bs)"
  proof (cases "0 \<le> s")
    case True
    with fake_restore_calls [of w2 sfd ffd bs fa a opt] that show ?thesis by (auto simp: assms(1))
  qed (use that [of "[]"] in \<open>simp add: assms(1) ext_def mapping_def\<close>)
  have "quietly w3 (if mapped then snd (call (Munmap ffd n) w3) else w3)" by (simp add: quietly_snd_call)
  then obtain h4 where h4: "ext w3 h4 (if mapped then snd (call (Munmap ffd n) w3) else w3)" "quiet h4"
    by (auto simp: quietly_def)
  obtain rc where h5: "ext (if mapped then snd (call (Munmap ffd n) w3) else w3) [(Close ffd, rc)] w'"
    by (auto simp: assms(2) close_fd_def ext_def)
  show ?thesis
    by (rule that [OF ext_trans [OF h3(1) ext_trans [OF h4(1) h5]]])
      (use mapping_delivered [OF h3(2)] h4(2) h3(3) in \<open>auto simp: quiet_last_map\<close>)
qed

lemma send_fake_sends:
  assumes "send_fake sfd b off kind k fa opt w = Some (s, w')"
  shows "sends sfd b off k w s w'"
  using assms
proof (cases rule: send_fake_cases)
  case (fails wa)
  have wa: "quietly w wa" by (simp add: fails(1) quietly_sys)
  from fails(3) have "quietly w w'"
  proof
    assume "\<exists>fd. fd < 0 \<and> call Memfd_create wa = (fd, w')"
    then obtain fd where "call Memfd_create wa = (fd, w')" by blast
    from quietly_trans [OF wa quietly_call [OF _ this]] show ?thesis by simp
  qed (simp add: wa)
  with sends_nothing show ?thesis by (simp add: fails(2))
next
  case (goes wa a ffd w1 pkt mapped w2 w3)
  have q1: "quietly w w1" using goes(1) quietly_trans [OF _ quietly_call [OF _ goes(3)]] by (simp add: quietly_sys)
  obtain t where t: "ext w2 t w'" "delivered sfd t = []" "settled t" "\<exists>r. (Close ffd, r) \<in> set t" "0 \<le> s \<longrightarrow> last_map ffd t [] = take k (drop off b)"
    by (rule send_fake_tail [OF goes(7,8)])
  from fake_send_calls [OF goes(6)] have "chunk sfd (take (nat s) (drop off b)) w1 w' \<and> - 1 \<le> s \<and> s \<le> int k"
  proof
    assume m: "s = - 1 \<and> maps w1 w2"
    then obtain h where "ext w1 h w2" "mapping h" by (auto simp: maps_def)
    with ext_trans [OF this(1) t(1)] mapping_delivered [OF this(2)] t(2,3) m show ?thesis
      by (auto simp: chunk_def)
  next
    assume "\<exists>w0 r. maps w1 w0 \<and> ext w0 [(Sendfile sfd ffd (int k), r)] w2 \<and> r_ret r = s \<and> - 1 \<le> s \<and> s \<le> int k"
    then obtain w0 r h where h: "ext w1 h w0" "mapping h" "ext w0 [(Sendfile sfd ffd (int k), r)] w2" "r_ret r = s"
        "- 1 \<le> s" "s \<le> int k"
      by (auto simp: maps_def)
    have "ext w1 (h @ [(Sendfile sfd ffd (int k), r)] @ t) w'" using ext_trans [OF h(1) ext_trans [OF h(3) t(1)]] .
    moreover have "delivered sfd (h @ [(Sendfile sfd ffd (int k), r)] @ t) = take (nat s) (drop off b)"
        "settled (h @ [(Sendfile sfd ffd (int k), r)] @ t)"
      using mapping_delivered [OF h(2)] t h(4-6) by (auto simp: min_def nat_le_iff)
    ultimately show ?thesis using h(5,6) by (auto simp: chunk_def)
  qed
  then have "chunk sfd (take (nat s) (drop off b)) w w'" "- 1 \<le> s" "s \<le> int k"
    using chunk_quiet_trans [OF q1] by simp_all
  with goes(5) show ?thesis unfolding sends_def by (intro exI [of _ "nat s"]) auto
qed

subsection \<open>The loop over the parts\<close>

lemma send_part_sends:
  assumes "send_part sfd b kind fa dp m off k w = Some (s, w')" "sockopt_ok (w_os w)"
  shows "sends sfd b off k w s w'"
proof (cases m)
  case DESYNC_FAKE
  show ?thesis
  proof (cases "k = 0")
    case True
    with assms(1) DESYNC_FAKE have "s = 0" "w' = w" by (simp_all add: send_part_def)
    then show ?thesis
      using True unfolding sends_def by (intro exI [of _ 0]) (simp_all add: chunk_quiet)
  qed (use assms DESYNC_FAKE in \<open>simp add: send_part_def send_fake_sends\<close>)
qed (use assms in \<open>simp_all add: send_part_def send_plain_sends send_disorder_sends send_oob_sends
       send_late_oob_sends\<close>)

lemma chunk_extend:
  assumes "chunk fd (take d (drop p b)) w w'" "chunk fd (take d' (drop (p + d) b)) w' w''"
  shows "chunk fd (take (d + d') (drop p b)) w w''"
  using chunk_trans [OF assms] by (simp add: take_add add.commute)

text \<open>From position \<open>lp\<close> on, the bytes up to the position that is returned were delivered.\<close>

definition reaches :: "int \<Rightarrow> byte list \<Rightarrow> int \<Rightarrow> world \<Rightarrow> int \<Rightarrow> world \<Rightarrow> bool" where
  "reaches fd b lp w v w' \<longleftrightarrow> (\<exists>d. chunk fd (take d (drop (nat lp) b)) w w' \<and>
     (v = - 1 \<or> lp \<le> v \<and> int d = v - lp) \<and> (d = 0 \<or> nat lp + d \<le> length b))"

lemma reaches_extend:
  assumes "chunk fd (take (nat (p - lp)) (drop (nat lp) b)) w w'" "lp \<le> p" "0 \<le> lp"
    and "p = lp \<or> p \<le> int (length b)" "reaches fd b p w' v w''"
  shows "reaches fd b lp w v w''"
proof -
  obtain d where d: "chunk fd (take d (drop (nat p) b)) w' w''" "v = - 1 \<or> p \<le> v \<and> int d = v - p"
      "d = 0 \<or> nat p + d \<le> length b"
    using assms(5) by (auto simp: reaches_def)
  have "nat lp + nat (p - lp) = nat p" using assms(2,3) by simp
  then have "chunk fd (take (nat (p - lp) + d) (drop (nat lp) b)) w w''"
    using chunk_extend [OF assms(1), of d w''] d(1) by simp
  then show ?thesis
    using d(2,3) assms(2-4) unfolding reaches_def by (intro exI [of _ "nat (p - lp) + d"]) auto
qed

lemma parts_loop_reaches:
  assumes "parts_loop sfd b kind host fa dp n offset ps lp w = Some (res, w')"
    and "sockopt_ok (w_os w)" "0 \<le> lp" "lp \<le> n"
  shows "case res of Inl v \<Rightarrow> reaches sfd b lp w v w' \<and> v \<le> n
     | Inr v \<Rightarrow> reaches sfd b lp w v w' \<and> lp \<le> v \<and> v \<le> n"
  using assms
proof (induction ps arbitrary: lp w)
  case Nil
  have "reaches sfd b lp w lp w" using chunk_quiet by (auto simp: reaches_def intro!: exI [of _ 0])
  with Nil show ?case by auto
next
  case (Cons p ps)
  have here: "reaches sfd b lp w lp w" using chunk_quiet by (auto simp: reaches_def intro!: exI [of _ 0])
  obtain pos where sp: "split_pos kind host n p = Some pos"
    using Cons.prems(1) by (auto simp: bind_eq_Some_conv)
  show ?case
  proof (cases pos)
    case None
    with Cons sp show ?thesis by simp
  next
    case (Some q)
    consider "offset \<noteq> 0 \<and> q \<le> offset" | "\<not> (offset \<noteq> 0 \<and> q \<le> offset)" "q < 0 \<or> q > n \<or> q < lp"
      | "\<not> (offset \<noteq> 0 \<and> q \<le> offset)" "lp \<le> q" "q \<le> n" by linarith
    then show ?thesis
    proof cases
      case 1
      with Cons sp Some show ?thesis by simp
    next
      case 2
      with Cons.prems here sp Some show ?thesis by auto
    next
      case 3
      with Cons.prems(1,3) sp Some obtain s w1 where
        sd: "send_part sfd b kind fa dp (part_m p) (nat lp) (nat (q - lp)) w = Some (s, w1)"
        and rest: "(if s < 0 then Some (Inl (if w_errno w1 = EAGAIN then lp else - 1), w1)
          else if s \<noteq> q - lp then Some (Inl (lp + s), w1)
          else parts_loop sfd b kind host fa dp n offset ps q w1) = Some (res, w')"
        by (auto simp: bind_eq_Some_conv)
      from send_part_sends [OF sd Cons.prems(2)] obtain d where
        d: "chunk sfd (take d (drop (nat lp) b)) w w1" "d \<le> nat (q - lp)" "s \<le> q - lp" "0 \<le> s \<longrightarrow> int d = s"
           "s < 0 \<and> w_errno w1 = EAGAIN \<longrightarrow> d = 0" "d = 0 \<or> nat lp + d \<le> length b"
        using 3 by (auto simp: sends_def)
      show ?thesis
      proof (cases "s \<noteq> q - lp")
        case True
        then have "res = Inl (if s < 0 then if w_errno w1 = EAGAIN then lp else - 1 else lp + s)" "w' = w1"
          using rest by (auto split: if_splits)
        with d 3 Cons.prems show ?thesis
          by (auto simp: reaches_def intro!: exI [of _ d])
      next
        case False
        with 3 have s: "\<not> s < 0" "s = q - lp" by simp_all
        then have loop: "parts_loop sfd b kind host fa dp n offset ps q w1 = Some (res, w')" using rest by simp
        have "d = nat (q - lp)" using d(4) s by linarith
        then have rng: "q = lp \<or> q \<le> int (length b)" using d(6) 3(2) Cons.prems(3) by linarith
        have "d = nat (q - lp)" using d(4) s by linarith
        with d(1) have c: "chunk sfd (take (nat (q - lp)) (drop (nat lp) b)) w w1" by simp
        from Cons.IH [OF loop] chunk_os [OF c] 3 Cons.prems
        show ?thesis
          using reaches_extend [OF c 3(2) Cons.prems(3)] rng by (auto split: sum.splits)
      qed
    qed
  qed
qed

subsection \<open>The whole request\<close>

lemma part_tls_grows: "part_tls b z n pos = Some (r, b') \<Longrightarrow> 0 \<le> r"
  by (auto simp: part_tls_def bind_eq_Some_conv split: if_splits)

lemma tlsrec_loop_grows: "tlsrec_loop z host ps i lp n b = Some (n', b') \<Longrightarrow> n \<le> n'"
proof (induction ps arbitrary: i lp n b)
  case (Cons p ps)
  then show ?case
    by (fastforce simp: Let_def bind_eq_Some_conv split: if_splits)
qed simp

lemma edit_request_grows: "edit_request z kind host dp n b = Some (ok, n', b') \<Longrightarrow> n \<le> n'"
  by (auto simp: edit_request_def bind_eq_Some_conv split: if_splits dest: tlsrec_loop_grows)

lemma drop_sack_quiet: "drop_sack fd w = (r, w') \<Longrightarrow> quietly w w'"
  using quietly_snd_call by (auto simp: drop_sack_def split_beta)

text \<open>What a position \<open>v\<close> that is returned tells of what was sent from \<open>p\<close> on.\<close>

definition tells :: "int \<Rightarrow> byte list \<Rightarrow> int \<Rightarrow> int \<Rightarrow> world \<Rightarrow> int \<Rightarrow> world \<Rightarrow> bool" where
  "tells fd b p n w v w' \<longleftrightarrow> (\<exists>d. chunk fd (take d (drop (nat p) b)) w w' \<and> (d = 0 \<or> nat p + d \<le> length b) \<and>
     (v = - 1 \<or> p \<le> v \<and> int d \<le> v - p \<and> (v < n \<or> never_short fd (w_os w) \<longrightarrow> int d = v - p)))"

lemma tells_reaches: "reaches fd b p w v w' \<Longrightarrow> tells fd b p n w v w'"
  unfolding tells_def reaches_def by fastforce

lemma tells_quiet: "quietly w w1 \<Longrightarrow> tells fd b p n w1 v w' \<Longrightarrow> tells fd b p n w v w'"
  using chunk_quiet_trans [of w w1] quietly_os [of w w1] unfolding tells_def by auto

lemma tells_nothing: "quietly w w' \<Longrightarrow> tells fd b p n w (- 1) w'"
  using chunk_quiet by (auto simp: tells_def intro!: exI [of _ 0])

lemma never_short_send:
  assumes "call (Send fd bs False) w = (r, w')" "never_short fd (w_os w)" "0 \<le> r"
  shows "r = int (length bs)"
proof -
  define R where "R = r_ret (w_os w (w_hist w) (Send fd bs False))"
  have "0 \<le> R \<Longrightarrow> int (length bs) \<le> R" using assms(2) unfolding never_short_def R_def by simp
  moreover have "r = (if R < 0 then - 1 else min R (int (length bs)))"
    using ext_call [OF assms(1)] by (simp add: comply_write_def R_def)
  ultimately show ?thesis using assms(3) by (simp split: if_splits)
qed

text \<open>The rest is sent at once; only a failure of that is noticed.\<close>

lemma last_send_tells:
  assumes "reaches fd b p w lp w2" "0 \<le> p" "p \<le> lp" "lp < n" "n0 \<le> n" "nat lp + nat (n - lp) \<le> length b"
    and c: "call (Send fd (take (nat (n - lp)) (drop (nat lp) b)) False) w2 = (r, w3)"
  shows "tells fd b p n0 w (if r < 0 then if w_errno w3 = EAGAIN then lp else - 1 else n) w3"
proof -
  let ?bs = "take (nat (n - lp)) (drop (nat lp) b)"
  obtain d where d: "chunk fd (take d (drop (nat p) b)) w w2" "d = 0 \<or> nat p + d \<le> length b" "int d = lp - p"
    using assms(1-3) by (auto simp: reaches_def)
  have l: "r \<le> n - lp" "lp + r \<le> int (length b)" using chunk_send(2) [OF c] assms(2-6) by auto
  have "nat p + d = nat lp" using d(3) assms(2,3) by linarith
  moreover have "chunk fd (take (nat r) (drop (nat lp) b)) w2 w3"
    using chunk_send(1) [OF c] l(1) by (simp add: min_def nat_le_iff split: if_splits)
  ultimately have ch: "chunk fd (take (d + nat r) (drop (nat p) b)) w w3"
    using chunk_extend [OF d(1)] by simp
  have full: "r = n - lp" if "never_short fd (w_os w)" "0 \<le> r"
    using never_short_send [OF c _ that(2)] that(1) chunk_os [OF d(1)] assms(4,6) by simp
  show ?thesis
  proof (cases "r < 0")
    case True
    with ch d(2,3) assms(3) show ?thesis by (auto simp: tells_def intro!: exI [of _ d])
  next
    case False
    with ch d(3) l assms(2-5) full show ?thesis
      unfolding tells_def by (intro exI [of _ "d + nat r"]) auto
  qed
qed

lemma desync_tells:
  assumes "desync sfd b bfsize n0 offset dst dp_c w = Some (r, b', w')"
    and "sockopt_ok (w_os w)" "0 \<le> offset" "offset \<le> int n0"
  shows "tells sfd b' offset (int n0) w r w'"
proof -
  obtain dp kind host ok n b1 where
    dp: "nth_dp w dp_c = Some dp" and cl: "classify b n0 = Some (kind, host)"
    and ed: "edit_request bfsize kind host dp (int n0) b = Some (ok, n, b1)"
    using assms(1) by (auto simp: desync_def bind_eq_Some_conv)
  obtain r1 w1 where 1: "(if dp_drop_sack dp then drop_sack sfd w else (0, w)) = (r1, w1)" by fastforce
  have q1: "quietly w w1" using 1 drop_sack_quiet by (auto split: if_splits)
  have n: "int n0 \<le> n" using edit_request_grows [OF ed] .
  show ?thesis
  proof (cases "\<not> ok \<or> r1 \<noteq> 0")
    case True
    then have "r = - 1" "w' = w \<or> w' = w1"
      using assms(1) dp cl ed 1 by (auto simp: desync_def split: if_splits)
    with tells_nothing [OF q1] tells_nothing [of w w] show ?thesis by auto
  next
    case False
    obtain res w2 where
      pl: "parts_loop sfd b1 kind host (get_family dst) dp n offset (dp_parts dp) offset w1 = Some (res, w2)"
      and fin: "(case res of
          Inl v \<Rightarrow> Some (v, b1, w2)
        | Inr lp \<Rightarrow>
            if lp < n
            then if lp < 0 then None
              else do {
                bytes \<leftarrow> mem_read b1 (nat lp) (nat (n - lp));
                let (r, w) = call (Send sfd bytes False) w2;
                if r < 0 then Some (if w_errno w = EAGAIN then lp else - 1, b1, w) else Some (n, b1, w) }
            else Some (n, b1, w2)) = Some (r, b', w')"
      using assms(1) dp cl ed 1 False by (auto simp: desync_def bind_eq_Some_conv)
    have "sockopt_ok (w_os w1)" "offset \<le> n" using assms(2,4) quietly_os [OF q1] n by simp_all
    note pr = parts_loop_reaches [OF pl this(1) assms(3) this(2)]
    show ?thesis
    proof (cases "\<exists>lp. res = Inr lp \<and> lp < n")
      case False
      with fin pr have "reaches sfd b1 offset w1 r w2" "b' = b1" "w' = w2" by (auto split: sum.splits)
      with tells_quiet [OF q1 tells_reaches] show ?thesis by simp
    next
      case True
      then obtain lp where lp: "res = Inr lp" "lp < n" by blast
      obtain r3 w3 where c: "call (Send sfd (take (nat (n - lp)) (drop (nat lp) b1)) False) w2 = (r3, w3)" by fastforce
      have "nat lp + nat (n - lp) \<le> length b1" "b' = b1" "w' = w3"
          "r = (if r3 < 0 then if w_errno w3 = EAGAIN then lp else - 1 else n)"
        using fin lp c by (auto simp: mem_read_def bind_eq_Some_conv split: if_splits)
      with tells_quiet [OF q1 last_send_tells [OF _ assms(3) _ lp(2) n _ c]] pr lp(1) show ?thesis by simp
    qed
  qed
qed


lemma sample_sockopt_ok: "sockopt_ok sample_os"
  by (simp add: sockopt_ok_def sample_os_def ok_ret_def EAGAIN_def)




subsection \<open>What an observer sees\<close>

text \<open>The TTL that a history leaves on a socket, and the payloads of its datagrams.\<close>

fun ttl_of :: "int \<Rightarrow> history \<Rightarrow> int option \<Rightarrow> int option" where
  "ttl_of fd [] t = t"
| "ttl_of fd ((c, r) # h) t =
     (case c of
        Setsockopt s (Ip_ttl v) \<Rightarrow> ttl_of fd h (if s = fd \<and> 0 \<le> r_ret r then Some v else t)
      | Setsockopt s (Ipv6_unicast_hops v) \<Rightarrow> ttl_of fd h (if s = fd \<and> 0 \<le> r_ret r then Some v else t)
      | _ \<Rightarrow> ttl_of fd h t)"

lemma ttl_of_append [simp]: "ttl_of fd (h @ h') t = ttl_of fd h' (ttl_of fd h t)"
  by (induction h arbitrary: t) (auto split: syscall.split sockopt.split)

definition datagrams :: "int \<Rightarrow> history \<Rightarrow> byte list list" where
  "datagrams fd h = concat (map (\<lambda>(c, r). case c of
      Sendto s bs a \<Rightarrow> if s = fd \<and> 0 \<le> r_ret r then [take (nat (r_ret r)) bs] else [] | _ \<Rightarrow> []) h)"

lemma datagrams_append [simp]: "datagrams fd (h @ h') = datagrams fd h @ datagrams fd h'"
  by (simp add: datagrams_def)

text \<open>The options that go with a fake packet do not change the TTL.\<close>

definition no_ttl :: "history \<Rightarrow> bool" where
  "no_ttl h \<longleftrightarrow> (\<forall>fd t. ttl_of fd h t = t) \<and> (\<forall>f bs. last_map f h bs = bs)"

lemma setttl_ext:
  assumes "setttl fd ttl fa w = (r, w')"
  shows "\<exists>h. ext w h w' \<and> (0 \<le> r \<longrightarrow> (\<forall>t. ttl_of fd h t = Some ttl)) \<and> (\<forall>f bs. last_map f h bs = bs)"
  using assms
  by (intro exI [of _ "[(Setsockopt fd (if fa = AF_INET then Ip_ttl ttl else Ipv6_unicast_hops ttl),
        comply (Setsockopt fd (if fa = AF_INET then Ip_ttl ttl else Ipv6_unicast_hops ttl))
          (w_os w (w_hist w) (Setsockopt fd (if fa = AF_INET then Ip_ttl ttl else Ipv6_unicast_hops ttl))))]"])
     (auto simp: setttl_def call_def sys_def ext_def Let_def split: if_splits)

lemma no_ttl_opts:
  "md5sig_opt on sfd k addr w = (r, w') \<Longrightarrow> \<exists>h. ext w h w' \<and> no_ttl h"
  "ip_options_opt ops fa sfd cl w = (r, w') \<Longrightarrow> \<exists>h. ext w h w' \<and> no_ttl h"
proof -
  have *: "\<exists>h. ext w h w' \<and> no_ttl h"
    if "call (Setsockopt sfd opt) w = (r, w')" "\<And>v. opt \<noteq> Ip_ttl v" "\<And>v. opt \<noteq> Ipv6_unicast_hops v"
    for sfd opt w r w'
    using ext_call [OF that(1)] that(2,3) by (fastforce simp: no_ttl_def split: sockopt.split)
  have e: "\<exists>h. ext w h w \<and> no_ttl h" for w
    by (intro exI [of _ "[]"]) (simp add: ext_def no_ttl_def)
  show "md5sig_opt on sfd k addr w = (r, w') \<Longrightarrow> \<exists>h. ext w h w' \<and> no_ttl h"
    using * e by (auto simp: md5sig_opt_def split: if_splits)
  show "ip_options_opt ops fa sfd cl w = (r, w') \<Longrightarrow> \<exists>h. ext w h w' \<and> no_ttl h"
    using * e by (auto simp: ip_options_opt_def split: if_splits option.splits)
qed

lemma fake_send_order:
  assumes "fake_send sfd ffd pkt pos fa addr opt w = (mapped, len, w')" "0 \<le> len"
  shows "\<exists>h r. ext w (h @ [(Sendfile sfd ffd (int pos), r)]) w' \<and> r_ret r = len \<and>
    (\<forall>t. ttl_of sfd h t = Some (if dp_ttl opt \<noteq> 0 then dp_ttl opt else 8)) \<and>
    (\<forall>bs. last_map ffd h bs = take pos pkt)"
proof -
  obtain r1 w1 where 1: "call (Ftruncate ffd (int pos)) w = (r1, w1)" by fastforce
  obtain r2 w2 where 2: "call (Mmap ffd (int pos)) w1 = (r2, w2)" by fastforce
  obtain r3 w3 where 3: "call (Map_write ffd (take pos pkt)) w2 = (r3, w3)" by fastforce
  obtain r4 w4 where 4: "setttl sfd (if dp_ttl opt \<noteq> 0 then dp_ttl opt else 8) fa w3 = (r4, w4)" by fastforce
  obtain r5 w5 where 5: "md5sig_opt (dp_md5sig opt) sfd 5 addr w4 = (r5, w5)" by fastforce
  obtain r6 w6 where 6: "ip_options_opt (dp_ip_options opt) fa sfd False w5 = (r6, w6)" by fastforce
  obtain r7 w7 where 7: "call (Sendfile sfd ffd (int pos)) w6 = (r7, w7)" by fastforce
  have s: "0 \<le> r4" "len = r7" "w' = w7"
    using assms 1 2 3 4 5 6 7 by (auto simp: fake_send_def split: if_splits)
  obtain x1 x2 x3 where x: "ext w [(Ftruncate ffd (int pos), x1)] w1" "ext w1 [(Mmap ffd (int pos), x2)] w2"
      "ext w2 [(Map_write ffd (take pos pkt), x3)] w3"
    using ext_call [OF 1] ext_call [OF 2] ext_call [OF 3] by blast
  obtain h4 where h4: "ext w3 h4 w4" "\<forall>t. ttl_of sfd h4 t = Some (if dp_ttl opt \<noteq> 0 then dp_ttl opt else 8)"
      "\<forall>f bs. last_map f h4 bs = bs"
    using setttl_ext [OF 4] s(1) by blast
  obtain h5 where h5: "ext w4 h5 w5" "no_ttl h5" using no_ttl_opts(1) [OF 5] by blast
  obtain h6 where h6: "ext w5 h6 w6" "no_ttl h6" using no_ttl_opts(2) [OF 6] by blast
  obtain r where r: "ext w6 [(Sendfile sfd ffd (int pos), r)] w7" "r_ret r = r7" using ext_call [OF 7] by blast
  let ?h = "[(Ftruncate ffd (int pos), x1), (Mmap ffd (int pos), x2), (Map_write ffd (take pos pkt), x3)] @ h4 @ h5 @ h6"
  have open_last: "last_map f (a @ b) bs = last_map f b (last_map f a bs)" if "\<forall>r. (Close f, r) \<notin> set a" for f a b bs
    using that by (induction a arbitrary: bs) (auto split: syscall.splits)
  have m: "maps w3 w6"
    using maps_trans [OF maps_trans [OF maps_quiet [OF setttl_quiet [OF 4]] maps_quiet [OF md5sig_quiet [OF 5]]]
        maps_quiet [OF ip_options_quiet [OF 6]]] .
  then have "mapping (h4 @ h5 @ h6)"
    using h4(1) h5(1) h6(1) by (auto simp: maps_def ext_def)
  moreover have "\<forall>r. (Close ffd, r) \<notin> set h" if "mapping h" for h
    using that by (fastforce simp: mapping_def)
  ultimately have nc: "\<forall>r. (Close ffd, r) \<notin> set h4" "\<forall>r. (Close ffd, r) \<notin> set h5"
    by simp_all
  have "last_map ffd ?h bs = take pos pkt" for bs
    using h4(3) h5(2) h6(2) open_last [OF nc(1)] open_last [OF nc(2)] by (simp add: no_ttl_def)
  moreover have "ttl_of sfd ?h t = Some (if dp_ttl opt \<noteq> 0 then dp_ttl opt else 8)" for t
    using h4(2) h5(2) h6(2) by (simp add: no_ttl_def)
  moreover have "ext w (?h @ [(Sendfile sfd ffd (int pos), r)]) w7"
    using ext_trans [OF x(1) ext_trans [OF x(2) ext_trans [OF x(3) ext_trans [OF h4(1)
        ext_trans [OF h5(1) ext_trans [OF h6(1) r(1)]]]]]] by simp
  ultimately show ?thesis using s r(2) by blast
qed



text \<open>A datagram is sent as a whole or not at all.\<close>

definition dgram_atomic :: "(history \<Rightarrow> syscall \<Rightarrow> sysret) \<Rightarrow> bool" where
  "dgram_atomic os \<longleftrightarrow>
     (\<forall>h fd bs a. 0 \<le> r_ret (os h (Sendto fd bs a)) \<longrightarrow> int (length bs) \<le> r_ret (os h (Sendto fd bs a)))"

lemma setttl_dgram: "setttl fd ttl fa w = (r, w') \<Longrightarrow> \<exists>h. ext w h w' \<and> datagrams s h = []"
  by (intro exI [of _ "[(Setsockopt fd (if fa = AF_INET then Ip_ttl ttl else Ipv6_unicast_hops ttl),
        comply (Setsockopt fd (if fa = AF_INET then Ip_ttl ttl else Ipv6_unicast_hops ttl))
          (w_os w (w_hist w) (Setsockopt fd (if fa = AF_INET then Ip_ttl ttl else Ipv6_unicast_hops ttl))))]"])
     (auto simp: setttl_def call_def sys_def ext_def Let_def datagrams_def split: if_splits)

lemma sendto_dgram:
  assumes "call (Sendto sfd bs a) w = (r, w')" "dgram_atomic (w_os w)" "0 \<le> r"
  shows "\<exists>h. ext w h w' \<and> datagrams sfd h = [bs]" "r = int (length bs)"
proof -
  define R where "R = r_ret (w_os w (w_hist w) (Sendto sfd bs a))"
  from ext_call [OF assms(1)] obtain x where x: "ext w [(Sendto sfd bs a, x)] w'" "r = r_ret x"
      "r = (if R < 0 then - 1 else min R (int (length bs)))"
    by (auto simp: comply_write_def R_def)
  have "0 \<le> R \<Longrightarrow> int (length bs) \<le> R" using assms(2) unfolding dgram_atomic_def R_def by blast
  then show r: "r = int (length bs)" using x(3) assms(3) by (auto split: if_splits)
  then show "\<exists>h. ext w h w' \<and> datagrams sfd h = [bs]"
    using x(1,2) by (intro exI [of _ "[(Sendto sfd bs a, x)]"]) (simp add: datagrams_def)
qed

lemma udp_fakes_dgram:
  assumes "udp_fakes c sfd pkt dst w = (True, w')" "dgram_atomic (w_os w)"
  shows "\<exists>h. ext w h w' \<and> datagrams sfd h = replicate c pkt"
  using assms
proof (induction c arbitrary: w)
  case 0
  then show ?case by (auto simp: ext_def datagrams_def intro!: exI [of _ "[]"])
next
  case (Suc c)
  obtain r w1 where 1: "call (Sendto sfd pkt dst) w = (r, w1)" by fastforce
  with Suc.prems have r: "0 \<le> r" "udp_fakes c sfd pkt dst w1 = (True, w')" by (auto split: if_splits)
  obtain h1 where h1: "ext w h1 w1" "datagrams sfd h1 = [pkt]" using sendto_dgram(1) [OF 1 Suc.prems(2) r(1)] by blast
  then have "dgram_atomic (w_os w1)" using Suc.prems(2) by (simp add: ext_def)
  from Suc.IH [OF r(2) this] obtain h2 where "ext w1 h2 w'" "datagrams sfd h2 = replicate c pkt" by blast
  with h1 ext_trans [OF h1(1)] show ?case by (intro exI [of _ "h1 @ h2"]) simp
qed

text \<open>C26: A datagram of a UDP association is preceded by exactly the configured number of fake
  datagrams, each carrying the fake packet from its offset on; when \<open>desync_udp\<close> does not fail, the
  datagram itself is sent after them, unchanged, and its length is returned.\<close>

theorem desync_udp_order:
  assumes "desync_udp sfd b off n dst dp_c w = Some (r, w')" "0 \<le> r" "dgram_atomic (w_os w)"
    and "nth_dp w dp_c = Some dp"
    and "fake_from (case dp_fake_data dp of Some d \<Rightarrow> d | None \<Rightarrow> w_fake_udp w) (dp_fake_offset dp) = Some pkt"
  shows "r = int n \<and> (\<exists>h. w_hist w' = w_hist w @ h \<and>
    datagrams sfd h = replicate (nat (dp_udp_fake_count dp)) pkt @ [take n (drop off b)])"
proof -
  let ?fa = "get_family dst"
  have "\<exists>w1 h1. ext w h1 w1 \<and> datagrams sfd h1 = replicate (nat (dp_udp_fake_count dp)) pkt \<and>
      off + n \<le> length b \<and> call (Sendto sfd (take n (drop off b)) dst) w1 = (r, w')"
  proof (cases "dp_udp_fake_count dp = 0")
    case True
    have "ext w [] w" "datagrams sfd [] = []" by (simp_all add: ext_def datagrams_def)
    with True assms show ?thesis
      by (intro exI [of _ w] exI [of _ "[]"]) (auto simp: desync_udp_def bind_eq_Some_conv mem_read_Some)
  next
    case False
    obtain r1 w1 where 1: "setttl sfd (if dp_ttl dp \<noteq> 0 then dp_ttl dp else 8) ?fa w = (r1, w1)" by fastforce
    obtain ok w2 where 2: "udp_fakes (nat (dp_udp_fake_count dp)) sfd pkt dst w1 = (ok, w2)" by fastforce
    obtain r3 w3 where 3: "setttl sfd (pr_def_ttl (w_params w2)) ?fa w2 = (r3, w3)" by fastforce
    have s: "0 \<le> r1" ok "0 \<le> r3" "off + n \<le> length b" "call (Sendto sfd (take n (drop off b)) dst) w3 = (r, w')"
      using assms(1,2,4,5) False 1 2 3
      by (auto simp: desync_udp_def bind_eq_Some_conv mem_read_Some split: if_splits)
    obtain h1 where h1: "ext w h1 w1" "datagrams sfd h1 = []" using setttl_dgram [OF 1] by blast
    then have "dgram_atomic (w_os w1)" using assms(3) by (simp add: ext_def)
    with udp_fakes_dgram [of _ sfd pkt dst w1 w2] 2 s(2) obtain h2 where
      h2: "ext w1 h2 w2" "datagrams sfd h2 = replicate (nat (dp_udp_fake_count dp)) pkt" by auto
    obtain h3 where h3: "ext w2 h3 w3" "datagrams sfd h3 = []" using setttl_dgram [OF 3] by blast
    have "ext w (h1 @ h2 @ h3) w3" using ext_trans [OF h1(1) ext_trans [OF h2(1) h3(1)]] .
    with h1 h2 h3 s show ?thesis by (intro exI [of _ w3] exI [of _ "h1 @ h2 @ h3"]) simp
  qed
  then obtain w1 h1 where h1: "ext w h1 w1" "datagrams sfd h1 = replicate (nat (dp_udp_fake_count dp)) pkt"
      "off + n \<le> length b" and c: "call (Sendto sfd (take n (drop off b)) dst) w1 = (r, w')" by blast
  have at: "dgram_atomic (w_os w1)" using h1(1) assms(3) by (simp add: ext_def)
  obtain h2 where h2: "ext w1 h2 w'" "datagrams sfd h2 = [take n (drop off b)]"
    using sendto_dgram(1) [OF c at assms(2)] by blast
  have "r = int n" using sendto_dgram(2) [OF c at assms(2)] h1(3) by simp
  moreover have "w_hist w' = w_hist w @ (h1 @ h2)" using ext_trans [OF h1(1) h2(1)] by (simp add: ext_def)
  moreover have "datagrams sfd (h1 @ h2) = replicate (nat (dp_udp_fake_count dp)) pkt @ [take n (drop off b)]"
    using h1(2) h2(2) by simp
  ultimately show ?thesis by blast
qed

theorem desync_udp_order_witness:
  "\<exists>w'. desync_udp 7 [1, 2, 3, 4] 1 3 zero_addr 0 sample_world = Some (3, w') \<and>
     datagrams 7 (w_hist w') = [udp_data, udp_data, [2, 3, 4]]"
proof -
  have dp: "nth_dp sample_world 0 = Some sample_dp"
    by (simp add: nth_dp_def sample_world_def sample_params_def)
  have ff: "fake_from (case dp_fake_data sample_dp of Some d \<Rightarrow> d | None \<Rightarrow> w_fake_udp sample_world)
      (dp_fake_offset sample_dp) = Some udp_data"
    by (simp add: sample_dp_def fake_from_def sample_world_def)
  have at: "dgram_atomic (w_os sample_world)"
    by (simp add: dgram_atomic_def sample_world_def sample_os_def ok_ret_def)
  obtain w' where d: "desync_udp 7 [1, 2, 3, 4] 1 3 zero_addr 0 sample_world = Some (3, w')"
    by (simp add: desync_udp_def nth_dp_def sample_params_def sample_dp_def fake_from_def setttl_def
        call_def sys_def Let_def mem_read_def sample_world_def sample_os_def ok_ret_def comply_write_def
        numeral_2_eq_2 udp_data_def)
  have "w_hist sample_world = []" "nat (dp_udp_fake_count sample_dp) = 2" by (simp_all add: sample_world_def sample_dp_def)
  with desync_udp_order [OF d _ at dp ff] d show ?thesis by (auto simp: numeral_2_eq_2)
qed

end
