(* ===== verification/Socks.thy ===== *)
theory Socks
  imports World
begin

text \<open>
  The SOCKS side of \<open>src/app/src/main/cpp/byedpi/proxy.c\<close>: addresses (\<open>map_fix\<close>, \<open>addr_equ\<close>,
  \<open>resolve\<close>), the greeting of version 5, replies, and the requests of versions 4 and 5. A request is
  a position \<open>off\<close> in the scratch buffer and the number \<open>n\<close> of bytes received there; the structures
  \<open>s4_req\<close>, \<open>s5_req\<close> and \<open>s5_rep\<close> are read and written as the packed bytes they overlay.
\<close>

section \<open>Definitions\<close>

definition S_AUTH_NONE :: byte where "S_AUTH_NONE = 0"
definition S_AUTH_BAD :: byte where "S_AUTH_BAD = 255"
definition S_ATP_I4 :: byte where "S_ATP_I4 = 1"
definition S_ATP_ID :: byte where "S_ATP_ID = 3"
definition S_ATP_I6 :: byte where "S_ATP_I6 = 4"
definition S_CMD_CONN :: byte where "S_CMD_CONN = 1"
definition S_CMD_AUDP :: byte where "S_CMD_AUDP = 3"
definition S_ER_OK :: int where "S_ER_OK = 0"
definition S_ER_GEN :: int where "S_ER_GEN = 1"
definition S_ER_NET :: int where "S_ER_NET = 3"
definition S_ER_HOST :: int where "S_ER_HOST = 4"
definition S_ER_CONN :: int where "S_ER_CONN = 5"
definition S_ER_CMD :: int where "S_ER_CMD = 7"
definition S_ER_ATP :: int where "S_ER_ATP = 8"
definition S4_OK :: byte where "S4_OK = 90"
definition S4_ER :: byte where "S4_ER = 91"
definition S_VER5 :: byte where "S_VER5 = 5"
definition S_VER4 :: byte where "S_VER4 = 4"
definition S_SIZE_MIN :: nat where "S_SIZE_MIN = 8"
definition S_SIZE_I4 :: nat where "S_SIZE_I4 = 10"
definition S_SIZE_I6 :: nat where "S_SIZE_I6 = 22"
definition S_SIZE_ID :: nat where "S_SIZE_ID = 7"

subsection \<open>Addresses\<close>

definition v4_mapped :: "byte list" where
  "v4_mapped = replicate 10 0 @ [255, 255]"

definition map_fix :: "sockaddr_ina \<Rightarrow> bool \<Rightarrow> sockaddr_ina" where
  "map_fix addr f6 =
     (if sa_family addr = AF_INET \<and> f6
      then addr\<lparr>sa_family := AF_INET6, sa_addr16 := v4_mapped @ sa_word4 addr\<rparr>
      else if take 12 (sa_addr16 addr) = v4_mapped \<and> \<not> f6
      then addr\<lparr>sa_family := AF_INET, sa_word4 := drop 12 (sa_addr16 addr)\<rparr>
      else addr)"

definition addr_equ :: "sockaddr_ina \<Rightarrow> sockaddr_ina \<Rightarrow> bool" where
  "addr_equ a b =
     (if sa_family a = AF_INET then sa_word4 a = sa_word4 b else sa_addr16 a = sa_addr16 b)"

text \<open>A \<open>uint16_t\<close> read from or written to memory.\<close>

definition get_u16 :: "byte list \<Rightarrow> nat \<Rightarrow> nat option" where
  "get_u16 b i = do { l \<leftarrow> rd b i; h \<leftarrow> rd b (i + 1); Some (unat l + unat h * 256) }"

text \<open>Assignment of a \<open>sockaddr_in\<close>: its sixteen bytes end with the first half of \<open>sin6_addr\<close>.\<close>

definition set_in :: "sockaddr_ina \<Rightarrow> sockaddr_ina \<Rightarrow> sockaddr_ina" where
  "set_in addr new = addr\<lparr>sa_family := sa_family new, sa_port := sa_port new, sa_word4 := sa_word4 new,
     sa_addr16 := take 8 (sa_addr16 new) @ drop 8 (sa_addr16 addr)\<rparr>"

text \<open>A call stores an address: an IPv4 address fills only the first half of the union.\<close>

definition set_sa :: "sockaddr_ina \<Rightarrow> sockaddr_ina \<Rightarrow> sockaddr_ina" where
  "set_sa addr new = (if sa_family new = AF_INET6 then new else set_in addr new)"

text \<open>The host name is the C string in the \<open>len\<close> bytes at \<open>host\<close>, whose end is marked with a null
  byte during the call. A result other than 0 stands for an error as well as for no result.\<close>

definition resolve ::
    "byte list \<Rightarrow> nat \<Rightarrow> nat \<Rightarrow> sockaddr_ina \<Rightarrow> nat \<Rightarrow> world \<Rightarrow> (int \<times> sockaddr_ina \<times> world) option" where
  "resolve b host len addr type w = do {
     rchar \<leftarrow> rd b (host + len);
     name \<leftarrow> mem_read b host len;
     let (res, w) = sys (Getaddrinfo (takeWhile (\<lambda>c. c \<noteq> 0) name) type
       (if pr_ipv6 (w_params w) then 0 else AF_INET)) w;
     if r_ret res \<noteq> 0 then Some (- 1, addr, w)
     else Some (0, set_sa addr (r_addr res), w) }"

subsection \<open>Greeting and replies\<close>

definition auth_socks5 :: "int \<Rightarrow> byte list \<Rightarrow> nat \<Rightarrow> world \<Rightarrow> (int \<times> byte list \<times> world) option" where
  "auth_socks5 fd buffer n w =
     (if n \<le> 2 then Some (- 1, buffer, w)
      else do {
        nm \<leftarrow> rd buffer 1;
        if unat nm \<noteq> n - 2 then Some (- 1, buffer, w)
        else do {
          methods \<leftarrow> mem_read buffer 2 (n - 2);
          let c = (if S_AUTH_NONE \<in> set methods then S_AUTH_NONE else S_AUTH_BAD);
          b \<leftarrow> wr buffer 1 c;
          bytes \<leftarrow> mem_read b 0 2;
          let (r, w) = call (Send fd bytes False) w;
          Some (if r < 0 then - 1 else if c \<noteq> S_AUTH_BAD then 0 else - 1, b, w) } })"

definition resp_s5_error :: "int \<Rightarrow> int \<Rightarrow> world \<Rightarrow> int \<times> world" where
  "resp_s5_error fd e w =
     call (Send fd ([5, of_int e, 0, S_ATP_I4] @ replicate 6 0) False) w"

definition s5_code :: "int \<Rightarrow> int" where
  "s5_code e =
     (if e = 0 then S_ER_OK
      else if e = ECONNREFUSED then S_ER_CONN
      else if e = EHOSTUNREACH \<or> e = ETIMEDOUT then S_ER_HOST
      else if e = ENETUNREACH then S_ER_NET
      else S_ER_GEN)"

definition resp_error :: "int \<Rightarrow> int \<Rightarrow> nat \<Rightarrow> world \<Rightarrow> int \<times> world" where
  "resp_error fd e flag w =
     (if flag = FLAG_S4
      then call (Send fd ([0, if e \<noteq> 0 then S4_ER else S4_OK] @ replicate 6 0) False) w
      else if flag = FLAG_S5 then resp_s5_error fd (s5_code e) w
      else (0, w))"

subsection \<open>Requests\<close>

definition s4_get_addr ::
    "byte list \<Rightarrow> nat \<Rightarrow> sockaddr_ina \<Rightarrow> world \<Rightarrow> (int \<times> sockaddr_ina \<times> world) option" where
  "s4_get_addr buff n dst w =
     (if n < 9 then Some (- 1, dst, w)
      else do {
        cmd \<leftarrow> rd buff 1;
        if cmd \<noteq> S_CMD_CONN then Some (- 1, dst, w)
        else do {
          i4 \<leftarrow> mem_read buff 4 4;
          port \<leftarrow> get_u16 buff 2;
          if take 3 i4 = [0, 0, 0]
          then do {
            z \<leftarrow> rd buff (n - 1);
            if \<not> pr_resolve (w_params w) \<or> z \<noteq> 0 then Some (- 1, dst, w)
            else do {
              id_end \<leftarrow> memchr buff 8 0 (length buff - 8);
              id_end \<leftarrow> id_end;
              let len = int n - int id_end - 2;
              if len < 3 \<or> len > 255 then Some (- 1, dst, w)
              else do {
                (r, dst, w) \<leftarrow> resolve buff (id_end + 1) (nat len) dst SOCK_STREAM w;
                if r \<noteq> 0 then Some (- 1, dst, w) else Some (0, dst\<lparr>sa_port := port\<rparr>, w) } } }
          else Some (0, dst\<lparr>sa_family := AF_INET, sa_word4 := i4, sa_port := port\<rparr>, w) } })"

text \<open>An address type that is not known gives the length 0, so that the port is read from the two
  bytes before the request.\<close>

definition s5_addr_len :: "byte \<Rightarrow> byte \<Rightarrow> nat" where
  "s5_addr_len atp id_len =
     (if atp = S_ATP_I4 then S_SIZE_I4
      else if atp = S_ATP_ID then unat id_len + S_SIZE_ID
      else if atp = S_ATP_I6 then S_SIZE_I6 else 0)"

definition s5_get_addr ::
    "byte list \<Rightarrow> nat \<Rightarrow> nat \<Rightarrow> sockaddr_ina \<Rightarrow> nat \<Rightarrow> world \<Rightarrow> (int \<times> sockaddr_ina \<times> world) option" where
  "s5_get_addr buffer off n addr type w =
     (if n < S_SIZE_MIN then Some (- S_ER_GEN, addr, w)
      else do {
        atp \<leftarrow> rd buffer (off + 3);
        id_len \<leftarrow> rd buffer (off + 4);
        let k = s5_addr_len atp id_len;
        if n < k then Some (- S_ER_GEN, addr, w)
        else do {
          (e, addr, w) \<leftarrow>
            (if atp = S_ATP_I4
             then do { i4 \<leftarrow> mem_read buffer (off + 4) 4;
                       Some (0, addr\<lparr>sa_family := AF_INET, sa_word4 := i4\<rparr>, w) }
             else if atp = S_ATP_ID
             then (if \<not> pr_resolve (w_params w) then Some (- S_ER_ATP, addr, w)
                   else if unat id_len < 3 then Some (- S_ER_HOST, addr, w)
                   else do {
                     (r, addr, w) \<leftarrow> resolve buffer (off + 5) (unat id_len) addr type w;
                     Some (if r \<noteq> 0 then - S_ER_HOST else 0, addr, w) })
             else if atp = S_ATP_I6
             then (if \<not> pr_ipv6 (w_params w) then Some (- S_ER_ATP, addr, w)
                   else do { i6 \<leftarrow> mem_read buffer (off + 4) 16;
                             Some (0, addr\<lparr>sa_family := AF_INET6, sa_addr16 := i6\<rparr>, w) })
             else Some (0, addr, w));
          if e < 0 then Some (e, addr, w)
          else if off + k < 2 then None
          else do {
            port \<leftarrow> get_u16 buffer (off + k - 2);
            Some (int k, addr\<lparr>sa_port := port\<rparr>, w) } } })"

definition s5_set_addr ::
    "byte list \<Rightarrow> nat \<Rightarrow> nat \<Rightarrow> sockaddr_ina \<Rightarrow> bool \<Rightarrow> (int \<times> byte list) option" where
  "s5_set_addr buffer off n addr end =
     (if n < S_SIZE_I4 then Some (- 1, buffer)
      else if sa_family addr = AF_INET
      then (if end \<and> off < S_SIZE_I4 then None
        else do {
          let r = (if end then off - S_SIZE_I4 else off);
          b \<leftarrow> wr buffer (r + 3) S_ATP_I4;
          b \<leftarrow> mem_write b (r + 4) (sa_word4 addr);
          b \<leftarrow> mem_write b (r + 8) (le16 (sa_port addr));
          Some (int S_SIZE_I4, b) })
      else if n < S_SIZE_I6 then Some (- 1, buffer)
      else if end \<and> off < S_SIZE_I6 then None
      else do {
        let r = (if end then off - S_SIZE_I6 else off);
        b \<leftarrow> wr buffer (r + 3) S_ATP_I6;
        b \<leftarrow> mem_write b (r + 4) (sa_addr16 addr);
        b \<leftarrow> mem_write b (r + 20) (le16 (sa_port addr));
        Some (int S_SIZE_I6, b) })"

section \<open>Lemmas\<close>

lemmas socks_sizes = S_SIZE_MIN_def S_SIZE_I4_def S_SIZE_I6_def S_SIZE_ID_def

lemma get_u16_inside [layout]:
  "Suc i < length b \<Longrightarrow> get_u16 b i = Some (unat (b ! i) + unat (b ! Suc i) * 256)"
  by (simp add: get_u16_def)

lemma get_u16_le16: "i = length us \<Longrightarrow> x < 65536 \<Longrightarrow> get_u16 (us @ le16 x @ vs) i = Some x"
  by (simp add: get_u16_def le16_def rd_def nth_append unat_hi8 unat_lo8)

lemma resolve_inside:
  "host + len < length b \<Longrightarrow> \<exists>r. resolve b host len addr type w = Some r"
  by (simp add: resolve_def mem_read_def split_beta)

text \<open>An IPv4 address and its IPv4-mapped IPv6 form are converted into each other without loss:
  \<open>map_fix\<close> to IPv6 and back keeps the address and the port.\<close>

theorem map_fix_roundtrip:
  assumes "addr_ok a" "sa_family a = AF_INET"
  shows "sa_family (map_fix a True) = AF_INET6 \<and>
    map_fix (map_fix a True) False = (map_fix a True)\<lparr>sa_family := AF_INET\<rparr> \<and>
    sa_word4 (map_fix (map_fix a True) False) = sa_word4 a \<and> sa_port (map_fix (map_fix a True) False) = sa_port a"
  using assms by (simp add: map_fix_def v4_mapped_def AF_INET_def AF_INET6_def)

theorem map_fix_roundtrip_witness:
  "sa_word4 (map_fix (map_fix (zero_addr\<lparr>sa_family := AF_INET, sa_word4 := [127, 0, 0, 1]\<rparr>) True) False) =
     [127, 0, 0, 1]"
proof -
  let ?a = "zero_addr\<lparr>sa_family := AF_INET, sa_word4 := [127, 0, 0, 1]\<rparr>"
  have "addr_ok ?a" "sa_family ?a = AF_INET" by (simp_all add: addr_ok_def zero_addr_def AF_INET_def)
  from map_fix_roundtrip [OF this] have
    h: "sa_word4 (map_fix (map_fix ?a True) False) = sa_word4 ?a" by blast
  show ?thesis by (rule trans [OF h]) simp
qed

lemma write_req:
  assumes "length us = off" "length g = length ip"
  shows "wr (us @ v # c # z # t # g @ p # q # vs) (off + 3) y = Some (us @ v # c # z # y # g @ p # q # vs)"
    and "mem_write (us @ v # c # z # y # g @ p # q # vs) (off + 4) ip =
      Some (us @ v # c # z # y # ip @ p # q # vs)"
    and "off + 4 + length ip = j \<Longrightarrow> mem_write (us @ v # c # z # y # ip @ p # q # vs) j (le16 x) =
      Some (us @ v # c # z # y # ip @ le16 x @ vs)"
  using assms mem_write_append [of "off + 4" "us @ [v, c, z, y]" g ip "p # q # vs"]
    mem_write_append [of j "us @ [v, c, z, y] @ ip" "[p, q]" "le16 x" vs]
  by (simp_all add: wr_def list_update_append numeral_eq_Suc le16_def)

lemma gap_split:
  assumes "length gap = k + 6"
  obtains v c z t g p q where "gap = v # c # z # t # g @ [p, q]" "length g = k"
proof -
  obtain v c z t g' where g': "gap = v # c # z # t # g'" "length g' = k + 2"
    using assms by (auto simp: numeral_eq_Suc length_Suc_conv)
  then have "g' = take k g' @ [g' ! k, g' ! Suc k]"
    by (auto simp: list_eq_iff_nth_eq nth_append less_Suc_eq)
  with g' that [of v c z t "take k g'" "g' ! k" "g' ! Suc k"] show thesis by simp
qed

lemma read_req:
  assumes "length us = off" "length ip = m" "k = m + 6" "x < 65536" "0 < m"
    and b_def: "b = us @ v # c # z # y # ip @ le16 x @ vs"
  shows "rd b (off + 3) = Some y" "rd b (off + 4) = Some (hd ip)" "mem_read b (off + 4) m = Some ip"
    "get_u16 b (off + k - 2) = Some x"
  using assms(1-5) get_u16_le16 [of "off + k - 2" "us @ [v, c, z, y] @ ip" x vs]
    mem_read_append [of "off + 4" "us @ [v, c, z, y]" m ip "le16 x @ vs"]
  by (cases ip; simp add: b_def nth_append le16_def)+

lemma s5_get_addr_known:
  assumes "rd b (off + 3) = Some y" "rd b (off + 4) = Some x" "get_u16 b (off + k - 2) = Some port" "k \<le> n"
  shows "y = S_ATP_I4 \<Longrightarrow> k = S_SIZE_I4 \<Longrightarrow> mem_read b (off + 4) 4 = Some ip \<Longrightarrow>
      s5_get_addr b off n c type w =
        Some (int k, c\<lparr>sa_family := AF_INET, sa_word4 := ip, sa_port := port\<rparr>, w)"
    and "y = S_ATP_I6 \<Longrightarrow> k = S_SIZE_I6 \<Longrightarrow> mem_read b (off + 4) 16 = Some ip \<Longrightarrow> pr_ipv6 (w_params w) \<Longrightarrow>
      s5_get_addr b off n c type w =
        Some (int k, c\<lparr>sa_family := AF_INET6, sa_addr16 := ip, sa_port := port\<rparr>, w)"
  using assms by (simp_all add: s5_get_addr_def socks_sizes s5_addr_len_def S_ATP_I4_def S_ATP_ID_def
      S_ATP_I6_def del: rd_Some_iff)

lemma s5_set_addr_known:
  assumes "length us = off" "length g = length ip"
  shows "sa_family a = AF_INET \<Longrightarrow> sa_word4 a = ip \<Longrightarrow> length ip = 4 \<Longrightarrow>
      s5_set_addr (us @ v # c # z # t # g @ p # q # vs) off S_SIZE_I6 a False =
        Some (int S_SIZE_I4, us @ v # c # z # S_ATP_I4 # ip @ le16 (sa_port a) @ vs)"
    and "sa_family a \<noteq> AF_INET \<Longrightarrow> sa_addr16 a = ip \<Longrightarrow> length ip = 16 \<Longrightarrow>
      s5_set_addr (us @ v # c # z # t # g @ p # q # vs) off S_SIZE_I6 a False =
        Some (int S_SIZE_I6, us @ v # c # z # S_ATP_I6 # ip @ le16 (sa_port a) @ vs)"
  using write_req [OF assms] by (simp_all add: s5_set_addr_def socks_sizes del: append.simps append_assoc)

lemma s5_roundtrip_known:
  assumes "length us = off" "length g = length ip" "port < 65536" "port = sa_port a" "k = length ip + 6" "k \<le> n"
  shows "sa_family a = AF_INET \<Longrightarrow> sa_word4 a = ip \<Longrightarrow> length ip = 4 \<Longrightarrow>
      \<exists>b. s5_set_addr (us @ v # c0 # z # t # g @ p # q # vs) off S_SIZE_I6 a False = Some (int k, b) \<and>
        length b = length us + k + length vs \<and> drop (off + k) b = vs \<and>
        s5_get_addr b off n c type w =
          Some (int k, c\<lparr>sa_family := AF_INET, sa_word4 := sa_word4 a, sa_port := sa_port a\<rparr>, w)"
    and "sa_family a \<noteq> AF_INET \<Longrightarrow> sa_addr16 a = ip \<Longrightarrow> length ip = 16 \<Longrightarrow> pr_ipv6 (w_params w) \<Longrightarrow>
      \<exists>b. s5_set_addr (us @ v # c0 # z # t # g @ p # q # vs) off S_SIZE_I6 a False = Some (int k, b) \<and>
        length b = length us + k + length vs \<and> drop (off + k) b = vs \<and>
        s5_get_addr b off n c type w =
          Some (int k, c\<lparr>sa_family := AF_INET6, sa_addr16 := sa_addr16 a, sa_port := sa_port a\<rparr>, w)"
proof -
  let ?b = "\<lambda>y. us @ v # c0 # z # y # ip @ le16 port @ vs"
  have l: "length (?b y) = length us + k + length vs" "drop (off + k) (?b y) = vs" for y
    using assms(1,5) by (simp_all add: le16_def numeral_eq_Suc)
  note r = read_req [OF assms(1) refl assms(5,3) _ refl, of v c0 z _ vs]
  { assume a: "sa_family a = AF_INET" "sa_word4 a = ip" "length ip = 4"
    with s5_get_addr_known(1) [OF r(1,2,4) assms(6)] r(3) assms(5)
    have "s5_get_addr (?b S_ATP_I4) off n c type w =
          Some (int k, c\<lparr>sa_family := AF_INET, sa_word4 := sa_word4 a, sa_port := sa_port a\<rparr>, w)"
      unfolding S_SIZE_I4_def assms(4) by simp
    with l s5_set_addr_known(1) [OF assms(1,2) a] a assms(4,5) show
      "\<exists>b. s5_set_addr (us @ v # c0 # z # t # g @ p # q # vs) off S_SIZE_I6 a False = Some (int k, b) \<and>
        length b = length us + k + length vs \<and> drop (off + k) b = vs \<and>
        s5_get_addr b off n c type w =
          Some (int k, c\<lparr>sa_family := AF_INET, sa_word4 := sa_word4 a, sa_port := sa_port a\<rparr>, w)"
      unfolding S_SIZE_I4_def by (intro exI [of _ "?b S_ATP_I4"]) simp }
  { assume a: "sa_family a \<noteq> AF_INET" "sa_addr16 a = ip" "length ip = 16" "pr_ipv6 (w_params w)"
    with s5_get_addr_known(2) [OF r(1,2,4) assms(6)] r(3) assms(5)
    have "s5_get_addr (?b S_ATP_I6) off n c type w =
          Some (int k, c\<lparr>sa_family := AF_INET6, sa_addr16 := sa_addr16 a, sa_port := sa_port a\<rparr>, w)"
      unfolding S_SIZE_I6_def assms(4) by simp
    with l s5_set_addr_known(2) [OF assms(1,2) a(1-3)] a assms(4,5) show
      "\<exists>b. s5_set_addr (us @ v # c0 # z # t # g @ p # q # vs) off S_SIZE_I6 a False = Some (int k, b) \<and>
        length b = length us + k + length vs \<and> drop (off + k) b = vs \<and>
        s5_get_addr b off n c type w =
          Some (int k, c\<lparr>sa_family := AF_INET6, sa_addr16 := sa_addr16 a, sa_port := sa_port a\<rparr>, w)"
      unfolding S_SIZE_I6_def by (intro exI [of _ "?b S_ATP_I6"]) simp }
qed

lemma s5_roundtrip:
  assumes "addr_ok a" "sa_family a = AF_INET \<or> sa_family a = AF_INET6 \<and> pr_ipv6 (w_params w)"
    and "k = (if sa_family a = AF_INET then S_SIZE_I4 else S_SIZE_I6)" "length us = off"
    and "length gap = k" "k \<le> n"
  shows "\<exists>b. s5_set_addr (us @ gap @ vs) off S_SIZE_I6 a False = Some (int k, b) \<and>
    length b = length (us @ gap @ vs) \<and> drop (off + k) b = vs \<and>
    s5_get_addr b off n c type w =
      Some (int k, if sa_family a = AF_INET
        then c\<lparr>sa_family := AF_INET, sa_word4 := sa_word4 a, sa_port := sa_port a\<rparr>
        else c\<lparr>sa_family := AF_INET6, sa_addr16 := sa_addr16 a, sa_port := sa_port a\<rparr>, w)"
proof (cases "sa_family a = AF_INET")
  case True
  have k: "k = 10" using assms(3) True by (simp add: socks_sizes)
  have "length gap = 4 + 6" using assms(5) k by simp
  then obtain v c0 z t g p q where gap: "gap = v # c0 # z # t # g @ [p, q]" "length g = 4"
    by (rule gap_split)
  have l: "length (sa_word4 a) = 4" "sa_port a < 65536" using assms(1) by (auto simp: addr_ok_def)
  from s5_roundtrip_known(1) [OF assms(4) _ l(2) refl _ assms(6) True refl l(1), of g v c0 z t p q vs c type w]
  show ?thesis using True l gap assms(4) k by (simp add: add.assoc)
next
  case False
  then have f: "sa_family a = AF_INET6" "pr_ipv6 (w_params w)" using assms(2) by auto
  have k: "k = 22" using assms(3) False by (simp add: socks_sizes)
  have "length gap = 16 + 6" using assms(5) k by simp
  then obtain v c0 z t g p q where gap: "gap = v # c0 # z # t # g @ [p, q]" "length g = 16"
    by (rule gap_split)
  have l: "length (sa_addr16 a) = 16" "sa_port a < 65536" using assms(1) by (auto simp: addr_ok_def)
  from s5_roundtrip_known(2) [OF assms(4) _ l(2) refl _ assms(6) False refl l(1) f(2), of g v c0 z t p q vs c type]
  show ?thesis using False l gap assms(4) k by (simp add: add.assoc)
qed

text \<open>C25: What \<open>s5_set_addr\<close> writes in front of the rest of a buffer, \<open>s5_get_addr\<close> reads back: the family,
  the address and the port, for both families. The bytes after the request stay as they are.\<close>

theorem s5_addr_roundtrip:
  assumes "addr_ok a" "sa_family a = AF_INET \<or> sa_family a = AF_INET6 \<and> pr_ipv6 (w_params w)"
    and "k = (if sa_family a = AF_INET then S_SIZE_I4 else S_SIZE_I6)" "length us = off"
    and "length gap = k" "k \<le> n"
  shows "\<exists>b. s5_set_addr (us @ gap @ vs) off S_SIZE_I6 a False = Some (int k, b) \<and>
    length b = length (us @ gap @ vs) \<and> drop (off + k) b = vs \<and>
    s5_get_addr b off n c type w =
      Some (int k, if sa_family a = AF_INET
        then c\<lparr>sa_family := AF_INET, sa_word4 := sa_word4 a, sa_port := sa_port a\<rparr>
        else c\<lparr>sa_family := AF_INET6, sa_addr16 := sa_addr16 a, sa_port := sa_port a\<rparr>, w)"
  by (rule s5_roundtrip [OF assms])

theorem s5_addr_roundtrip_witness:
  "\<exists>b. s5_set_addr (replicate 12 0) 0 22 (zero_addr\<lparr>sa_family := AF_INET, sa_port := 20480\<rparr>) False =
       Some (10, b) \<and>
     s5_get_addr b 0 12 zero_addr SOCK_DGRAM sample_world =
       Some (10, zero_addr\<lparr>sa_family := AF_INET, sa_port := 20480\<rparr>, sample_world)"
proof -
  let ?a = "zero_addr\<lparr>sa_family := AF_INET, sa_port := 20480\<rparr>"
  have a: "addr_ok ?a" "sa_family ?a = AF_INET" "zero_addr\<lparr>sa_family := AF_INET, sa_word4 := sa_word4 ?a, sa_port := 20480\<rparr> = ?a"
    by (simp_all add: addr_ok_def zero_addr_def AF_INET_def)
  have "[] @ replicate 10 0 @ [0, 0] = (replicate 12 0 :: byte list)" by (simp add: numeral_eq_Suc)
  with s5_addr_roundtrip [of ?a sample_world S_SIZE_I4 "[]" 0 "replicate 10 0" 12 "[0, 0]" zero_addr SOCK_DGRAM]
  show ?thesis using a by (auto simp: socks_sizes)
qed

end
