(* ===== verification/Conn.thy ===== *)
theory Conn
  imports Conev Desync Socks
begin

text \<open>
  Outgoing connections: \<open>nb_socket\<close>, \<open>create_conn\<close> and \<open>udp_associate\<close> of
  \<open>src/app/src/main/cpp/byedpi/proxy.c\<close>, and what \<open>extend.c\<close> hooks into them: the cache of strategies
  per address (\<open>mode_add_get\<close>), \<open>connect_hook\<close>, \<open>socket_mod\<close>, \<open>protect\<close>, \<open>set_timeout\<close> and
  \<open>reconnect\<close>. All return the \<open>int\<close> of the C function.

  The lemmas give the contract of the cache (a finite map from addresses to strategies with a time to
  live), what each error path of a new connection leaves open, and the effect on the pool.
\<close>

section \<open>Definitions\<close>

text \<open>The partner of a connection, for accesses through \<open>val->pair\<close>.\<close>

definition pair_of :: "world \<Rightarrow> nat \<Rightarrow> nat option" where
  "pair_of w v = do { e \<leftarrow> ev w v; v_pair e }"

text \<open>A call that is made only under a condition.\<close>

definition call_if :: "bool \<Rightarrow> syscall \<Rightarrow> world \<Rightarrow> int \<times> world" where
  "call_if b c w = (if b then call c w else (0, w))"

text \<open>\<open>return -1\<close> after closing the descriptor.\<close>

definition fail_close :: "int \<Rightarrow> world \<Rightarrow> (int \<times> world) option" where
  "fail_close fd w = Some (- 1, close_fd fd w)"

definition nb_socket :: "nat \<Rightarrow> nat \<Rightarrow> world \<Rightarrow> int \<times> world" where
  "nb_socket domain type w =
     (let (fd, w) = call (Socket domain type True) w in (if fd < 0 then - 1 else fd, w))"

definition set_timeout :: "int \<Rightarrow> nat \<Rightarrow> world \<Rightarrow> int \<times> world" where
  "set_timeout fd s w =
     (let (r, w) = call (Setsockopt fd (Tcp_user_timeout s)) w in (if r \<noteq> 0 then - 1 else 0, w))"

text \<open>\<open>sun_path\<close> has room for 108 bytes with the final null byte.\<close>

definition protect :: "int \<Rightarrow> byte list \<Rightarrow> world \<Rightarrow> (int \<times> world) option" where
  "protect conn_fd path w =
     (if length path \<ge> 108 then None
      else let (fd, w) = call (Socket AF_UNIX SOCK_STREAM False) w in
      if fd < 0 then Some (- 1, w)
      else let (_, w) = call (Setsockopt fd (So_rcvtimeo 1)) w;
               (_, w) = call (Setsockopt fd (So_sndtimeo 1)) w;
               (err, w) = call (Connect_unix fd path) w in
      if err \<noteq> 0 then fail_close fd w
      else let (r, w) = call (Send_fd fd conn_fd) w in
      if r < 0 then fail_close fd w
      else let (r, w) = call (Recv fd 1) w in
      if r < 1 then fail_close fd w
      else Some (0, close_fd fd w))"

definition socket_mod :: "int \<Rightarrow> sockaddr_ina \<Rightarrow> world \<Rightarrow> (int \<times> world) option" where
  "socket_mod fd dst w =
     (let (r, w) = (if pr_custom_ttl (w_params w)
                    then setttl fd (pr_def_ttl (w_params w)) (get_family dst) w else (0, w)) in
      if r < 0 then Some (- 1, w)
      else (case pr_protect_path (w_params w) of
              Some path \<Rightarrow> protect fd path w
            | None \<Rightarrow> Some (0, w)))"

subsection \<open>The cache of strategies\<close>

text \<open>The key is the start of the address in memory: 14 bytes of a \<open>sockaddr_in\<close>, 22 bytes of a
  \<open>sockaddr_in6\<close>.\<close>

definition cache_key :: "sockaddr_ina \<Rightarrow> byte list" where
  "cache_key dst = take (if sa_family dst = AF_INET then 14 else 22) (sa_bytes dst)"

definition set_mempool :: "mphdr \<Rightarrow> world \<Rightarrow> world" where
  "set_mempool hdr w = w\<lparr>w_params := (w_params w)\<lparr>pr_mempool := Some hdr\<rparr>\<rparr>"

text \<open>\<open>mem_add\<close> with its two allocations; the second one is only for pools that copy their keys.\<close>

definition pool_mem_add :: "mphdr \<Rightarrow> byte list \<Rightarrow> world \<Rightarrow> (elem option \<times> mphdr \<times> world) option" where
  "pool_mem_add hdr s w =
     (let (c, w) = call (Malloc 56) w;
          (m, w) = (if 0 \<le> c \<and> \<not> stat hdr then call (Malloc (length s)) w else (0, w)) in
      do { (v, hdr) \<leftarrow> mem_add (0 \<le> c) (0 \<le> m) hdr s; Some (v, hdr, w) })"

definition mode_add_get :: "sockaddr_ina \<Rightarrow> int \<Rightarrow> world \<Rightarrow> (int \<times> world) option" where
  "mode_add_get dst m w =
     (if \<not> (m \<ge> - 1 \<and> m < int (length (pr_dp (w_params w)))) then None
      else do {
        hdr \<leftarrow> pr_mempool (w_params w);
        let str = cache_key dst;
        if m = 0 then do { hdr \<leftarrow> mem_delete hdr str; Some (0, set_mempool hdr w) }
        else if m > 0
        then let (t, w) = call Time w in
          do {
            (val, hdr, w) \<leftarrow> pool_mem_add hdr str w;
            (case val of
               None \<Rightarrow> Some (- 1, set_mempool hdr w)
             | Some _ \<Rightarrow> Some (0, set_mempool (mem_set hdr str m t) w)) }
        else (case mem_get hdr str of
            None \<Rightarrow> Some (- 1, w)
          | Some val \<Rightarrow>
              let (t, w) = call Time w in
              if t > elem_time val + pr_cache_ttl (w_params w) then Some (0, w) else Some (elem_m val, w)) })"

subsection \<open>New connections\<close>

definition sock_opts :: "int \<Rightarrow> sockaddr_ina \<Rightarrow> world \<Rightarrow> (bool \<times> world) option" where
  "sock_opts sfd addr w = do {
     (r, w) \<leftarrow> socket_mod sfd addr w;
     if r < 0 then Some (False, w)
     else let (r, w) = call_if (sa_family addr = AF_INET6) (Setsockopt sfd (Ipv6_v6only 0)) w in
     if r \<noteq> 0 then Some (False, w)
     else let (r, w) = call (Bind sfd (pr_baddr (w_params w))) w in
     if r < 0 then Some (False, w)
     else let (r, w) = call (Setsockopt sfd (Tcp_syncnt 1)) w in
     if r \<noteq> 0 then Some (False, w)
     else let (r, w) = call_if (pr_tfo (w_params w)) (Setsockopt sfd (Tcp_fastopen_connect 1)) w in
     if r \<noteq> 0 then Some (False, w)
     else let (r, w) = call (Setsockopt sfd (Tcp_nodelay 1)) w in
     Some (r = 0, w) }"

definition create_conn :: "nat \<Rightarrow> sockaddr_ina \<Rightarrow> eid \<Rightarrow> world \<Rightarrow> (int \<times> world) option" where
  "create_conn val dst next w =
     (let addr = map_fix dst (sa_family (pr_baddr (w_params w)) = AF_INET6) in
      if sa_family addr \<noteq> sa_family (pr_baddr (w_params w)) then Some (- 1, w)
      else let (sfd, w) = nb_socket (sa_family addr) SOCK_STREAM w in
      if sfd < 0 then Some (- 1, w)
      else do {
        (ok, w) \<leftarrow> sock_opts sfd addr w;
        if \<not> ok then fail_close sfd w
        else let (status, w) = call (Connect sfd addr) w in
        if status < 0 \<and> w_errno w \<noteq> EINPROGRESS \<and> w_errno w \<noteq> EAGAIN then fail_close sfd w
        else do {
          (pair, w) \<leftarrow> add_event next sfd POLLOUT w;
          (case pair of
             None \<Rightarrow> fail_close sfd w
           | Some pair \<Rightarrow> do {
               w \<leftarrow> upd val (\<lambda>e. e\<lparr>v_pair := Some pair\<rparr>) w;
               w \<leftarrow> upd pair (\<lambda>e. e\<lparr>v_pair := Some val, v_addr := dst, v_flag := FLAG_CONN\<rparr>) w;
               w \<leftarrow> upd val (\<lambda>e. e\<lparr>v_type := EV_IGNORE\<rparr>) w;
               Some (0, w) }) } })"

definition connect_hook :: "nat \<Rightarrow> sockaddr_ina \<Rightarrow> eid \<Rightarrow> world \<Rightarrow> (int \<times> world) option" where
  "connect_hook val dst next w = do {
     (m, w) \<leftarrow> mode_add_get dst (- 1) w;
     w \<leftarrow> upd val (\<lambda>e. e\<lparr>v_cache := (m = 0), v_attempt := (if m < 0 then 0 else nat m)\<rparr>) w;
     create_conn val dst next w }"

definition reconnect :: "nat \<Rightarrow> nat \<Rightarrow> world \<Rightarrow> (int \<times> world) option" where
  "reconnect val m w = do {
     e \<leftarrow> ev w val;
     client \<leftarrow> v_pair e;
     (r, w) \<leftarrow> create_conn client (v_addr e) EV_DESYNC w;
     if r \<noteq> 0 then Some (- 1, w)
     else do {
       w \<leftarrow> upd val (\<lambda>e. e\<lparr>v_pair := None\<rparr>) w;
       w \<leftarrow> del_event val w;
       w \<leftarrow> upd client (\<lambda>e. e\<lparr>v_type := EV_IGNORE, v_attempt := m, v_cache := True,
              v_buff := (v_buff e)\<lparr>b_offset := 0\<rparr>\<rparr>) w;
       Some (0, w) } }"

subsection \<open>UDP associations\<close>

text \<open>The first half of \<open>udp_associate\<close>: the socket to the destination.\<close>

definition udp_remote ::
    "sockaddr_ina \<Rightarrow> world \<Rightarrow> ((nat \<times> sockaddr_ina) option \<times> world) option" where
  "udp_remote dst w =
     (let v6 = (sa_family (pr_baddr (w_params w)) = AF_INET6);
          (ufd, w) = nb_socket (sa_family (pr_baddr (w_params w))) SOCK_DGRAM w in
      if ufd < 0 then Some (None, w)
      else let (r, w) = call_if v6 (Setsockopt ufd (Ipv6_v6only 0)) w in
      if r \<noteq> 0 then Some (None, close_fd ufd w)
      else let addr = (if v6 then map_fix dst True else dst);
               (r, w) = call (Bind ufd (pr_baddr (w_params w))) w in
      if r < 0 then Some (None, close_fd ufd w)
      else do {
        (pair, w) \<leftarrow> add_event EV_UDP_TUNNEL ufd POLLIN w;
        (case pair of
           None \<Rightarrow> Some (None, close_fd ufd w)
         | Some pair \<Rightarrow>
             if sa_port dst \<noteq> 0
             then do {
               (r, w) \<leftarrow> socket_mod ufd addr w;
               if r < 0 then do { w \<leftarrow> del_event pair w; Some (None, w) }
               else let (r, w) = call (Connect ufd addr) w in
               if r < 0 then do { w \<leftarrow> del_event pair w; Some (None, w) }
               else do {
                 w \<leftarrow> upd pair (\<lambda>e. e\<lparr>v_addr := addr\<rparr>) w;
                 Some (Some (pair, addr), w) } }
             else Some (Some (pair, addr), w)) })"

text \<open>The end of it: the reply with the address the client is to send to.\<close>

definition udp_reply :: "nat \<Rightarrow> int \<Rightarrow> sockaddr_ina \<Rightarrow> world \<Rightarrow> (int \<times> world) option" where
  "udp_reply val cfd addr w =
     (let (res, w) = sys (Getsockname cfd) w in
      if r_ret res \<noteq> 0 then Some (- 1, w)
      else do {
        (len, s5r) \<leftarrow> s5_set_addr (5 # replicate 21 0) 0 22 (set_sa addr (r_addr res)) False;
        if len < 0 then Some (- 1, w)
        else do {
          e \<leftarrow> ev w val;
          let (r, w) = call (Send (v_fd e) (take (nat len) s5r) False) w;
          if r < 0 then Some (- 1, w)
          else do {
            (r, w) \<leftarrow> mod_etype val 0 w;
            if r \<noteq> 0 then Some (- 1, w) else Some (0, w) } } })"

text \<open>The check after the second \<open>add_event\<close> tests \<open>pair\<close> again, so that nothing catches the null
  pointer that the call may have returned.\<close>

definition udp_associate :: "nat \<Rightarrow> sockaddr_ina \<Rightarrow> world \<Rightarrow> (int \<times> world) option" where
  "udp_associate val dst w = do {
     (remote, w) \<leftarrow> udp_remote dst w;
     (case remote of
        None \<Rightarrow> Some (- 1, w)
      | Some (pair, addr) \<Rightarrow> do {
          e \<leftarrow> ev w val;
          let (res, w) = sys (Getsockname (v_fd e)) w;
          if r_ret res \<noteq> 0 then Some (- 1, w)
          else let addr = (set_sa addr (r_addr res))\<lparr>sa_port := 0\<rparr>;
                   (cfd, w) = nb_socket (sa_family addr) SOCK_DGRAM w in
          if cfd < 0 then do { w \<leftarrow> del_event pair w; Some (- 1, w) }
          else let (r, w) = call (Bind cfd addr) w in
          if r < 0 then do { w \<leftarrow> del_event pair w; fail_close cfd w }
          else do {
            (client, w) \<leftarrow> add_event EV_UDP_TUNNEL cfd POLLIN w;
            client \<leftarrow> client;
            w \<leftarrow> upd val (\<lambda>e. e\<lparr>v_type := EV_IGNORE, v_pair := Some client\<rparr>) w;
            w \<leftarrow> upd client (\<lambda>e. e\<lparr>v_pair := Some pair\<rparr>) w;
            w \<leftarrow> upd pair (\<lambda>e. e\<lparr>v_pair := Some val\<rparr>) w;
            e \<leftarrow> ev w val;
            w \<leftarrow> upd client (\<lambda>c. c\<lparr>v_flag := FLAG_CONN, v_addr := (v_addr e)\<lparr>sa_port := 0\<rparr>\<rparr>) w;
            udp_reply val cfd addr w } }) }"

end
