(* ===== verification/Extend.thy ===== *)
theory Extend
  imports Conn
begin

text \<open>
  The strategies at work, the rest of \<open>src/app/src/main/cpp/byedpi/extend.c\<close>: which strategy a request
  gets (\<open>check_host\<close>, \<open>check_proto_tcp\<close>, \<open>check_port\<close>, \<open>on_desync\<close>, \<open>udp_hook\<close>), sending it in steps
  (\<open>on_desync_again\<close>), and the reaction to the first answer (\<open>on_tunnel_check\<close> with \<open>on_response\<close>,
  \<open>on_torst\<close>, \<open>on_fin\<close> and \<open>to_tunnel\<close>): an answer that looks like interference makes the proxy
  connect again with the next strategy that is meant for it.

  The searches over the strategies \<open>params.dp[m]\<close> are recursions over the list of the strategies from
  \<open>m\<close> on; their result is the \<open>m\<close> at which the loop ends, or nothing where it returns.
\<close>

section \<open>Definitions\<close>

text \<open>What a connection has buffered. The null pointer has no bytes to read; a negative length would
  be a huge \<open>size_t\<close>.\<close>

definition buf_data :: "eval \<Rightarrow> byte list" where
  "buf_data e = (case b_data (v_buff e) of None \<Rightarrow> [] | Some d \<Rightarrow> d)"

definition buf_len :: "eval \<Rightarrow> nat option" where
  "buf_len e = (if b_size (v_buff e) < 0 then None else Some (nat (b_size (v_buff e))))"

text \<open>\<open>recv\<close> and \<open>recvfrom\<close> into the scratch buffer at \<open>off\<close>.\<close>

definition recv_at :: "syscall \<Rightarrow> nat \<Rightarrow> nat \<Rightarrow> world \<Rightarrow> (sysret \<times> world) option" where
  "recv_at c off len w =
     (if off + len > length (w_buffer w) then None
      else let (r, w) = sys c w in
      if r_ret r < 0 then Some (r, w)
      else do { b \<leftarrow> mem_write (w_buffer w) off (r_data r); Some (r, w\<lparr>w_buffer := b\<rparr>) })"

definition recv_buf :: "int \<Rightarrow> nat \<Rightarrow> world \<Rightarrow> (int \<times> world) option" where
  "recv_buf fd len w = do { (r, w) \<leftarrow> recv_at (Recv fd len) 0 len w; Some (r_ret r, w) }"

subsection \<open>Conditions on a request\<close>

definition check_port :: "nat \<times> nat \<Rightarrow> sockaddr_ina \<Rightarrow> bool" where
  "check_port p dst = (sa_port dst \<ge> fst p \<and> sa_port dst \<le> snd p)"

text \<open>The loop over the suffixes of the host name, which lies at \<open>host .. end - 1\<close>.\<close>

function check_host_loop :: "mphdr \<Rightarrow> byte list \<Rightarrow> nat \<Rightarrow> nat \<Rightarrow> bool option" where
  "check_host_loop hosts b host end =
     (if host \<ge> end then Some False
      else do {
        s \<leftarrow> mem_read b host (end - host);
        if mem_get hosts s \<noteq> None then Some True
        else do {
          dot \<leftarrow> memchr b host 46 (end - host);
          (case dot of
             None \<Rightarrow> Some False
           | Some dot \<Rightarrow> if dot < host then None else check_host_loop hosts b (Suc dot) end) } })"
  by pat_completeness auto
termination
  by (relation "measure (\<lambda>(hosts, b, host, end). end - host)") auto

definition check_host :: "mphdr \<Rightarrow> eval \<Rightarrow> bool option" where
  "check_host hosts val = do {
     n \<leftarrow> buf_len val;
     (len, host) \<leftarrow> parse_tls (buf_data val) n;
     (len, host) \<leftarrow> (if len \<noteq> 0 then Some (len, host)
       else do { (len, h, _) \<leftarrow> parse_http (buf_data val) n False; Some (len, h) });
     if \<not> (len = 0 \<or> host \<noteq> None) then None
     else if len \<le> 0 then Some False
     else do { h \<leftarrow> host; check_host_loop hosts (buf_data val) h (h + nat len) } }"

definition check_proto_tcp :: "32 word \<Rightarrow> eval \<Rightarrow> bool option" where
  "check_proto_tcp proto val =
     (if proto AND IS_TCP \<noteq> 0 then Some True
      else do {
        n \<leftarrow> buf_len val;
        h \<leftarrow> (if proto AND IS_HTTP \<noteq> 0 then is_http (buf_data val) n else Some False);
        if h then Some True
        else if proto AND IS_HTTPS \<noteq> 0 then is_tls_chello (buf_data val) n else Some False })"

subsection \<open>Reactions to an answer\<close>

fun torst_search :: "desync_params list \<Rightarrow> nat \<Rightarrow> nat option" where
  "torst_search [] m = Some m"
| "torst_search (dp # dps) m =
     (if dp_detect dp = 0 then None
      else if dp_detect dp AND DETECT_TORST \<noteq> 0 then Some m else torst_search dps (Suc m))"

definition on_torst :: "nat \<Rightarrow> world \<Rightarrow> (int \<times> world) option" where
  "on_torst val w = do {
     e \<leftarrow> ev w val;
     pair \<leftarrow> v_pair e;
     p \<leftarrow> ev w pair;
     (case torst_search (drop (v_attempt p + 1) (pr_dp (w_params w))) (v_attempt p + 1) of
        None \<Rightarrow> Some (- 1, w)
      | Some m \<Rightarrow>
          if m \<ge> length (pr_dp (w_params w))
          then do { (_, w) \<leftarrow> mode_add_get (v_addr e) 0 w; Some (- 1, w) }
          else reconnect val m w) }"

fun fin_search :: "byte list \<Rightarrow> nat \<Rightarrow> desync_params list \<Rightarrow> nat \<Rightarrow> nat option option" where
  "fin_search req qn [] m = Some None"
| "fin_search req qn (dp # dps) m =
     (if dp_detect dp = 0 then Some None
      else if dp_detect dp AND DETECT_TLS_ERR = 0 then fin_search req qn dps (Suc m)
      else do { c \<leftarrow> is_tls_chello req qn; if c then Some (Some m) else fin_search req qn dps (Suc m) })"

definition on_fin :: "nat \<Rightarrow> world \<Rightarrow> (int \<times> world) option" where
  "on_fin val w = do {
     e \<leftarrow> ev w val;
     pair \<leftarrow> v_pair e;
     p \<leftarrow> ev w pair;
     qn \<leftarrow> buf_len p;
     r \<leftarrow> fin_search (buf_data p) qn (drop (v_attempt p + 1) (pr_dp (w_params w))) (v_attempt p + 1);
     (case r of None \<Rightarrow> Some (- 1, w) | Some m \<Rightarrow> reconnect val m w) }"

definition is_redirect :: "desync_params \<Rightarrow> byte list \<Rightarrow> nat \<Rightarrow> byte list \<Rightarrow> nat \<Rightarrow> bool option" where
  "is_redirect dp req qn resp sn =
     (if dp_detect dp AND DETECT_HTTP_LOCAT \<noteq> 0 then is_http_redirect req qn resp sn else Some False)"

definition is_tls_error :: "desync_params \<Rightarrow> byte list \<Rightarrow> nat \<Rightarrow> byte list \<Rightarrow> nat \<Rightarrow> bool option" where
  "is_tls_error dp req qn resp sn =
     (if dp_detect dp AND DETECT_TLS_ERR = 0 then Some False
      else do {
        c \<leftarrow> is_tls_chello req qn;
        s \<leftarrow> (if c then is_tls_shello resp sn else Some True);
        if \<not> s then Some True else neq_tls_sid req qn resp sn })"

fun response_search ::
    "byte list \<Rightarrow> nat \<Rightarrow> byte list \<Rightarrow> nat \<Rightarrow> desync_params list \<Rightarrow> nat \<Rightarrow> nat option option" where
  "response_search req qn resp sn [] m = Some None"
| "response_search req qn resp sn (dp # dps) m =
     (if dp_detect dp = 0 then Some None
      else do {
        a \<leftarrow> is_redirect dp req qn resp sn;
        if a then Some (Some m)
        else do {
          b \<leftarrow> is_tls_error dp req qn resp sn;
          if b then Some (Some m) else response_search req qn resp sn dps (Suc m) } })"

definition on_response :: "nat \<Rightarrow> nat \<Rightarrow> world \<Rightarrow> (int \<times> world) option" where
  "on_response val sn w = do {
     e \<leftarrow> ev w val;
     pair \<leftarrow> v_pair e;
     p \<leftarrow> ev w pair;
     qn \<leftarrow> buf_len p;
     r \<leftarrow> response_search (buf_data p) qn (w_buffer w) sn
       (drop (v_attempt p + 1) (pr_dp (w_params w))) (v_attempt p + 1);
     (case r of None \<Rightarrow> Some (- 1, w) | Some m \<Rightarrow> reconnect val m w) }"

definition no_buffer :: buffer where
  "no_buffer = \<lparr>b_size = 0, b_offset = 0, b_data = None\<rparr>"

definition to_tunnel :: "nat \<Rightarrow> world \<Rightarrow> world option" where
  "to_tunnel client w = do {
     pair \<leftarrow> pair_of w client;
     w \<leftarrow> upd pair (\<lambda>e. e\<lparr>v_type := EV_TUNNEL\<rparr>) w;
     w \<leftarrow> upd client (\<lambda>e. e\<lparr>v_type := EV_TUNNEL\<rparr>) w;
     e \<leftarrow> ev w client;
     if b_data (v_buff e) = None then None else upd client (\<lambda>e. e\<lparr>v_buff := no_buffer\<rparr>) w }"

text \<open>The first answer goes to the client: the rest of \<open>on_tunnel_check\<close> after \<open>on_response\<close>.\<close>

definition accept_response :: "nat \<Rightarrow> nat \<Rightarrow> world \<Rightarrow> (int \<times> world) option" where
  "accept_response val n w = do {
     w \<leftarrow> upd val (\<lambda>e. e\<lparr>v_recv_count := v_recv_count e + int n\<rparr>) w;
     e \<leftarrow> ev w val;
     pair \<leftarrow> v_pair e;
     p \<leftarrow> ev w pair;
     bytes \<leftarrow> mem_read (w_buffer w) 0 n;
     let (sn, w) = call (Send (v_fd p) bytes False) w;
     if int n \<noteq> sn then Some (- 1, w)
     else do {
       w \<leftarrow> to_tunnel pair w;
       let (r, w) = (if pr_timeout (w_params w) \<noteq> 0 then set_timeout (v_fd e) 0 w else (0, w));
       if r \<noteq> 0 then Some (- 1, w)
       else do {
         (r, w) \<leftarrow> post_desync (v_fd e) (v_attempt p) w;
         if r \<noteq> 0 then Some (- 1, w)
         else if \<not> v_cache p then Some (0, w)
         else mode_add_get (v_addr e) (int (v_attempt p)) w } } }"

definition on_tunnel_check :: "nat \<Rightarrow> nat \<Rightarrow> bool \<Rightarrow> world \<Rightarrow> (int \<times> world) option" where
  "on_tunnel_check val bfsize out w =
     (if out then None
      else do {
        e \<leftarrow> ev w val;
        (n, w) \<leftarrow> recv_buf (v_fd e) bfsize w;
        if n < 1
        then if w_errno w \<in> {ECONNRESET, ECONNREFUSED, ETIMEDOUT} then on_torst val w else on_fin val w
        else do {
          (r, w) \<leftarrow> on_response val (nat n) w;
          if r = 0 then Some (0, w) else accept_response val (nat n) w } })"

subsection \<open>Sending a request\<close>

definition on_desync_again :: "nat \<Rightarrow> nat \<Rightarrow> world \<Rightarrow> (int \<times> world) option" where
  "on_desync_again val bfsize w = do {
     e \<leftarrow> ev w val;
     (r, w) \<leftarrow> (if v_flag e = FLAG_CONN then mod_etype val POLLIN w else Some (0, w));
     if r \<noteq> 0 then Some (- 1, w)
     else do {
       val \<leftarrow> (if v_flag e = FLAG_CONN then v_pair e else Some val);
       e \<leftarrow> ev w val;
       let m = v_attempt e;
       let n = b_size (v_buff e);
       if \<not> (n > 0 \<and> n \<le> int (pr_bfsize (w_params w))) then None
       else do {
         bytes \<leftarrow> mem_read (buf_data e) 0 (nat n);
         b \<leftarrow> mem_write (w_buffer w) 0 bytes;
         let w = w\<lparr>w_buffer := b\<rparr>;
         pair \<leftarrow> v_pair e;
         p \<leftarrow> ev w pair;
         let (r, w) = (if pr_timeout (w_params w) \<noteq> 0
                       then set_timeout (v_fd p) (pr_timeout (w_params w)) w else (0, w));
         if r \<noteq> 0 then Some (- 1, w)
         else do {
           (sn, b, w) \<leftarrow> desync (v_fd p) (w_buffer w) bfsize (nat n) (b_offset (v_buff e)) (v_addr p) m w;
           let w = w\<lparr>w_buffer := b\<rparr>;
           if sn < 0 then Some (- 1, w)
           else do {
             w \<leftarrow> upd val (\<lambda>e. e\<lparr>v_buff := (v_buff e)\<lparr>b_offset := b_offset (v_buff e) + sn\<rparr>\<rparr>) w;
             (r, w) \<leftarrow> (if sn < n then mod_etype pair POLLOUT w else Some (0, w));
             if r \<noteq> 0 then Some (- 1, w)
             else do {
               w \<leftarrow> upd pair (\<lambda>e. e\<lparr>v_type := (if sn < n then EV_DESYNC else EV_PRE_TUNNEL)\<rparr>) w;
               Some (0, w) } } } } } }"

text \<open>The first strategy that is not for reactions and whose conditions hold. The address is that of
  the destination, which is looked at for strategies with a range of ports only.\<close>

fun strategy_search :: "sockaddr_ina option \<Rightarrow> eval \<Rightarrow> desync_params list \<Rightarrow> nat \<Rightarrow> nat option" where
  "strategy_search dst val [] m = Some m"
| "strategy_search dst val (dp # dps) m =
     (if dp_detect dp \<noteq> 0 then strategy_search dst val dps (Suc m)
      else do {
        a \<leftarrow> (if fst (dp_pf dp) = 0 then Some True else do { d \<leftarrow> dst; Some (check_port (dp_pf dp) d) });
        b \<leftarrow> (if \<not> a then Some False
              else if dp_proto dp = 0 then Some True else check_proto_tcp (dp_proto dp) val);
        c \<leftarrow> (if \<not> b then Some False
              else case dp_hosts dp of None \<Rightarrow> Some True | Some hosts \<Rightarrow> check_host hosts val);
        if c then Some m else strategy_search dst val dps (Suc m) })"

definition on_desync :: "nat \<Rightarrow> nat \<Rightarrow> bool \<Rightarrow> world \<Rightarrow> (int \<times> world) option" where
  "on_desync val bfsize out w =
     (if out then on_desync_again val bfsize w
      else do {
        e \<leftarrow> ev w val;
        len \<leftarrow> buf_len e;
        if len = bfsize then do { w \<leftarrow> to_tunnel val w; Some (0, w) }
        else do {
          (n, w) \<leftarrow> recv_buf (v_fd e) (usub bfsize len) w;
          if n \<le> 0 then Some (- 1, w)
          else do {
            w \<leftarrow> upd val (\<lambda>e. e\<lparr>v_buff := (v_buff e)\<lparr>b_size := int len + n\<rparr>,
                    v_recv_count := v_recv_count e + n\<rparr>) w;
            let (r, w) = call (Malloc (len + nat n)) w;
            if r < 0 then do { w \<leftarrow> upd val (\<lambda>e. e\<lparr>v_buff := (v_buff e)\<lparr>b_data := None\<rparr>\<rparr>) w; Some (- 1, w) }
            else do {
              old \<leftarrow> mem_read (buf_data e) 0 len;
              new \<leftarrow> mem_read (w_buffer w) 0 (nat n);
              w \<leftarrow> upd val (\<lambda>e. e\<lparr>v_buff := (v_buff e)\<lparr>b_data := Some (old @ new)\<rparr>\<rparr>) w;
              e \<leftarrow> ev w val;
              m \<leftarrow> (if v_attempt e \<noteq> 0 then Some (v_attempt e)
                    else strategy_search (map_option v_addr (v_pair e \<bind> ev w)) e (pr_dp (w_params w)) 0);
              if m \<ge> length (pr_dp (w_params w)) then Some (- 1, w)
              else do {
                w \<leftarrow> upd val (\<lambda>e. e\<lparr>v_attempt := m\<rparr>) w;
                on_desync_again val bfsize w } } } } })"

fun udp_search :: "sockaddr_ina \<Rightarrow> desync_params list \<Rightarrow> nat \<Rightarrow> nat" where
  "udp_search dst [] m = m"
| "udp_search dst (dp # dps) m =
     (if dp_detect dp = 0 \<and> (dp_proto dp = 0 \<or> dp_proto dp AND IS_UDP \<noteq> 0) \<and>
         (fst (dp_pf dp) = 0 \<or> check_port (dp_pf dp) dst)
      then m else udp_search dst dps (Suc m))"

text \<open>The datagram is the \<open>n\<close> bytes at \<open>off\<close> in the scratch buffer.\<close>

definition udp_hook :: "nat \<Rightarrow> nat \<Rightarrow> nat \<Rightarrow> sockaddr_ina \<Rightarrow> world \<Rightarrow> (int \<times> world) option" where
  "udp_hook val off n dst w = do {
     e \<leftarrow> ev w val;
     if v_recv_count e \<noteq> 0
     then do { bytes \<leftarrow> mem_read (w_buffer w) off n; Some (call (Send (v_fd e) bytes False) w) }
     else let m = (if v_attempt e \<noteq> 0 then v_attempt e else udp_search dst (pr_dp (w_params w)) 0) in
     if m \<ge> length (pr_dp (w_params w)) then Some (- 1, w)
     else desync_udp (v_fd e) (w_buffer w) off n dst m w }"

end
