(* ===== verification/Proxy.thy ===== *)
theory Proxy
  imports Extend
begin

text \<open>
  The event handlers and the event loop of \<open>src/app/src/main/cpp/byedpi/proxy.c\<close>. A handler returns
  the \<open>int\<close> of the C function; the loop closes the connection when it is not 0. The loops of the
  handlers end when the kernel has no more data, which nothing in the program bounds: they are
  partial functions, and \<open>None\<close> stands for a loop that never ends as well as for undefined behaviour.

  SIGINT clears \<open>NOT_EXIT\<close> at any time. The loop looks at it at one place; the pseudo call \<open>Signals\<close>
  there says whether the signal came since.
\<close>

section \<open>Definitions\<close>

subsection \<open>Handlers\<close>

partial_function (option) on_accept :: "nat \<Rightarrow> world \<Rightarrow> (int \<times> world) option" where
  "on_accept val w = do {
     e \<leftarrow> ev w val;
     let (res, w) = sys (Accept4 (v_fd e)) w;
     let c = r_ret res;
     if c < 0
     then Some (if w_errno w = EAGAIN \<or> w_errno w = EINPROGRESS then 0 else - 1, w)
     else let (r, w) = call (Setsockopt c (Tcp_nodelay 1)) w in
     if r \<noteq> 0 then on_accept val (close_fd c w)
     else do {
       (conn, w) \<leftarrow> add_event EV_REQUEST c POLLIN w;
       (case conn of
          None \<Rightarrow> on_accept val (close_fd c w)
        | Some conn \<Rightarrow> do {
            w \<leftarrow> upd conn (\<lambda>e. e\<lparr>v_addr := r_addr res\<rparr>) w;
            on_accept val w }) } }"

text \<open>Two calls of \<open>mod_etype\<close> joined by \<open>||\<close>: whether one of them failed. A partner that may be the
  null pointer is an \<open>option\<close>.\<close>

definition mod_etypes :: "nat \<Rightarrow> 32 word \<Rightarrow> nat option \<Rightarrow> 32 word \<Rightarrow> world \<Rightarrow> (bool \<times> world) option" where
  "mod_etypes v s v' s' w = do {
     (r, w) \<leftarrow> mod_etype v s w;
     if r \<noteq> 0 then Some (True, w)
     else do { v' \<leftarrow> v'; (r, w) \<leftarrow> mod_etype v' s' w; Some (r \<noteq> 0, w) } }"

text \<open>What is left from an earlier, short \<open>send\<close>: \<open>Inl\<close> a result to return, or \<open>Inr\<close> to go on with
  receiving.\<close>

definition tunnel_flush ::
    "nat \<Rightarrow> nat option \<Rightarrow> 32 word \<Rightarrow> world \<Rightarrow> ((int + unit) \<times> world) option" where
  "tunnel_flush val pair etype w = do {
     e \<leftarrow> ev w val;
     (case b_data (v_buff e) of
        None \<Rightarrow> Some (Inr (), w)
      | Some data \<Rightarrow>
          if etype AND POLLHUP \<noteq> 0 then Some (Inl (- 1), w)
          else let n = b_size (v_buff e) - b_offset (v_buff e) in
          if n < 0 \<or> b_offset (v_buff e) < 0 then None
          else do {
            p \<leftarrow> pair \<bind> ev w;
            bytes \<leftarrow> mem_read data (nat (b_offset (v_buff e))) (nat n);
            let (sn, w) = call (Send (v_fd p) bytes False) w;
            if sn \<noteq> n
            then if sn < 0 \<and> w_errno w \<noteq> EAGAIN then Some (Inl (- 1), w)
              else if sn > 0
              then do {
                w \<leftarrow> upd val (\<lambda>e. e\<lparr>v_buff := (v_buff e)\<lparr>b_offset := b_offset (v_buff e) + sn\<rparr>\<rparr>) w;
                Some (Inl 0, w) }
              else Some (Inl 0, w)
            else do {
              w \<leftarrow> upd val (\<lambda>e. e\<lparr>v_buff := no_buffer\<rparr>) w;
              (bad, w) \<leftarrow> mod_etypes val POLLIN pair POLLIN w;
              Some (if bad then Inl (- 1) else Inr (), w) } }) }"

text \<open>What a \<open>send\<close> did not take is kept, and the partner is watched for room to send.\<close>

definition tunnel_keep :: "nat \<Rightarrow> nat option \<Rightarrow> nat \<Rightarrow> nat \<Rightarrow> world \<Rightarrow> (int \<times> world) option" where
  "tunnel_keep val pair sn n w = do {
     e \<leftarrow> ev w val;
     if b_size (v_buff e) \<noteq> 0 \<or> b_offset (v_buff e) \<noteq> 0 then None
     else let (r, w) = call (Malloc (n - sn)) w in do {
       rest \<leftarrow> mem_read (w_buffer w) sn (n - sn);
       w \<leftarrow> upd val (\<lambda>e. e\<lparr>v_buff := (v_buff e)\<lparr>b_size := int (n - sn),
              b_data := (if r < 0 then None else Some rest)\<rparr>\<rparr>) w;
       if r < 0 then Some (- 1, w)
       else do {
         (bad, w) \<leftarrow> mod_etypes val 0 pair POLLOUT w;
         Some (if bad then - 1 else 0, w) } } }"

partial_function (option) tunnel_loop :: "nat \<Rightarrow> nat option \<Rightarrow> nat \<Rightarrow> world \<Rightarrow> (int \<times> world) option" where
  "tunnel_loop val pair bfsize w = do {
     e \<leftarrow> ev w val;
     (n, w) \<leftarrow> recv_buf (v_fd e) bfsize w;
     if n < 0 \<and> w_errno w = EAGAIN then Some (0, w)
     else if n < 1 then Some (- 1, w)
     else do {
       w \<leftarrow> upd val (\<lambda>e. e\<lparr>v_recv_count := v_recv_count e + n\<rparr>) w;
       p \<leftarrow> pair \<bind> ev w;
       bytes \<leftarrow> mem_read (w_buffer w) 0 (nat n);
       let (sn, w) = call (Send (v_fd p) bytes False) w;
       if sn \<noteq> n
       then if sn < 0 \<and> w_errno w \<noteq> EAGAIN then Some (- 1, w)
         else tunnel_keep val pair (if sn < 0 then 0 else nat sn) (nat n) w
       else if n = int bfsize then tunnel_loop val pair bfsize w else Some (0, w) } }"

definition on_tunnel :: "nat \<Rightarrow> nat \<Rightarrow> 32 word \<Rightarrow> world \<Rightarrow> (int \<times> world) option" where
  "on_tunnel val bfsize etype w = do {
     e \<leftarrow> ev w val;
     (val, pair) \<leftarrow>
       (if etype AND POLLOUT \<noteq> 0
        then do { p \<leftarrow> v_pair e; q \<leftarrow> ev w p; Some (p, v_pair q) }
        else Some (val, v_pair e));
     (res, w) \<leftarrow> tunnel_flush val pair etype w;
     (case res of Inl r \<Rightarrow> Some (r, w) | Inr _ \<Rightarrow> tunnel_loop val pair bfsize w) }"

subsection \<open>Datagrams\<close>

text \<open>A datagram from the client, \<open>n\<close> bytes at the start of the scratch buffer. \<open>Inl\<close> a result to
  return, or \<open>Inr ()\<close> when the loop goes on.\<close>

definition udp_first_client ::
    "nat \<Rightarrow> sockaddr_ina \<Rightarrow> world \<Rightarrow> ((int + unit) \<times> world) option" where
  "udp_first_client val addr w = do {
     e \<leftarrow> ev w val;
     if sa_port (v_addr e) \<noteq> 0 then Some (Inr (), w)
     else if \<not> addr_equ addr (v_addr e) then Some (Inl 0, w)
     else let (r, w) = call (Connect (v_fd e) addr) w in
     if r < 0 then Some (Inl (- 1), w)
     else do { w \<leftarrow> upd val (\<lambda>e. e\<lparr>v_addr := addr\<rparr>) w; Some (Inr (), w) } }"

definition udp_first_remote ::
    "nat \<Rightarrow> sockaddr_ina \<Rightarrow> world \<Rightarrow> (bool \<times> sockaddr_ina \<times> world) option" where
  "udp_first_remote pair addr w = do {
     p \<leftarrow> ev w pair;
     if sa_port (v_addr p) \<noteq> 0 then Some (True, addr, w)
     else let fam = sa_family (pr_baddr (w_params w));
              addr = (if fam = AF_INET6 then map_fix addr True else addr) in
     if fam \<noteq> sa_family addr then Some (False, addr, w)
     else do {
       (r, w) \<leftarrow> socket_mod (v_fd p) addr w;
       if r < 0 then Some (False, addr, w)
       else let (r, w) = call (Connect (v_fd p) addr) w in
       if r < 0 then Some (False, addr, w)
       else do { w \<leftarrow> upd pair (\<lambda>e. e\<lparr>v_addr := addr\<rparr>) w; Some (True, addr, w) } } }"

definition udp_from_client ::
    "nat \<Rightarrow> nat \<Rightarrow> sockaddr_ina \<Rightarrow> world \<Rightarrow> ((int + sockaddr_ina) \<times> world) option" where
  "udp_from_client val n addr w = do {
     (res, w) \<leftarrow> udp_first_client val addr w;
     (case res of
        Inl r \<Rightarrow> Some (Inl r, w)
      | Inr _ \<Rightarrow> do {
          frag \<leftarrow> rd (w_buffer w) 2;
          if frag \<noteq> 0 then Some (Inr addr, w)
          else do {
            (offs, addr, w) \<leftarrow> s5_get_addr (w_buffer w) 0 n addr SOCK_DGRAM w;
            if offs < 0 then Some (Inl (- 1), w)
            else do {
              pair \<leftarrow> pair_of w val;
              (ok, addr, w) \<leftarrow> udp_first_remote pair addr w;
              if \<not> ok then Some (Inl (- 1), w)
              else do {
                p \<leftarrow> ev w pair;
                (ns, w) \<leftarrow> udp_hook pair (nat offs) (n - nat offs) (v_addr p) w;
                Some (if ns < 0 then Inl (- 1) else Inr addr, w) } } } }) }"

text \<open>A datagram from the destination, \<open>n\<close> bytes behind the room for the header.\<close>

definition udp_from_remote ::
    "nat \<Rightarrow> nat \<Rightarrow> sockaddr_ina \<Rightarrow> world \<Rightarrow> ((int + sockaddr_ina) \<times> world) option" where
  "udp_from_remote val n addr w =
     (let addr = map_fix addr False in do {
       b \<leftarrow> memset (w_buffer w) 0 0 (int S_SIZE_I6);
       (offs, b) \<leftarrow> s5_set_addr b S_SIZE_I6 S_SIZE_I6 addr True;
       let w = w\<lparr>w_buffer := b\<rparr>;
       if offs < 0 \<or> offs > int S_SIZE_I6 then Some (Inl (- 1), w)
       else do {
         pair \<leftarrow> pair_of w val;
         client \<leftarrow> pair_of w pair;
         c \<leftarrow> ev w client;
         bytes \<leftarrow> mem_read (w_buffer w) (S_SIZE_I6 - nat offs) (nat offs + n);
         let (ns, w) = call (Send (v_fd c) bytes False) w;
         Some (if ns < 0 then Inl (- 1) else Inr addr, w) } })"

partial_function (option) udp_loop ::
    "nat \<Rightarrow> nat \<Rightarrow> nat \<Rightarrow> sockaddr_ina \<Rightarrow> world \<Rightarrow> (int \<times> world) option" where
  "udp_loop val off data_len addr w = do {
     e \<leftarrow> ev w val;
     (res, w) \<leftarrow> recv_at (Recvfrom (v_fd e) data_len) off data_len w;
     let n = r_ret res;
     if n < 1 then Some (if n \<noteq> 0 \<and> w_errno w = EAGAIN then 0 else - 1, w)
     else do {
       let addr = set_sa addr (r_addr res);
       w \<leftarrow> upd val (\<lambda>e. e\<lparr>v_recv_count := v_recv_count e + n\<rparr>) w;
       (res, w) \<leftarrow> (if v_flag e = FLAG_CONN then udp_from_client val (nat n) addr w
                   else udp_from_remote val (nat n) addr w);
       (case res of Inl r \<Rightarrow> Some (r, w) | Inr addr \<Rightarrow> udp_loop val off data_len addr w) } }"

definition on_udp_tunnel :: "nat \<Rightarrow> nat \<Rightarrow> world \<Rightarrow> (int \<times> world) option" where
  "on_udp_tunnel val bfsize w = do {
     e \<leftarrow> ev w val;
     if v_flag e = FLAG_CONN then udp_loop val 0 bfsize zero_addr w
     else udp_loop val S_SIZE_I6 (usub bfsize S_SIZE_I6) zero_addr w }"

subsection \<open>Requests\<close>

text \<open>The \<open>switch\<close> over the command of a version 5 request: \<open>s5e\<close> and \<open>error\<close>.\<close>

definition s5_command :: "nat \<Rightarrow> nat \<Rightarrow> world \<Rightarrow> (int \<times> int \<times> world) option" where
  "s5_command val n w = do {
     cmd \<leftarrow> rd (w_buffer w) 1;
     if cmd = S_CMD_CONN
     then do {
       (s5e, dst, w) \<leftarrow> s5_get_addr (w_buffer w) 0 n zero_addr SOCK_STREAM w;
       if s5e < 0 then Some (s5e, 0, w)
       else do { (error, w) \<leftarrow> connect_hook val dst EV_CONNECT w; Some (s5e, error, w) } }
     else if cmd = S_CMD_AUDP \<and> pr_udp (w_params w)
     then do {
       (s5e, dst, w) \<leftarrow> s5_get_addr (w_buffer w) 0 n zero_addr SOCK_DGRAM w;
       if s5e < 0 then Some (s5e, 0, w)
       else do { (error, w) \<leftarrow> udp_associate val dst w; Some (s5e, error, w) } }
     else Some (- S_ER_CMD, 0, w) }"

text \<open>The part of \<open>on_request\<close> for version 5, up to \<open>if (error)\<close>: \<open>Inl\<close> a value to return, or \<open>Inr\<close>
  the error.\<close>

definition s5_request :: "nat \<Rightarrow> nat \<Rightarrow> world \<Rightarrow> ((int + int) \<times> world) option" where
  "s5_request val n w = do {
     e \<leftarrow> ev w val;
     if v_flag e \<noteq> FLAG_S5
     then do {
       (r, b, w) \<leftarrow> auth_socks5 (v_fd e) (w_buffer w) n w;
       let w = w\<lparr>w_buffer := b\<rparr>;
       if r \<noteq> 0 then Some (Inl (- 1), w)
       else do { w \<leftarrow> upd val (\<lambda>e. e\<lparr>v_flag := FLAG_S5\<rparr>) w; Some (Inl 0, w) } }
     else if n < S_SIZE_MIN then Some (Inl (- 1), w)
     else do {
       (s5e, error, w) \<leftarrow> s5_command val n w;
       if s5e < 0 then let (_, w) = resp_s5_error (v_fd e) (- s5e) w in Some (Inl (- 1), w)
       else Some (Inr error, w) } }"

definition s4_request :: "nat \<Rightarrow> nat \<Rightarrow> world \<Rightarrow> ((int + int) \<times> world) option" where
  "s4_request val n w = do {
     w \<leftarrow> upd val (\<lambda>e. e\<lparr>v_flag := FLAG_S4\<rparr>) w;
     (error, dst, w) \<leftarrow> s4_get_addr (w_buffer w) n zero_addr w;
     if error \<noteq> 0
     then do {
       e \<leftarrow> ev w val;
       let (_, w) = resp_error (v_fd e) error FLAG_S4 w;
       Some (Inl (- 1), w) }
     else do { (error, w) \<leftarrow> connect_hook val dst EV_CONNECT w; Some (Inr error, w) } }"

definition on_request :: "nat \<Rightarrow> nat \<Rightarrow> world \<Rightarrow> (int \<times> world) option" where
  "on_request val bfsize w = do {
     e \<leftarrow> ev w val;
     (n, w) \<leftarrow> recv_buf (v_fd e) bfsize w;
     if n < 1 then Some (- 1, w)
     else do {
       ver \<leftarrow> rd (w_buffer w) 0;
       (res, w) \<leftarrow>
         (if ver = S_VER5 then s5_request val (nat n) w
          else if ver = S_VER4 then s4_request val (nat n) w
          else Some (Inl (- 1), w));
       (case res of
          Inl r \<Rightarrow> Some (r, w)
        | Inr error \<Rightarrow>
            if error = 0 then Some (0, w)
            else do {
              e \<leftarrow> ev w val;
              let en = w_errno w;
              let (_, w) = resp_error (v_fd e) (if en \<noteq> 0 then en else error) (v_flag e) w;
              Some (- 1, w) }) } }"

definition on_connect :: "nat \<Rightarrow> bool \<Rightarrow> world \<Rightarrow> (int \<times> world) option" where
  "on_connect val err w = do {
     v \<leftarrow> ev w val;
     (go, error, w) \<leftarrow>
       (if err
        then let (res, w) = sys (Getsockopt (v_fd v) So_error) w in
             Some (r_ret res = 0, rval res 0, w)
        else do {
          (r, w) \<leftarrow> mod_etype val POLLIN w;
          if r \<noteq> 0 then Some (False, 0, w)
          else do {
            w \<leftarrow> upd val (\<lambda>e. e\<lparr>v_type := EV_TUNNEL\<rparr>) w;
            pair \<leftarrow> v_pair v;
            w \<leftarrow> upd pair (\<lambda>e. e\<lparr>v_type := EV_DESYNC\<rparr>) w;
            Some (True, 0, w) } });
     if \<not> go then Some (- 1, w)
     else do {
       pair \<leftarrow> v_pair v;
       p \<leftarrow> ev w pair;
       let (r, w) = resp_error (v_fd p) error (v_flag p) w;
       Some (if r < 0 then - 1 else if err then - 1 else 0, w) } }"

definition close_conn :: "nat \<Rightarrow> world \<Rightarrow> world option" where
  "close_conn val w = del_event val w"

subsection \<open>The loop\<close>

text \<open>A handler that fails has its connection closed.\<close>

definition or_close :: "nat \<Rightarrow> (int \<times> world) option \<Rightarrow> world option" where
  "or_close val res = do { (r, w) \<leftarrow> res; if r \<noteq> 0 then close_conn val w else Some w }"

definition dispatch :: "nat \<Rightarrow> nat \<Rightarrow> 32 word \<Rightarrow> world \<Rightarrow> world option" where
  "dispatch val bfsize etype w = do {
     e \<leftarrow> ev w val;
     (case v_type e of
        EV_ACCEPT \<Rightarrow> do {
          (r, w) \<leftarrow> (if etype AND POLLHUP \<noteq> 0 then Some (- 1, w) else on_accept val w);
          Some (if r \<noteq> 0 then w\<lparr>w_not_exit := False\<rparr> else w) }
      | EV_REQUEST \<Rightarrow> or_close val (if etype AND POLLHUP \<noteq> 0 then Some (- 1, w) else on_request val bfsize w)
      | EV_PRE_TUNNEL \<Rightarrow> or_close val (on_tunnel_check val bfsize (etype AND POLLOUT \<noteq> 0) w)
      | EV_TUNNEL \<Rightarrow> or_close val (on_tunnel val bfsize etype w)
      | EV_UDP_TUNNEL \<Rightarrow> or_close val (on_udp_tunnel val bfsize w)
      | EV_CONNECT \<Rightarrow> or_close val (on_connect val (etype AND POLLERR \<noteq> 0) w)
      | EV_DESYNC \<Rightarrow> or_close val (on_desync val bfsize (etype AND POLLOUT \<noteq> 0) w)
      | EV_IGNORE \<Rightarrow> if etype AND (POLLHUP OR POLLERR OR POLLRDHUP) \<noteq> 0 then close_conn val w else Some w) }"

text \<open>\<open>NOT_EXIT\<close> as the loop reads it.\<close>

definition poll_signals :: "world \<Rightarrow> world" where
  "poll_signals w = (let (r, w) = call Signals w in if r \<noteq> 0 then w\<lparr>w_not_exit := False\<rparr> else w)"

text \<open>One round of the loop: true if there is another one.\<close>

definition loop_step :: "nat \<Rightarrow> int \<Rightarrow> world \<Rightarrow> (bool \<times> int \<times> world) option" where
  "loop_step bfsize i w = do {
     (e, i, w) \<leftarrow> next_event i w;
     (case e of
        None \<Rightarrow> Some (w_errno w = EINTR, i, w)
      | Some (val, etype) \<Rightarrow> do { w \<leftarrow> dispatch val bfsize etype w; Some (True, i, w) }) }"

partial_function (option) main_loop :: "nat \<Rightarrow> int \<Rightarrow> world \<Rightarrow> world option" where
  "main_loop bfsize i w =
     (let w = poll_signals w in
      if \<not> w_not_exit w then Some w
      else do {
        (go, i, w) \<leftarrow> loop_step bfsize i w;
        if go then main_loop bfsize i w else Some w })"

text \<open>\<open>junk\<close> and \<open>jbuf\<close>: what the memory from \<open>malloc\<close> holds.\<close>

definition event_loop :: "(nat \<Rightarrow> eval) \<Rightarrow> (nat \<Rightarrow> byte list) \<Rightarrow> int \<Rightarrow> world \<Rightarrow> (int \<times> world) option" where
  "event_loop junk jbuf srvfd w = do {
     (ok, w) \<leftarrow> init_pool junk (pr_max_open (w_params w) * 2 + 1) w;
     if \<not> ok then Some (- 1, close_fd srvfd w)
     else do {
       (v, w) \<leftarrow> add_event EV_ACCEPT srvfd POLLIN w;
       if v = None then do { w \<leftarrow> destroy_pool w; Some (- 1, close_fd srvfd w) }
       else let bfsize = pr_bfsize (w_params w); (r, w) = call (Malloc bfsize) w in
       if r < 0 then do { w \<leftarrow> destroy_pool w; Some (- 1, w) }
       else do {
         w \<leftarrow> main_loop bfsize (- 1) (w\<lparr>w_buffer := jbuf bfsize\<rparr>);
         w \<leftarrow> destroy_pool (w\<lparr>w_buffer := []\<rparr>);
         Some (0, w) } } }"

definition listen_socket :: "sockaddr_ina \<Rightarrow> world \<Rightarrow> int \<times> world" where
  "listen_socket srv w =
     (let (srvfd, w) = nb_socket (sa_family srv) SOCK_STREAM w in
      if srvfd < 0 then (- 1, w)
      else let (r, w) = call (Setsockopt srvfd (So_reuseaddr 1)) w in
      if r = - 1 then (- 1, close_fd srvfd w)
      else let (r, w) = call (Bind srvfd srv) w in
      if r < 0 then (- 1, close_fd srvfd w)
      else let (r, w) = call (Listen srvfd 10) w in
      if r \<noteq> 0 then (- 1, close_fd srvfd w)
      else (srvfd, w))"

definition run :: "(nat \<Rightarrow> eval) \<Rightarrow> (nat \<Rightarrow> byte list) \<Rightarrow> sockaddr_ina \<Rightarrow> world \<Rightarrow> (int \<times> world) option" where
  "run junk jbuf srv w =
     (let (fd, w) = listen_socket srv w in
      if fd < 0 then Some (- 1, w) else event_loop junk jbuf fd w)"

end
