(* ===== verification/Options.thy ===== *)
theory Options
  imports Proxy
begin

text \<open>
  The command line, \<open>src/app/src/main/cpp/byedpi/main.c\<close>: escapes (\<open>parse_cform\<close>, \<open>data_from_str\<close>),
  files (\<open>ftob\<close>), host lists (\<open>lower_char\<close>, \<open>parse_hosts\<close>), numbers (\<open>parse_offset\<close>), the option table,
  and \<open>main\<close> with one definition per group of options. A C string is the list of its bytes without
  the final null byte.

  \<open>getopt_long\<close> is not modelled: \<open>main\<close> takes the list of its results, each with its \<open>optarg\<close>. The
  conversion of a decimal fraction (\<open>strtof\<close>) is a parameter too. The \<open>dp\<close> of \<open>main\<close> always points to
  the last strategy of the settings.
\<close>

section \<open>Definitions\<close>

text \<open>\<open>*end\<close> for a position in a C string.\<close>

definition char_at :: "byte list \<Rightarrow> nat \<Rightarrow> byte option" where
  "char_at s i = rd (s @ [0]) i"

definition strtol_str :: "byte list \<Rightarrow> nat \<Rightarrow> (int \<times> nat) option" where
  "strtol_str s p = strtol (s @ [0]) p 0"

definition INT_MAX :: int where "INT_MAX = 2147483647"

text \<open>The conversion of a \<open>long\<close> to an \<open>int\<close>.\<close>

definition to_int :: "int \<Rightarrow> int" where
  "to_int x = (x + 2147483648) mod 4294967296 - 2147483648"

subsection \<open>Escapes\<close>

definition esca :: "(byte \<times> byte) list" where
  "esca = [(114, 13), (110, 10), (116, 9), (92, 92), (102, 12), (98, 8), (118, 11), (97, 7)]"

text \<open>\<open>sscanf\<close> of an unsigned number in a field of \<open>width\<close> characters after white space: the value and
  the number of characters read. By the C standard the input item is the longest start that is a
  start of a number, so that a prefix \<open>0x\<close> without a digit does not match.\<close>

definition scan_digits :: "nat \<Rightarrow> byte list \<Rightarrow> (nat \<times> nat) option" where
  "scan_digits base s =
     (let ds = takeWhile (is_digit_of base) s in
      if ds = [] then None else Some (foldl (\<lambda>a d. a * base + the (digit_val d)) 0 ds, length ds))"

definition scan_prefixed :: "nat \<Rightarrow> byte list \<Rightarrow> (nat \<times> nat) option" where
  "scan_prefixed base s =
     (if base = 16 \<and> take 1 s = [48] \<and> (take 1 (drop 1 s) = [120] \<or> take 1 (drop 1 s) = [88])
      then map_option (\<lambda>(v, k). (v, k + 2)) (scan_digits base (drop 2 s))
      else scan_digits base s)"

definition scan_hh :: "nat \<Rightarrow> nat \<Rightarrow> byte list \<Rightarrow> (byte \<times> nat) option" where
  "scan_hh base width s =
     (let ws = length (takeWhile isspace s);
          item = take width (drop ws s);
          sg = (if take 1 item = [45] \<or> take 1 item = [43] then 1 else 0) in
      map_option (\<lambda>(v, k). (if take 1 item = [45] then - of_nat v else of_nat v, ws + sg + k))
        (scan_prefixed base (drop sg item)))"

text \<open>The escape after a backslash: the byte and the number of characters it takes.\<close>

definition scan_escape :: "byte list \<Rightarrow> (byte \<times> nat) option" where
  "scan_escape s =
     (case (case s of [] \<Rightarrow> None | c # _ \<Rightarrow> map_of esca c) of
        Some v \<Rightarrow> Some (v, 1)
      | None \<Rightarrow>
          (case (if take 1 s = [120] then scan_hh 16 2 (drop 1 s) else None) of
             Some (v, k) \<Rightarrow> Some (v, k + 1)
           | None \<Rightarrow> scan_hh 8 3 s))"

text \<open>The bytes that \<open>parse_cform\<close> writes, at most \<open>blen\<close>; their number is its result. A backslash
  that starts no escape is dropped.\<close>

function parse_cform :: "nat \<Rightarrow> byte list \<Rightarrow> byte list" where
  "parse_cform 0 s = []"
| "parse_cform (Suc k) [] = []"
| "parse_cform (Suc k) (c # s) =
     (if c \<noteq> 92 then c # parse_cform k s
      else (case scan_escape s of
              Some (v, n) \<Rightarrow> v # parse_cform k (drop n s)
            | None \<Rightarrow> parse_cform (Suc k) s))"
  by pat_completeness auto
termination
  by (relation "measure (\<lambda>(k, s). length s)") auto

definition data_from_str :: "byte list \<Rightarrow> world \<Rightarrow> byte list option \<times> world" where
  "data_from_str s w =
     (if s = [] then (None, w)
      else let (r, w) = call (Malloc (length s)) w in
      if r < 0 then (None, w)
      else let d = parse_cform (length s) s;
               (_, w) = call_if (length d \<noteq> length s) (Malloc (length d)) w in
      (if d = [] then None else Some d, w))"

text \<open>\<open>Read_file\<close> stands for \<open>fopen\<close>, \<open>ftell\<close> (the return value) and \<open>fread\<close> (the data).\<close>

definition ftob :: "byte list \<Rightarrow> world \<Rightarrow> byte list option \<times> world" where
  "ftob s w =
     (if take 1 s = [58] then data_from_str (drop 1 s) w
      else let (res, w) = sys (Read_file s) w in
      if r_ret res \<le> 0 then (None, w)
      else let (m, w) = call (Malloc (nat (r_ret res))) w in
      if m < 0 then (None, w)
      else (if int (length (r_data res)) \<noteq> r_ret res then None else Some (r_data res), w))"

subsection \<open>Host lists\<close>

text \<open>The character afterwards, and whether it is one of a host name.\<close>

definition lower_char :: "byte \<Rightarrow> byte \<times> bool" where
  "lower_char c =
     (if c < 65 then (c, \<not> (c > 57 \<or> c < 45))
      else if c < 97 then (if c > 90 then (c, False) else (c + 32, True))
      else (c, \<not> c > 122))"

definition is_sep :: "byte \<Rightarrow> bool" where
  "is_sep c = (c = 32 \<or> c = 10 \<or> c = 13)"

text \<open>The loop over the text, with \<open>cur\<close> the bytes from \<open>s\<close> to \<open>e\<close>, in lower case. \<open>None\<close> for the
  pool: an allocation failed.\<close>

fun hosts_loop :: "byte list \<Rightarrow> byte list \<Rightarrow> mphdr \<Rightarrow> world \<Rightarrow> (mphdr option \<times> world) option" where
  "hosts_loop [] cur hdr w =
     (if cur = [] then Some (Some hdr, w)
      else do {
        (v, hdr, w) \<leftarrow> pool_mem_add hdr cur w;
        Some (if v = None then None else Some hdr, w) })"
| "hosts_loop (c # cs) cur hdr w =
     (if \<not> is_sep c then hosts_loop cs (cur @ [fst (lower_char c)]) hdr w
      else if cur = [] then hosts_loop cs [] hdr w
      else do {
        (v, hdr, w) \<leftarrow> pool_mem_add hdr cur w;
        if v = None then Some (None, w) else hosts_loop cs [] hdr w })"

definition parse_hosts :: "byte list \<Rightarrow> world \<Rightarrow> (mphdr option \<times> world) option" where
  "parse_hosts buffer w =
     (let (r, w) = call (Malloc 16) w in
      case mem_pool (0 \<le> r) True of
        None \<Rightarrow> Some (None, w)
      | Some hdr \<Rightarrow> hosts_loop buffer [] hdr w)"

subsection \<open>Numbers and addresses\<close>

definition get_addr :: "byte list \<Rightarrow> sockaddr_ina \<Rightarrow> world \<Rightarrow> (int \<times> sockaddr_ina \<times> world)" where
  "get_addr s addr w =
     (let (res, w) = sys (Getaddrnum s) w in
      if r_ret res \<noteq> 0 then (- 1, addr, w)
      else (0, (if sa_family (r_addr res) = AF_INET6 then addr\<lparr>sa_addr16 := sa_addr16 (r_addr res)\<rparr>
                else addr\<lparr>sa_word4 := sa_word4 (r_addr res)\<rparr>)\<lparr>sa_family := sa_family (r_addr res)\<rparr>, w))"

definition get_default_ttl :: "world \<Rightarrow> int \<times> world" where
  "get_default_ttl w =
     (let (fd, w) = call (Socket AF_INET SOCK_STREAM False) w in
      if fd < 0 then (- 1, w)
      else let (res, w) = sys (Getsockopt fd Get_ip_ttl) w in
      (if r_ret res < 0 then - 1 else rval res 0, close_fd fd w))"

text \<open>The value and the part afterwards.\<close>

definition parse_offset :: "part \<Rightarrow> byte list \<Rightarrow> (int \<times> part) option" where
  "parse_offset part s = do {
     (val, end) \<leftarrow> strtol_str s 0;
     c \<leftarrow> char_at s end;
     if c = 43
     then do {
       d \<leftarrow> char_at s (end + 1);
       if d = 115 then Some (0, part\<lparr>part_flag := OFFSET_SNI, part_pos := val\<rparr>)
       else if d = 104 then Some (0, part\<lparr>part_flag := OFFSET_HOST, part_pos := val\<rparr>)
       else if d = 101 then Some (0, part\<lparr>part_flag := OFFSET_END, part_pos := val\<rparr>)
       else Some (- 1, part) }
     else if c \<noteq> 0 then Some (- 1, part)
     else Some (0, part\<lparr>part_pos := val\<rparr>) }"

text \<open>\<open>add\<close>: the list with one more element, which is all zeros.\<close>

definition add :: "'a list \<Rightarrow> 'a \<Rightarrow> nat \<Rightarrow> world \<Rightarrow> 'a list option \<times> world" where
  "add xs zero ss w =
     (let (r, w) = call (Malloc (ss * (length xs + 1))) w in (if r < 0 then None else Some (xs @ [zero]), w))"

text \<open>\<open>end = optarg; while (end && !invalid) ...\<close>: a list of letters, each with the flag it sets.\<close>

function flag_letters :: "(byte \<Rightarrow> 32 word option) \<Rightarrow> byte list \<Rightarrow> 32 word \<Rightarrow> bool \<times> 32 word" where
  "flag_letters f s acc =
     (case f (case s of [] \<Rightarrow> 0 | c # _ \<Rightarrow> c) of
        None \<Rightarrow> (False, acc)
      | Some x \<Rightarrow>
          (case dropWhile (\<lambda>c. c \<noteq> 44) s of
             [] \<Rightarrow> (True, acc OR x)
           | _ # rest \<Rightarrow> flag_letters f rest (acc OR x)))"
  by pat_completeness auto
termination
proof (relation "measure (\<lambda>(f, s, acc). length s)", goal_cases)
  case (2 f s acc x c rest)
  then show ?case using length_dropWhile_le [of "\<lambda>c. c \<noteq> 44" s] by simp
qed simp

declare flag_letters.simps [simp del]

subsection \<open>The option table\<close>

record option_row =
  o_name :: string
  o_has_arg :: nat
  o_val :: byte

definition row :: "string \<Rightarrow> nat \<Rightarrow> char \<Rightarrow> option_row" where
  "row name arg c = \<lparr>o_name = name, o_has_arg = arg, o_val = of_char c\<rparr>"

definition options :: "option_row list" where
  "options =
     [row ''no-domain'' 0 CHR ''N'', row ''no-ipv6'' 0 CHR ''X'', row ''no-udp'' 0 CHR ''U'',
      row ''help'' 0 CHR ''h'', row ''version'' 0 CHR ''v'', row ''ip'' 1 CHR ''i'',
      row ''port'' 1 CHR ''p'', row ''conn-ip'' 1 CHR ''I'', row ''buf-size'' 1 CHR ''b'',
      row ''max-conn'' 1 CHR ''c'', row ''debug'' 1 CHR ''x'', row ''tfo '' 0 CHR ''F'',
      row ''auto'' 1 CHR ''A'', row ''cache-ttl'' 1 CHR ''u'', row ''timeout'' 1 CHR ''T'',
      row ''proto'' 1 CHR ''K'', row ''hosts'' 1 CHR ''H'', row ''pf'' 1 CHR ''V'',
      row ''split'' 1 CHR ''s'', row ''disorder'' 1 CHR ''d'', row ''oob'' 1 CHR ''o'',
      row ''disoob'' 1 CHR ''q'', row ''fake'' 1 CHR ''f'', row ''ttl'' 1 CHR ''t'',
      row ''ip-opt'' 2 CHR ''k'', row ''md5sig'' 0 CHR ''S'', row ''fake-data'' 1 CHR ''l'',
      row ''tls-sni'' 1 CHR ''n'', row ''fake-offset'' 1 CHR ''O'', row ''oob-data'' 1 CHR ''e'',
      row ''mod-http'' 1 CHR ''M'', row ''tlsrec'' 1 CHR ''r'', row ''udp-fake'' 1 CHR ''a'',
      row ''def-ttl'' 1 CHR ''g'', row ''delay'' 1 CHR ''w'', row ''not-wait-send'' 0 CHR ''W'',
      row ''drop-sack'' 0 CHR ''Y'', row ''protect-path'' 1 CHR ''P'',
      \<lparr>o_name = [], o_has_arg = 0, o_val = 0\<rparr>]"

text \<open>The loops that build the string of short options in an array of \<open>optc + 1\<close> bytes. \<open>None\<close>: a
  write outside the array or a read outside the table.\<close>

definition optc :: nat where
  "optc = length options + sum_list (map o_has_arg options)"

fun put_colons :: "nat \<Rightarrow> nat \<Rightarrow> byte list \<Rightarrow> (nat \<times> byte list) option" where
  "put_colons 0 pos opt = Some (pos, opt)"
| "put_colons (Suc c) pos opt = do { opt \<leftarrow> wr opt (pos + 1) 58; put_colons c (pos + 1) opt }"

function opt_string_loop :: "nat \<Rightarrow> option_row list \<Rightarrow> nat \<Rightarrow> byte list \<Rightarrow> byte list option" where
  "opt_string_loop z rows pos opt =
     (if pos \<ge> z then Some opt
      else (case rows of
              [] \<Rightarrow> None
            | r # rows \<Rightarrow> do {
                opt \<leftarrow> wr opt pos (o_val r);
                (pos, opt) \<leftarrow> put_colons (o_has_arg r) pos opt;
                opt_string_loop z rows (pos + 1) opt }))"
  by pat_completeness auto
termination
  by (relation "measure (\<lambda>(z, rows, pos, opt). length rows)") auto

declare opt_string_loop.simps [simp del]

definition opt_string :: "byte list \<Rightarrow> byte list option" where
  "opt_string junk = do { opt \<leftarrow> wr junk optc 0; opt_string_loop optc options 0 opt }"

subsection \<open>The options\<close>

definition init_params :: params where
  "init_params = \<lparr>pr_dp = [], pr_sfdelay = 3, pr_wait_send = True, pr_def_ttl = 0,
     pr_custom_ttl = False, pr_tfo = False, pr_timeout = 0, pr_cache_ttl = 100800, pr_ipv6 = True,
     pr_resolve = True, pr_udp = True, pr_max_open = 512, pr_debug = 0, pr_bfsize = 16384,
     pr_baddr = zero_addr\<lparr>sa_family := AF_INET6\<rparr>, pr_laddr = zero_addr\<lparr>sa_family := AF_INET\<rparr>,
     pr_mempool = None, pr_protect_path = None\<rparr>"

definition zero_dp :: desync_params where
  "zero_dp = \<lparr>dp_ttl = 0, dp_ip_options = None, dp_md5sig = False, dp_fake_data = None,
     dp_udp_fake_count = 0, dp_fake_offset = 0, dp_drop_sack = False, dp_oob_char = (0, 0),
     dp_parts = [], dp_mod_http = 0, dp_tlsrec = [], dp_proto = 0, dp_detect = 0, dp_hosts = None,
     dp_pf = (0, 0), dp_file = None\<rparr>"

definition zero_part :: part where
  "zero_part = \<lparr>part_m = DESYNC_NONE, part_flag = OFFSET_NONE, part_pos = 0\<rparr>"

text \<open>After an option: on to the next, \<open>invalid\<close> was set, or \<open>main\<close> returns.\<close>

datatype outcome = Next | Invalid | Quit int

definition set_params :: "(params \<Rightarrow> params) \<Rightarrow> world \<Rightarrow> world" where
  "set_params f w = w\<lparr>w_params := f (w_params w)\<rparr>"

definition last_dp :: "world \<Rightarrow> desync_params option" where
  "last_dp w = (if pr_dp (w_params w) = [] then None else Some (last (pr_dp (w_params w))))"

definition set_dp :: "(desync_params \<Rightarrow> desync_params) \<Rightarrow> world \<Rightarrow> world" where
  "set_dp f = set_params (\<lambda>p. p\<lparr>pr_dp := butlast (pr_dp p) @ [f (last (pr_dp p))]\<rparr>)"

definition add_dp :: "world \<Rightarrow> bool \<times> world" where
  "add_dp w =
     (let (r, w) = add (pr_dp (w_params w)) zero_dp 128 w in
      case r of None \<Rightarrow> (False, w) | Some dps \<Rightarrow> (True, set_params (\<lambda>p. p\<lparr>pr_dp := dps\<rparr>) w))"

text \<open>A number that takes all of the argument and lies within limits.\<close>

definition number :: "byte list \<Rightarrow> (int \<Rightarrow> bool) \<Rightarrow> int option option" where
  "number s good = do {
     (val, end) \<leftarrow> strtol_str s 0;
     c \<leftarrow> char_at s end;
     Some (if good val \<and> c = 0 then Some val else None) }"

definition num_option ::
    "byte list \<Rightarrow> (int \<Rightarrow> bool) \<Rightarrow> (int \<Rightarrow> world \<Rightarrow> world) \<Rightarrow> world \<Rightarrow> (outcome \<times> world) option" where
  "num_option s good f w = do {
     v \<leftarrow> number s good;
     Some (case v of None \<Rightarrow> (Invalid, w) | Some v \<Rightarrow> (Next, f v w)) }"

definition flag_option ::
    "(byte \<Rightarrow> 32 word option) \<Rightarrow> byte list \<Rightarrow> 32 word \<Rightarrow> (32 word \<Rightarrow> desync_params \<Rightarrow> desync_params) \<Rightarrow>
     world \<Rightarrow> outcome \<times> world" where
  "flag_option f s old assign w =
     (let (ok, x) = flag_letters f s old in (if ok then Next else Invalid, set_dp (assign x) w))"

definition addr_option ::
    "byte list \<Rightarrow> sockaddr_ina \<Rightarrow> (sockaddr_ina \<Rightarrow> params \<Rightarrow> params) \<Rightarrow> world \<Rightarrow> outcome \<times> world" where
  "addr_option s old assign w =
     (let (r, a, w) = get_addr s old w in
      if r < 0 then (Invalid, w) else (Next, set_params (assign a) w))"

text \<open>Options without an argument.\<close>

definition plain_option :: "byte \<Rightarrow> world \<Rightarrow> (outcome \<times> world) option" where
  "plain_option rez w =
     (if rez = of_char CHR ''N'' then Some (Next, set_params (\<lambda>p. p\<lparr>pr_resolve := False\<rparr>) w)
      else if rez = of_char CHR ''X'' then Some (Next, set_params (\<lambda>p. p\<lparr>pr_ipv6 := False\<rparr>) w)
      else if rez = of_char CHR ''U'' then Some (Next, set_params (\<lambda>p. p\<lparr>pr_udp := False\<rparr>) w)
      else if rez = of_char CHR ''h'' \<or> rez = of_char CHR ''v'' then Some (Quit 0, w)
      else if rez = of_char CHR ''F'' then Some (Next, set_params (\<lambda>p. p\<lparr>pr_tfo := True\<rparr>) w)
      else if rez = of_char CHR ''S'' then Some (Next, set_dp (\<lambda>d. d\<lparr>dp_md5sig := True\<rparr>) w)
      else if rez = of_char CHR ''Y'' then Some (Next, set_dp (\<lambda>d. d\<lparr>dp_drop_sack := True\<rparr>) w)
      else if rez = of_char CHR ''W'' then Some (Next, set_params (\<lambda>p. p\<lparr>pr_wait_send := False\<rparr>) w)
      else if rez = 0 then Some (Next, w)
      else Some (Quit (- 1), w))"

text \<open>Options that set one number.\<close>

definition port_option :: "byte list \<Rightarrow> world \<Rightarrow> (outcome \<times> world) option" where
  "port_option s = num_option s (\<lambda>v. 0 < v \<and> v \<le> 65535)
     (\<lambda>v. set_params (\<lambda>p. p\<lparr>pr_laddr := (pr_laddr p)\<lparr>sa_port := htons (nat v)\<rparr>\<rparr>))"

definition bfsize_option :: "byte list \<Rightarrow> world \<Rightarrow> (outcome \<times> world) option" where
  "bfsize_option s = num_option s (\<lambda>v. 0 < v \<and> v \<le> INT_MAX div 4)
     (\<lambda>v. set_params (\<lambda>p. p\<lparr>pr_bfsize := nat v\<rparr>))"

definition max_open_option :: "byte list \<Rightarrow> world \<Rightarrow> (outcome \<times> world) option" where
  "max_open_option s = num_option s (\<lambda>v. 0 < v \<and> v < 65535 div 2)
     (\<lambda>v. set_params (\<lambda>p. p\<lparr>pr_max_open := nat v\<rparr>))"

definition cache_ttl_option :: "byte list \<Rightarrow> world \<Rightarrow> (outcome \<times> world) option" where
  "cache_ttl_option s = num_option s (\<lambda>v. 0 < v) (\<lambda>v. set_params (\<lambda>p. p\<lparr>pr_cache_ttl := v\<rparr>))"

definition def_ttl_option :: "byte list \<Rightarrow> world \<Rightarrow> (outcome \<times> world) option" where
  "def_ttl_option s = num_option s (\<lambda>v. 0 < v \<and> v \<le> 255)
     (\<lambda>v. set_params (\<lambda>p. p\<lparr>pr_def_ttl := v, pr_custom_ttl := True\<rparr>))"

definition ttl_option :: "byte list \<Rightarrow> world \<Rightarrow> (outcome \<times> world) option" where
  "ttl_option s = num_option s (\<lambda>v. 0 < v \<and> v \<le> 255) (\<lambda>v. set_dp (\<lambda>d. d\<lparr>dp_ttl := v\<rparr>))"

definition fake_offset_option :: "byte list \<Rightarrow> world \<Rightarrow> (outcome \<times> world) option" where
  "fake_offset_option s = num_option s (\<lambda>v. 0 < v) (\<lambda>v. set_dp (\<lambda>d. d\<lparr>dp_fake_offset := to_int v\<rparr>))"

definition udp_fake_option :: "byte list \<Rightarrow> world \<Rightarrow> (outcome \<times> world) option" where
  "udp_fake_option s = num_option s (\<lambda>v. 0 \<le> v \<and> v \<le> INT_MAX)
     (\<lambda>v. set_dp (\<lambda>d. d\<lparr>dp_udp_fake_count := v\<rparr>))"

definition debug_option :: "byte list \<Rightarrow> world \<Rightarrow> (outcome \<times> world) option" where
  "debug_option s w = do {
     (val, _) \<leftarrow> strtol_str s 0;
     Some (if to_int val < 0 then Invalid else Next, set_params (\<lambda>p. p\<lparr>pr_debug := to_int val\<rparr>) w) }"

definition delay_option :: "byte list \<Rightarrow> world \<Rightarrow> (outcome \<times> world) option" where
  "delay_option s w = do {
     (val, end) \<leftarrow> strtol_str s 0;
     c \<leftarrow> char_at s end;
     Some (if val < 0 \<or> end = 0 \<or> val \<ge> 1000 \<or> c \<noteq> 0 then Invalid else Next,
           set_params (\<lambda>p. p\<lparr>pr_sfdelay := val\<rparr>) w) }"

text \<open>\<open>msec\<close> stands for \<open>(long)(strtof(optarg, &end) * 1000)\<close>, with the position \<open>end\<close>.\<close>

definition timeout_option :: "(byte list \<Rightarrow> int \<times> nat) \<Rightarrow> byte list \<Rightarrow> world \<Rightarrow> (outcome \<times> world) option" where
  "timeout_option msec s w =
     (let (val, end) = msec s in do {
       c \<leftarrow> char_at s end;
       Some (if val \<le> 0 \<or> val > 4294967295 \<or> c \<noteq> 0 then (Invalid, w)
             else (Next, set_params (\<lambda>p. p\<lparr>pr_timeout := nat val\<rparr>) w)) })"

definition pf_option :: "byte list \<Rightarrow> world \<Rightarrow> (outcome \<times> world) option" where
  "pf_option s w = do {
     (val, end) \<leftarrow> strtol_str s 0;
     if val \<le> 0 \<or> val > 65535 then Some (Invalid, w)
     else do {
       let w = set_dp (\<lambda>d. d\<lparr>dp_pf := (htons (nat val), snd (dp_pf d))\<rparr>) w;
       c \<leftarrow> char_at s end;
       (bad, val, end) \<leftarrow>
         (if c = 45
          then do { (v, e) \<leftarrow> strtol_str s (end + 1); Some (v \<le> 0 \<or> v > 65535, v, e) }
          else Some (False, val, end));
       c \<leftarrow> char_at s end;
       Some (if c \<noteq> 0 then (Invalid, w)
             else (if bad then Invalid else Next,
                   set_dp (\<lambda>d. d\<lparr>dp_pf := (fst (dp_pf d), htons (u16 val))\<rparr>) w)) } }"

text \<open>Lists of letters.\<close>

definition detect_letter :: "byte \<Rightarrow> 32 word option" where
  "detect_letter c =
     (if c = of_char CHR ''t'' then Some DETECT_TORST
      else if c = of_char CHR ''r'' then Some DETECT_HTTP_LOCAT
      else if c = of_char CHR ''a'' \<or> c = of_char CHR ''s'' then Some DETECT_TLS_ERR
      else if c = of_char CHR ''n'' then Some 0 else None)"

definition proto_letter :: "byte \<Rightarrow> 32 word option" where
  "proto_letter c =
     (if c = of_char CHR ''t'' then Some IS_HTTPS
      else if c = of_char CHR ''h'' then Some IS_HTTP
      else if c = of_char CHR ''u'' then Some IS_UDP else None)"

definition mod_letter :: "byte \<Rightarrow> 32 word option" where
  "mod_letter c =
     (if c = of_char CHR ''r'' then Some MH_SPACE
      else if c = of_char CHR ''h'' then Some MH_HMIX
      else if c = of_char CHR ''d'' then Some MH_DMIX else None)"

definition auto_option :: "byte list \<Rightarrow> world \<Rightarrow> (outcome \<times> world) option" where
  "auto_option s w =
     (let (ok, w) = add_dp w in
      if \<not> ok then Some (Quit (- 1), w)
      else do {
        dp \<leftarrow> last_dp w;
        Some (flag_option detect_letter s (dp_detect dp) (\<lambda>x d. d\<lparr>dp_detect := x\<rparr>) w) })"

text \<open>Positions: \<open>s\<close>, \<open>d\<close>, \<open>o\<close>, \<open>q\<close>, \<open>f\<close> add to the parts, \<open>r\<close> to the TLS records.\<close>

definition part_mode :: "byte \<Rightarrow> demode" where
  "part_mode rez =
     (if rez = of_char CHR ''s'' then DESYNC_SPLIT
      else if rez = of_char CHR ''d'' then DESYNC_DISORDER
      else if rez = of_char CHR ''o'' then DESYNC_OOB
      else if rez = of_char CHR ''q'' then DESYNC_DISOOB else DESYNC_FAKE)"

definition part_option :: "byte \<Rightarrow> byte list \<Rightarrow> world \<Rightarrow> (outcome \<times> world) option" where
  "part_option rez s w = do {
     dp \<leftarrow> last_dp w;
     let (ps, w) = add (dp_parts dp) zero_part 16 w;
     (case ps of
        None \<Rightarrow> Some (Quit (- 1), w)
      | Some ps \<Rightarrow> do {
          (r, part) \<leftarrow> parse_offset (last ps) s;
          if r \<noteq> 0 then Some (Invalid, set_dp (\<lambda>d. d\<lparr>dp_parts := ps\<rparr>) w)
          else Some (Next, set_dp (\<lambda>d. d\<lparr>dp_parts := butlast ps @ [part\<lparr>part_m := part_mode rez\<rparr>]\<rparr>) w) }) }"

definition tlsrec_option :: "byte list \<Rightarrow> world \<Rightarrow> (outcome \<times> world) option" where
  "tlsrec_option s w = do {
     dp \<leftarrow> last_dp w;
     let (ps, w) = add (dp_tlsrec dp) zero_part 16 w;
     (case ps of
        None \<Rightarrow> Some (Quit (- 1), w)
      | Some ps \<Rightarrow> do {
          (r, part) \<leftarrow> parse_offset (last ps) s;
          Some (if r \<noteq> 0 \<or> part_pos part > 65535 then Invalid else Next,
                set_dp (\<lambda>d. d\<lparr>dp_tlsrec := butlast ps @ [part]\<rparr>) w) }) }"

text \<open>Options with data.\<close>

definition hosts_option :: "byte list \<Rightarrow> world \<Rightarrow> (outcome \<times> world) option" where
  "hosts_option s w = do {
     dp \<leftarrow> last_dp w;
     if dp_file dp \<noteq> None then Some (Next, w)
     else let (file, w) = ftob s w in
     (case file of
        None \<Rightarrow> Some (Invalid, w)
      | Some file \<Rightarrow> do {
          (hosts, w) \<leftarrow> parse_hosts file (set_dp (\<lambda>d. d\<lparr>dp_file := Some file\<rparr>) w);
          let w = set_dp (\<lambda>d. d\<lparr>dp_hosts := hosts\<rparr>) w;
          Some (if hosts = None then Quit (- 1) else Next, w) }) }"

definition ip_option :: "byte list" where
  "ip_option = [0]"

definition ip_opt_option :: "byte list option \<Rightarrow> world \<Rightarrow> (outcome \<times> world) option" where
  "ip_opt_option arg w = do {
     dp \<leftarrow> last_dp w;
     if dp_ip_options dp \<noteq> None then Some (Next, w)
     else let (ops, w) = (case arg of Some s \<Rightarrow> ftob s w | None \<Rightarrow> (Some ip_option, w)) in
     Some (if ops = None then Invalid else Next, set_dp (\<lambda>d. d\<lparr>dp_ip_options := ops\<rparr>) w) }"

definition fake_data_option :: "byte list \<Rightarrow> world \<Rightarrow> (outcome \<times> world) option" where
  "fake_data_option s w = do {
     dp \<leftarrow> last_dp w;
     if dp_fake_data dp \<noteq> None then Some (Next, w)
     else let (data, w) = ftob s w in
     Some (if data = None then Invalid else Next, set_dp (\<lambda>d. d\<lparr>dp_fake_data := data\<rparr>) w) }"

definition tls_sni_option :: "byte list \<Rightarrow> world \<Rightarrow> (outcome \<times> world) option" where
  "tls_sni_option s w = do {
     (r, tls) \<leftarrow> change_tls_sni s (w_fake_tls w) (length (w_fake_tls w));
     Some (if r \<noteq> 0 then Quit (- 1) else Next, w\<lparr>w_fake_tls := tls\<rparr>) }"

definition oob_option :: "byte list \<Rightarrow> world \<Rightarrow> (outcome \<times> world) option" where
  "oob_option s w =
     (case parse_cform 1 s of
        [c] \<Rightarrow> Some (Next, set_dp (\<lambda>d. d\<lparr>dp_oob_char := (c, 1)\<rparr>) w)
      | _ \<Rightarrow> Some (Invalid, w))"

definition flags_option :: "byte \<Rightarrow> byte list \<Rightarrow> world \<Rightarrow> (outcome \<times> world) option" where
  "flags_option rez s w = do {
     dp \<leftarrow> last_dp w;
     Some (if rez = of_char CHR ''K''
       then flag_option proto_letter s (dp_proto dp) (\<lambda>x d. d\<lparr>dp_proto := x\<rparr>) w
       else flag_option mod_letter s (dp_mod_http dp) (\<lambda>x d. d\<lparr>dp_mod_http := x\<rparr>) w) }"

text \<open>The \<open>switch\<close> of \<open>main\<close>.\<close>

definition option_arg ::
    "(byte list \<Rightarrow> int \<times> nat) \<Rightarrow> byte \<Rightarrow> byte list \<Rightarrow> world \<Rightarrow> (outcome \<times> world) option" where
  "option_arg msec rez s w =
     (if rez = of_char CHR ''i''
      then Some (addr_option s (pr_laddr (w_params w)) (\<lambda>a p. p\<lparr>pr_laddr := a\<rparr>) w)
      else if rez = of_char CHR ''I''
      then Some (addr_option s (pr_baddr (w_params w)) (\<lambda>a p. p\<lparr>pr_baddr := a\<rparr>) w)
      else if rez = of_char CHR ''p'' then port_option s w
      else if rez = of_char CHR ''x'' then debug_option s w
      else if rez = of_char CHR ''w'' then delay_option s w
      else if rez = of_char CHR ''T'' then timeout_option msec s w
      else if rez = of_char CHR ''V'' then pf_option s w
      else if rez = of_char CHR ''A'' then auto_option s w
      else if rez = of_char CHR ''K'' \<or> rez = of_char CHR ''M'' then flags_option rez s w
      else if rez \<in> of_char ` set ''sdoqf'' then part_option rez s w
      else if rez = of_char CHR ''r'' then tlsrec_option s w
      else if rez = of_char CHR ''H'' then hosts_option s w
      else if rez = of_char CHR ''l'' then fake_data_option s w
      else if rez = of_char CHR ''n'' then tls_sni_option s w
      else if rez = of_char CHR ''e'' then oob_option s w
      else if rez = of_char CHR ''P''
      then Some (Next, set_params (\<lambda>p. p\<lparr>pr_protect_path := Some s\<rparr>) w)
      else if rez = of_char CHR ''b'' then bfsize_option s w
      else if rez = of_char CHR ''c'' then max_open_option s w
      else if rez = of_char CHR ''u'' then cache_ttl_option s w
      else if rez = of_char CHR ''g'' then def_ttl_option s w
      else if rez = of_char CHR ''t'' then ttl_option s w
      else if rez = of_char CHR ''O'' then fake_offset_option s w
      else udp_fake_option s w)"

definition arg_options :: "byte list" where
  "arg_options = str ''iIpxwTVAKMsdoqfrHlnePbcugtOa''"

definition main_option ::
    "(byte list \<Rightarrow> int \<times> nat) \<Rightarrow> byte \<Rightarrow> byte list option \<Rightarrow> world \<Rightarrow> (outcome \<times> world) option" where
  "main_option msec rez arg w =
     (if rez = of_char CHR ''k'' then ip_opt_option arg w
      else if rez \<in> set arg_options then do { s \<leftarrow> arg; option_arg msec rez s w }
      else plain_option rez w)"

subsection \<open>main\<close>

fun destroy_hosts :: "desync_params list \<Rightarrow> unit option" where
  "destroy_hosts [] = Some ()"
| "destroy_hosts (d # ds) = do {
     _ \<leftarrow> (case dp_hosts d of None \<Rightarrow> Some [] | Some hosts \<Rightarrow> mem_destroy hosts);
     destroy_hosts ds }"

text \<open>Everything the settings own is freed. \<open>dp_count\<close> keeps its value while \<open>dp\<close> is the null pointer;
  the program reads neither of them afterwards before it assigns both.\<close>

definition clear_params :: "world \<Rightarrow> world option" where
  "clear_params w = do {
     _ \<leftarrow> (case pr_mempool (w_params w) of None \<Rightarrow> Some [] | Some hdr \<Rightarrow> mem_destroy hdr);
     _ \<leftarrow> destroy_hosts (pr_dp (w_params w));
     Some (set_params (\<lambda>p. p\<lparr>pr_mempool := None, pr_dp := []\<rparr>) w) }"

definition quit :: "int \<Rightarrow> world \<Rightarrow> (int \<times> world) option" where
  "quit r w = do { w \<leftarrow> clear_params w; Some (r, w) }"

text \<open>The loop over the options that \<open>getopt_long\<close> finds.\<close>

fun options_loop ::
    "(byte list \<Rightarrow> int \<times> nat) \<Rightarrow> (byte \<times> byte list option) list \<Rightarrow> world \<Rightarrow> (outcome \<times> world) option" where
  "options_loop msec [] w = Some (Next, w)"
| "options_loop msec ((rez, arg) # opts) w = do {
     (r, w) \<leftarrow> main_option msec rez arg w;
     if r = Next then options_loop msec opts w else Some (r, w) }"

text \<open>The part of \<open>main\<close> from the last strategy to the start of the proxy.\<close>

definition start ::
    "(nat \<Rightarrow> eval) \<Rightarrow> (nat \<Rightarrow> byte list) \<Rightarrow> world \<Rightarrow> (int \<times> world) option" where
  "start junk jbuf w = do {
     dp \<leftarrow> last_dp w;
     let (ok, w) = (if dp_hosts dp \<noteq> None \<or> dp_proto dp \<noteq> 0 \<or> fst (dp_pf dp) \<noteq> 0
                    then add_dp w else (True, w));
     if \<not> ok then quit (- 1) w
     else let w = (if sa_family (pr_baddr (w_params w)) \<noteq> AF_INET6
                   then set_params (\<lambda>p. p\<lparr>pr_ipv6 := False\<rparr>) w else w);
              (ttl, w) = (if pr_def_ttl (w_params w) = 0 then get_default_ttl w
                          else (pr_def_ttl (w_params w), w));
              bad = (pr_def_ttl (w_params w) = 0 \<and> ttl < 1);
              w = set_params (\<lambda>p. p\<lparr>pr_def_ttl := ttl\<rparr>) w in
     if bad then quit (- 1) w
     else let (m, w) = call (Malloc 16) w;
              w = set_params (\<lambda>p. p\<lparr>pr_mempool := mem_pool (0 \<le> m) False\<rparr>) w in
     if pr_mempool (w_params w) = None then quit (- 1) w
     else do {
       (status, w) \<leftarrow> run junk jbuf (pr_laddr (w_params w)) w;
       quit status w } }"

definition main ::
    "(byte list \<Rightarrow> int \<times> nat) \<Rightarrow> (nat \<Rightarrow> eval) \<Rightarrow> (nat \<Rightarrow> byte list) \<Rightarrow>
     (byte \<times> byte list option) list \<Rightarrow> world \<Rightarrow> (int \<times> world) option" where
  "main msec junk jbuf opts w =
     (let w = set_params (\<lambda>p. p\<lparr>pr_laddr := (pr_laddr p)\<lparr>sa_port := htons 1080\<rparr>\<rparr>) w;
          (ok, w) = add_dp w in
      if \<not> ok then quit (- 1) w
      else do {
        (r, w) \<leftarrow> options_loop msec opts w;
        (case r of
           Next \<Rightarrow> start junk jbuf w
         | Invalid \<Rightarrow> quit (- 1) w
         | Quit v \<Rightarrow> quit v w) })"

end
