(* ===== verification/Native.thy ===== *)
theory Native
  imports Options
begin

text \<open>
  The entry points for the Java side, \<open>src/app/src/main/cpp/native-lib.c\<close>: start, stop and forced
  closing of the proxy. \<open>server_fd\<close> is declared in that file and defined nowhere in the repository; it
  is a number that the entry points read and nothing writes. The fields of \<open>default_params\<close> that
  \<open>struct params\<close> does not have are left out. \<open>getopt\<close> gives the options in an argument vector.
\<close>

section \<open>Definitions\<close>

record native =
  n_world :: world
  n_running :: bool
  n_server_fd :: int

text \<open>What the initializer does not name is zero, the delay, the wait for the peer and the life time
  of cached strategies among it.\<close>

definition default_params :: params where
  "default_params = \<lparr>pr_dp = [], pr_sfdelay = 0, pr_wait_send = False, pr_def_ttl = 0,
     pr_custom_ttl = False, pr_tfo = False, pr_timeout = 0, pr_cache_ttl = 0, pr_ipv6 = True,
     pr_resolve = True, pr_udp = True, pr_max_open = 512, pr_debug = 0, pr_bfsize = 16384,
     pr_baddr = zero_addr\<lparr>sa_family := AF_INET6\<rparr>, pr_laddr = zero_addr\<lparr>sa_family := AF_INET\<rparr>,
     pr_mempool = None, pr_protect_path = None\<rparr>"

definition reset_params :: "world \<Rightarrow> world option" where
  "reset_params w = do { w \<leftarrow> clear_params w; Some (set_params (\<lambda>_. default_params) w) }"

text \<open>The copies of the arguments; a copy that fails is the null pointer.\<close>

fun copy_args :: "byte list option list \<Rightarrow> world \<Rightarrow> byte list option list \<times> world" where
  "copy_args [] w = ([], w)"
| "copy_args (a # as) w =
     (let (r, w) = (case a of None \<Rightarrow> (- 1, w) | Some s \<Rightarrow> call (Malloc (length s + 1)) w);
          (cs, w) = copy_args as w in
      ((if r < 0 then None else a) # cs, w))"

definition jniStartProxy ::
    "(byte list option list \<Rightarrow> (byte \<times> byte list option) list) \<Rightarrow> (byte list \<Rightarrow> int \<times> nat) \<Rightarrow>
     (nat \<Rightarrow> eval) \<Rightarrow> (nat \<Rightarrow> byte list) \<Rightarrow> byte list option list \<Rightarrow> native \<Rightarrow> (int \<times> native) option" where
  "jniStartProxy getopt msec junk jbuf args s =
     (if n_running s then Some (- 1, s)
      else let (r, w) = call (Malloc (8 * length args)) (n_world s) in
      if r < 0 then Some (- 1, s\<lparr>n_world := w\<rparr>)
      else let (argv, w) = copy_args args w in
      do {
        w \<leftarrow> reset_params w;
        (result, w) \<leftarrow> main msec junk jbuf (getopt argv) w;
        Some (result, s\<lparr>n_world := w, n_running := False\<rparr>) })"

definition jniStopProxy :: "native \<Rightarrow> int \<times> native" where
  "jniStopProxy s =
     (if \<not> n_running s then (- 1, s)
      else (0, s\<lparr>n_world := snd (call (Shutdown (n_server_fd s)) (n_world s)), n_running := False\<rparr>))"

definition jniForceClose :: "native \<Rightarrow> int \<times> native" where
  "jniForceClose s =
     (let (r, w) = call (Close (n_server_fd s)) (n_world s) in
      if r = - 1 then (- 1, s\<lparr>n_world := w\<rparr>) else (0, s\<lparr>n_world := w, n_running := False\<rparr>))"

end
