(* ===== verification/Partial.thy ===== *)
theory Partial
  imports World
begin

text \<open>
  A small calculus for what a function guarantees when it returns. \<open>ens m Q\<close> says that the outcome of
  \<open>m\<close>, if there is one, satisfies \<open>Q\<close>; it is computed along the \<open>do\<close> notation. \<open>obeys\<close> is the case
  where the outcome is a value with a world and the guarantee relates the world before to the world
  after, as a reflexive and transitive relation \<open>R\<close>.
\<close>

section \<open>Definitions\<close>

definition ens :: "'a option \<Rightarrow> ('a \<Rightarrow> bool) \<Rightarrow> bool" where
  "ens m Q \<longleftrightarrow> (\<forall>x. m = Some x \<longrightarrow> Q x)"

text \<open>The connections are untouched.\<close>

definition same_pool :: "world \<Rightarrow> world \<Rightarrow> bool" where
  "same_pool w w' \<longleftrightarrow> w_pool w' = w_pool w"

section \<open>Lemmas\<close>

named_theorems frame \<open>functions that leave the connections untouched\<close>

lemma ens_Some [simp]: "ens (Some x) Q \<longleftrightarrow> Q x"
  by (simp add: ens_def)

lemma ens_None [simp]: "ens None Q"
  by (simp add: ens_def)

lemma ens_bind [simp]: "ens (m \<bind> f) Q \<longleftrightarrow> ens m (\<lambda>x. ens (f x) Q)"
  by (cases m) (auto simp: ens_def)

lemma ens_if [simp]: "ens (if b then m else m') Q \<longleftrightarrow> (b \<longrightarrow> ens m Q) \<and> (\<not> b \<longrightarrow> ens m' Q)"
  by simp

lemma ens_True [simp]: "ens m (\<lambda>x. True)"
  by (simp add: ens_def)

lemma ens_mono: "ens m Q \<Longrightarrow> (\<And>x. Q x \<Longrightarrow> Q' x) \<Longrightarrow> ens m Q'"
  by (auto simp: ens_def)

lemma ensI: "(\<And>x. m = Some x \<Longrightarrow> Q x) \<Longrightarrow> ens m Q"
  by (simp add: ens_def)

lemma ensD: "ens m Q \<Longrightarrow> m = Some x \<Longrightarrow> Q x"
  by (simp add: ens_def)

lemma ens_conj: "ens m Q \<Longrightarrow> ens m Q' \<Longrightarrow> ens m (\<lambda>x. Q x \<and> Q' x)"
  by (simp add: ens_def)

lemma same_pool_refl [simp]: "same_pool w w"
  by (simp add: same_pool_def)

lemma same_pool_trans [trans]: "same_pool w w' \<Longrightarrow> same_pool w' w'' \<Longrightarrow> same_pool w w''"
  by (simp add: same_pool_def)

lemma same_pool_sys [simp]: "same_pool w (snd (sys c w'))  \<longleftrightarrow> same_pool w w'"
  by (simp add: same_pool_def)

lemma same_pool_call [simp]: "same_pool w (snd (call c w')) \<longleftrightarrow> same_pool w w'"
  by (simp add: same_pool_def)

lemma same_pool_close [simp]: "same_pool w (close_fd fd w') \<longleftrightarrow> same_pool w w'"
  by (simp add: same_pool_def)

lemma same_pool_update [simp]:
  "same_pool w (w_buffer_update f w') \<longleftrightarrow> same_pool w w'"
  "same_pool w (w_not_exit_update f3 w') \<longleftrightarrow> same_pool w w'"
  "same_pool w (w_params_update f2 w') \<longleftrightarrow> same_pool w w'"
  by (simp_all add: same_pool_def)

text \<open>Chaining two steps of a handler.\<close>

lemma ens_same_pool:
  "ens m (\<lambda>(r, w'). same_pool w w') \<Longrightarrow> same_pool w0 w \<Longrightarrow> ens m (\<lambda>(r, w'). same_pool w0 w')"
  by (auto simp: ens_def intro: same_pool_trans)

lemma ens_same_pool3:
  "ens m (\<lambda>(r, x, w'). same_pool w w') \<Longrightarrow> same_pool w0 w \<Longrightarrow> ens m (\<lambda>(r, x, w'). same_pool w0 w')"
  by (auto simp: ens_def intro: same_pool_trans)

end
