(* ===== verification/Frames.thy ===== *)
theory Frames
  imports Proxy Partial
begin

text \<open>Which functions of the program leave the connections untouched: all but the handlers and the
  functions that add, pair or delete connections.\<close>

section \<open>Lemmas\<close>

lemma setttl_pool [frame]: "w_pool (snd (setttl fd ttl fa w)) = w_pool w"
  by (simp add: setttl_def split_beta)

lemma drop_sack_pool [frame]: "w_pool (snd (drop_sack fd w)) = w_pool w"
  by (simp add: drop_sack_def split_beta)

lemma call_if_pool [frame]: "w_pool (snd (call_if b c w)) = w_pool w"
  by (simp add: call_if_def)

lemma nb_socket_pool [frame]: "w_pool (snd (nb_socket d t w)) = w_pool w"
  by (simp add: nb_socket_def split_beta)

lemma set_timeout_pool [frame]: "w_pool (snd (set_timeout fd s w)) = w_pool w"
  by (simp add: set_timeout_def split_beta)

lemma md5sig_pool [frame]: "w_pool (snd (md5sig_opt on sfd n addr w)) = w_pool w"
  by (simp add: md5sig_opt_def)

lemma ip_options_pool [frame]: "w_pool (snd (ip_options_opt ops fa sfd cl w)) = w_pool w"
  by (simp add: ip_options_opt_def split: option.split)

lemma resp_s5_error_pool [frame]: "w_pool (snd (resp_s5_error fd e w)) = w_pool w"
  by (simp add: resp_s5_error_def)

lemma resp_error_pool [frame]: "w_pool (snd (resp_error fd e flag w)) = w_pool w"
  by (simp add: resp_error_def frame)

lemma delay_pool [frame]: "w_pool (delay ms w) = w_pool w"
  by (simp add: delay_def)

lemma wait_send_loop_pool [frame]: "w_pool (snd (wait_send_loop k sfd w)) = w_pool w"
proof (induction k arbitrary: w)
  case (Suc k)
  show ?case
    by (simp add: split_beta Suc frame set_wait_send_def)
qed simp

lemma wait_send_pool [frame]:
  "w_pool (wait_send sfd w) = w_pool w"
  "w_pool (wait_send_if_support sfd w) = w_pool w"
  by (simp_all add: wait_send_def wait_send_if_support_def split_beta frame)

lemma fake_send_pool [frame]:
  "w_pool (snd (snd (fake_send sfd ffd pkt pos fa addr opt w))) = w_pool w"
  by (simp add: fake_send_def split_beta Let_def frame same_pool_def)

lemma fake_restore_pool [frame]:
  "w_pool (fake_restore sfd ffd bytes fa addr opt w) = w_pool w"
  by (simp add: fake_restore_def split_beta Let_def frame same_pool_def)

lemma udp_fakes_pool [frame]: "w_pool (snd (udp_fakes k sfd pkt dst w)) = w_pool w"
  by (induction k arbitrary: w) (simp_all add: split_beta)

lemma send_part_pool:
  "ens (send_part sfd b kind fa dp m off k w) (\<lambda>(r, w'). same_pool w w')"
  by (auto simp: send_part_def send_fake_def send_disorder_def send_oob_def send_late_oob_def send_plain_def
      split_beta Let_def frame same_pool_def split: demode.split option.split)

lemma parts_loop_pool:
  "parts_loop sfd b kind host fa dp n offset ps lp w = Some (r, w') \<Longrightarrow> same_pool w w'"
proof (induction ps arbitrary: lp w)
  case (Cons p ps)
  from Cons.prems show ?case
    by (auto simp: bind_eq_Some_conv split: option.splits if_splits dest!: ensD [OF send_part_pool] Cons.IH
        intro: same_pool_trans)
qed simp

lemma desync_pool: "ens (desync sfd b z n offset dst m w) (\<lambda>(r, b', w'). same_pool w w')"
  by (auto simp: desync_def bind_eq_Some_conv split_beta Let_def frame same_pool_def split: sum.split if_splits
      dest!: parts_loop_pool intro!: ensI)

lemma post_desync_pool: "ens (post_desync sfd m w) (\<lambda>(r, w'). same_pool w w')"
  by (auto simp: post_desync_def split_beta intro!: ensI)

lemma desync_udp_pool: "ens (desync_udp sfd b off n dst m w) (\<lambda>(r, w'). same_pool w w')"
  by (auto simp: desync_udp_def bind_eq_Some_conv split_beta Let_def frame same_pool_def intro!: ensI split: if_splits)

lemma protect_pool: "ens (protect fd path w) (\<lambda>(r, w'). same_pool w w')"
  by (auto simp: protect_def split_beta Let_def fail_close_def intro!: ensI split: if_splits)

lemma socket_mod_pool: "ens (socket_mod fd dst w) (\<lambda>(r, w'). same_pool w w')"
  by (auto simp: socket_mod_def split_beta Let_def frame same_pool_def intro!: ensI
      dest!: ensD [OF protect_pool] split: option.splits if_splits)

lemma mode_add_get_pool: "ens (mode_add_get dst m w) (\<lambda>(r, w'). same_pool w w')"
  by (auto simp: mode_add_get_def pool_mem_add_def bind_eq_Some_conv split_beta set_mempool_def Let_def
      intro!: ensI split: option.splits if_splits)

lemma sock_opts_pool: "ens (sock_opts sfd addr w) (\<lambda>(r, w'). same_pool w w')"
  by (auto simp: sock_opts_def bind_eq_Some_conv split_beta Let_def frame same_pool_def intro!: ensI
      dest!: ensD [OF socket_mod_pool] split: if_splits)

lemma recv_at_pool: "ens (recv_at c off z w) (\<lambda>(r, w'). same_pool w w')"
  by (auto simp: recv_at_def bind_eq_Some_conv split_beta Let_def intro!: ensI split: if_splits)

lemma recv_buf_pool: "ens (recv_buf fd z w) (\<lambda>(r, w'). same_pool w w')"
  by (auto simp: recv_buf_def bind_eq_Some_conv intro!: ensI dest!: ensD [OF recv_at_pool])

lemma resolve_pool: "ens (resolve b host len addr type w) (\<lambda>(r, a, w'). same_pool w w')"
  by (auto simp: resolve_def bind_eq_Some_conv split_beta Let_def intro!: ensI split: if_splits)

lemma s4_get_addr_pool: "ens (s4_get_addr b n dst w) (\<lambda>(r, a, w'). same_pool w w')"
  by (auto simp: s4_get_addr_def bind_eq_Some_conv split_beta Let_def intro!: ensI
      dest!: ensD [OF resolve_pool] split: if_splits)

lemma s5_get_addr_pool: "ens (s5_get_addr b off n addr type w) (\<lambda>(r, a, w'). same_pool w w')"
  by (auto simp: s5_get_addr_def bind_eq_Some_conv split_beta Let_def intro!: ensI
      dest!: ensD [OF resolve_pool] split: if_splits)

lemma auth_socks5_pool: "ens (auth_socks5 fd b n w) (\<lambda>(r, b', w'). same_pool w w')"
  by (auto simp: auth_socks5_def bind_eq_Some_conv split_beta Let_def intro!: ensI split: if_splits)

lemma mod_etype_pool: "ens (mod_etype v s w) (\<lambda>(r, w'). same_pool w w')"
  by (auto simp: mod_etype_def bind_eq_Some_conv split_beta intro!: ensI split: if_splits)

lemma mod_etypes_pool: "ens (mod_etypes v s v' s' w) (\<lambda>(r, w'). same_pool w w')"
  by (auto simp: mod_etypes_def bind_eq_Some_conv split_beta intro!: ensI intro: same_pool_trans
      dest!: ensD [OF mod_etype_pool] split: if_splits)

text \<open>Reading fails or gives what is there.\<close>

lemma v_read:
  "(\<And>bs. mem_read b p n = Some bs \<Longrightarrow> Q bs) \<Longrightarrow> ens (mem_read b p n) Q"
  "(\<And>bs. mem_write b p xs = Some bs \<Longrightarrow> Q2 bs) \<Longrightarrow> ens (mem_write b p xs) Q2"
  "(\<And>x. rd b p = Some x \<Longrightarrow> Q3 x) \<Longrightarrow> ens (rd b p) Q3"
  "(\<And>e. ev w v = Some e \<Longrightarrow> Q4 e) \<Longrightarrow> ens (ev w v) Q4"
  "(\<And>p. v_pair e = Some p \<Longrightarrow> Q5 p) \<Longrightarrow> ens (v_pair e) Q5"
  "(\<And>p. buf_len e = Some p \<Longrightarrow> Q6 p) \<Longrightarrow> ens (buf_len e) Q6"
  by (simp_all add: ens_def)

lemma udp_hook_pool: "ens (udp_hook v off n dst w) (\<lambda>(r, w'). same_pool w w')"
  unfolding udp_hook_def
  by (auto simp: split_beta Let_def intro!: v_read desync_udp_pool)

end
