(* ===== verification/Balance.thy ===== *)
theory Balance
  imports Frames
begin

text \<open>
  Which functions of the program leave the descriptors of the process and what is registered at
  \<open>epoll\<close> as they were: all but the handlers and the functions that add, change or delete connections.
  Most make no call that opens or closes a descriptor; the memory file of a decoy and the socket to the
  protecting process are closed again. The kernel promises that a new descriptor is not open
  (\<open>fresh_fds\<close>).
\<close>

section \<open>Definitions\<close>

definition held :: "world \<Rightarrow> int set" where
  "held w = fds (w_hist w)"

text \<open>The calls that open or close no descriptor and register nothing.\<close>

definition neutral :: "syscall \<Rightarrow> bool" where
  "neutral c \<longleftrightarrow> (\<forall>r s e m. fds_step (c, r) s = s \<and> reg_step e (c, r) m = m)"

text \<open>From \<open>w\<close> to \<open>w'\<close> the descriptors \<open>D\<close> were opened, nothing that was open before was closed, and
  nothing new was registered.\<close>

definition opened :: "int set \<Rightarrow> world \<Rightarrow> world \<Rightarrow> bool" where
  "opened D w w' \<longleftrightarrow> w_os w' = w_os w \<and> held w' = held w \<union> D \<and> held w \<inter> D = {} \<and>
     (\<forall>e. registered e (w_hist w') \<subseteq>\<^sub>m registered e (w_hist w))"

definition balanced :: "world \<Rightarrow> world \<Rightarrow> bool" where
  "balanced w w' \<longleftrightarrow> (fresh_fds (w_os w) \<longrightarrow> opened {} w w')"

named_theorems neutral_fun \<open>functions that make neutral calls only\<close>

section \<open>Lemmas\<close>

declare neutral_def [simp]

lemma opened_refl [simp]: "opened {} w w"
  by (simp add: opened_def)

lemma opened_trans: "opened D w w' \<Longrightarrow> opened {} w' w'' \<Longrightarrow> opened D w w''"
  by (auto simp: opened_def intro: map_le_trans)

lemma opened_sys [simp]: "neutral c \<Longrightarrow> opened D w (snd (sys c w')) \<longleftrightarrow> opened D w w'"
  by (simp add: opened_def held_def fds_snoc registered_snoc neutral_def)

lemma opened_call [simp]: "neutral c \<Longrightarrow> opened D w (snd (call c w')) \<longleftrightarrow> opened D w w'"
  by (simp add: call_def split_beta)

lemma opened_call_eq: "call c w' = (r, w'') \<Longrightarrow> neutral c \<Longrightarrow> opened D w w'' \<longleftrightarrow> opened D w w'"
  using opened_call [of c D w w'] by simp

lemma opened_same:
  "w_hist w'' = w_hist w' \<Longrightarrow> w_os w'' = w_os w' \<Longrightarrow> opened D w w'' \<longleftrightarrow> opened D w w'"
  by (simp add: opened_def held_def)

lemma opened_upd: "upd v f w' = Some w'' \<Longrightarrow> opened D w w'' \<longleftrightarrow> opened D w w'"
  by (auto simp: upd_def opened_def held_def split: if_splits)

lemma opened_update [simp]:
  "opened D w (in_pool f w') \<longleftrightarrow> opened D w w'"
  "opened D w (w_buffer_update g w') \<longleftrightarrow> opened D w w'"
  "opened D w (w_params_update g2 w') \<longleftrightarrow> opened D w w'"
  "opened D w (w_not_exit_update g3 w') \<longleftrightarrow> opened D w w'"
  by (simp_all add: opened_def held_def in_pool_def)

lemma opened_close: "opened {fd} w w' \<Longrightarrow> opened {} w (close_fd fd w')"
  by (auto simp: opened_def held_def close_fd_def fds_snoc registered_snoc map_le_def)

lemma call_if_opened [simp]: "neutral c \<Longrightarrow> opened D w (snd (call_if b c w')) \<longleftrightarrow> opened D w w'"
  by (simp add: call_if_def)

lemma balanced_refl [simp]: "balanced w w"
  by (simp add: balanced_def)

lemma balanced_trans [trans]: "balanced w w' \<Longrightarrow> balanced w' w'' \<Longrightarrow> balanced w w''"
  by (auto simp: balanced_def opened_def intro: map_le_trans)

lemma balancedI: "opened {} w w' \<Longrightarrow> balanced w w'"
  by (simp add: balanced_def)

lemma balanced_frame [simp]:
  "neutral c \<Longrightarrow> balanced w (snd (sys c w')) \<longleftrightarrow> balanced w w'"
  "neutral c \<Longrightarrow> balanced w (snd (call c w')) \<longleftrightarrow> balanced w w'"
  "neutral c \<Longrightarrow> balanced w (snd (call_if b c w')) \<longleftrightarrow> balanced w w'"
  "balanced w (w_buffer_update f w') \<longleftrightarrow> balanced w w'"
  by (simp_all only: balanced_def opened_sys opened_call call_if_opened opened_update)

lemma balanced_update [simp]:
  "balanced w (w_params_update f w') \<longleftrightarrow> balanced w w'"
  "balanced w (w_not_exit_update g w') \<longleftrightarrow> balanced w w'"
  by (simp_all add: balanced_def)

lemma balanced_neutral:
  "(\<And>D. opened D w w'' \<longleftrightarrow> opened D w w') \<Longrightarrow> balanced w w'' \<longleftrightarrow> balanced w w'"
  by (simp add: balanced_def)

subsection \<open>Neutral functions\<close>

lemma setttl_opened [neutral_fun]: "opened D w (snd (setttl fd t fa w')) \<longleftrightarrow> opened D w w'"
  by (simp add: setttl_def split_beta)

lemma drop_sack_opened [neutral_fun]: "opened D w0 (snd (drop_sack fd w)) \<longleftrightarrow> opened D w0 w"
  by (simp add: drop_sack_def split_beta)

lemma set_timeout_opened [neutral_fun]: "opened D w0 (snd (set_timeout fd s w)) \<longleftrightarrow> opened D w0 w"
  by (simp add: set_timeout_def split_beta)

lemma md5sig_opened [neutral_fun]: "opened D w0 (snd (md5sig_opt on sfd n addr w)) \<longleftrightarrow> opened D w0 w"
  by (simp add: md5sig_opt_def)

lemma ip_options_opened [neutral_fun]:
  "opened D w0 (snd (ip_options_opt ops fa sfd cl w)) \<longleftrightarrow> opened D w0 w"
  by (simp add: ip_options_opt_def split: option.split)

lemma resp_error_opened [neutral_fun]:
  "opened D w0 (snd (resp_s5_error fd e w)) \<longleftrightarrow> opened D w0 w"
  "opened D w0 (snd (resp_error fd e flag w)) \<longleftrightarrow> opened D w0 w"
  by (simp_all add: resp_error_def resp_s5_error_def)

lemma delay_opened [neutral_fun]: "opened D w0 (delay ms w) \<longleftrightarrow> opened D w0 w"
  by (simp add: delay_def)

lemma wait_send_loop_opened [neutral_fun]:
  "opened D w0 (snd (wait_send_loop k sfd w)) \<longleftrightarrow> opened D w0 w"
proof (induction k arbitrary: w)
  case (Suc k)
  show ?case by (simp add: split_beta Suc neutral_fun set_wait_send_def)
qed simp

lemma wait_send_opened [neutral_fun]:
  "opened D w0 (wait_send sfd w) \<longleftrightarrow> opened D w0 w"
  "opened D w0 (wait_send_if_support sfd w) \<longleftrightarrow> opened D w0 w"
  by (simp_all add: wait_send_def wait_send_if_support_def split_beta neutral_fun)

lemma fake_send_opened [neutral_fun]:
  "opened D w0 (snd (snd (fake_send sfd ffd pkt pos fa addr opt w))) \<longleftrightarrow> opened D w0 w"
  by (simp add: fake_send_def split_beta Let_def neutral_fun)

lemma fake_restore_opened [neutral_fun]:
  "opened D w0 (fake_restore sfd ffd bytes fa addr opt w) \<longleftrightarrow> opened D w0 w"
  by (simp add: fake_restore_def split_beta Let_def neutral_fun)

lemma udp_fakes_opened [neutral_fun]: "opened D w0 (snd (udp_fakes k sfd pkt dst w)) \<longleftrightarrow> opened D w0 w"
  by (induction k arbitrary: w) (simp_all add: split_beta)

subsection \<open>Functions that close what they open\<close>

lemma opened_new:
  assumes "fresh_fds (w_os w)" "opened {} w0 w" "w_os w0 = w_os w" "call c w = (fd, w')"
    and "(\<exists>d t nb. c = Socket d t nb) \<or> (\<exists>s. c = Accept4 s) \<or> c = Memfd_create"
  shows "if fd < 0 then opened {} w0 w' else opened {fd} w0 w'"
proof -
  have c: "fd = r_ret (w_os w (w_hist w) c)" "w_os w' = w_os w" "held w' = fds_step (c, w_os w (w_hist w) c) (held w)"
      "\<forall>e. registered e (w_hist w') = registered e (w_hist w)"
    using assms(4,5) by (auto simp: call_def sys_def Let_def held_def fds_snoc registered_snoc)
  moreover have "fd \<notin> held w" if "0 \<le> fd"
    using assms(1) [unfolded fresh_fds_def, rule_format, of c "w_hist w"] assms(5) c(1) that by (auto simp: held_def)
  ultimately show ?thesis using assms(2,5) by (auto simp: opened_def)
qed

lemma opened_socket:
  assumes "fresh_fds (w_os w)" "opened {} w0 w" "w_os w0 = w_os w" "call (Socket d t nb) w = (fd, w')"
  shows "fd < 0 \<Longrightarrow> opened {} w0 w'" "0 \<le> fd \<Longrightarrow> opened {fd} w0 w'"
  using opened_new [OF assms] by auto

lemma protect_opened:
  assumes "fresh_fds (w_os w)" "protect cfd path w = Some (r, w')"
  shows "opened {} w w'"
proof -
  obtain fd w1 where s: "call (Socket AF_UNIX SOCK_STREAM False) w = (fd, w1)" by fastforce
  note o = opened_socket [OF assms(1) opened_refl refl s]
  show ?thesis
  proof (cases "fd < 0")
    case True
    with o(1) assms(2) s show ?thesis by (auto simp: protect_def split: if_splits)
  next
    case False
    then have "opened {fd} w w1" using o(2) by simp
    with assms(2) s False show ?thesis
      by (auto simp: protect_def fail_close_def Let_def split_beta split: if_splits intro!: opened_close)
  qed
qed

lemma socket_mod_opened:
  assumes "fresh_fds (w_os w)" "socket_mod fd dst w = Some (r, w')"
  shows "opened {} w w'"
proof -
  define w1 where "w1 = (if pr_custom_ttl (w_params w)
                    then snd (setttl fd (pr_def_ttl (w_params w)) (get_family dst) w) else w)"
  have o: "opened {} w w1" by (simp add: w1_def setttl_opened)
  then have "fresh_fds (w_os w1)" using assms(1) by (simp add: opened_def)
  then have "protect fd path w1 = Some (r, w') \<Longrightarrow> opened {} w w'" for path
    using protect_opened opened_trans [OF o] by blast
  then show ?thesis
    using assms(2) o by (auto simp: socket_mod_def w1_def split_beta Let_def split: if_splits option.splits)
qed

lemma sock_opts_opened:
  assumes "fresh_fds (w_os w)" "sock_opts sfd addr w = Some (ok, w')"
  shows "opened {} w w'"
proof -
  obtain r w1 where m: "socket_mod sfd addr w = Some (r, w1)"
    using assms(2) by (auto simp: sock_opts_def bind_eq_Some_conv)
  have "opened {} w w1" by (rule socket_mod_opened [OF assms(1) m])
  with assms(2) m show ?thesis
    by (auto simp: sock_opts_def split_beta Let_def split: if_splits)
qed

lemma protect_balanced: "ens (protect fd path w) (\<lambda>(r, w'). balanced w w')"
  by (rule ensI) (auto simp: balanced_def dest: protect_opened)

lemma socket_mod_balanced: "ens (socket_mod fd dst w) (\<lambda>(r, w'). balanced w w')"
  by (rule ensI) (auto simp: balanced_def dest: socket_mod_opened)

lemma sock_opts_balanced: "ens (sock_opts fd addr w) (\<lambda>(r, w'). balanced w w')"
  by (rule ensI) (simp only: balanced_def split_paired_all prod.case, rule impI, rule sock_opts_opened)

lemma send_fake_balanced: "ens (send_fake sfd b off kind k fa opt w) (\<lambda>(r, w'). balanced w w')"
proof (rule ensI, clarify)
  fix r w' assume f: "send_fake sfd b off kind k fa opt w = Some (r, w')"
  have o: "opened {} w (if dp_md5sig opt then snd (sys (Getpeername sfd) w) else w)" by simp
  have n: "if fd < 0 then opened {} w w1 else opened {fd} w w1"
    if "fresh_fds (w_os w)" "wa = (if dp_md5sig opt then snd (sys (Getpeername sfd) w) else w)" "call Memfd_create wa = (fd, w1)"
    for wa fd w1
    by (rule opened_new [OF _ _ _ that(3)]) (use that(1,2) in simp_all)
  show "balanced w w'"
    using f
  proof (cases rule: send_fake_cases)
    case (fails wa)
    with n [OF _ fails(1)] o show ?thesis by (fastforce simp: balanced_def)
  next
    case (goes wa a ffd w1 pkt mapped w2 w3)
    have "opened D w w3 \<longleftrightarrow> opened D w w1" for D
      using fake_send_opened [of D w sfd ffd pkt k fa a opt w1] goes(6,7) by (simp add: neutral_fun)
    with n [OF _ goes(1,3)] goes(4,8) show ?thesis by (simp add: balanced_def opened_close)
  qed
qed

lemma send_part_balanced:
  "ens (send_part sfd b kind fa dp m off k w) (\<lambda>(r, w'). balanced w w')"
proof (cases m)
  case DESYNC_FAKE
  then show ?thesis using send_fake_balanced by (simp add: send_part_def)
qed (auto simp: send_part_def send_disorder_def send_oob_def send_late_oob_def send_plain_def
      split_beta Let_def neutral_fun balanced_def intro!: ensI split: if_splits)

lemma parts_loop_balanced:
  "parts_loop sfd b kind host fa dp n offset ps lp w = Some (r, w') \<Longrightarrow> balanced w w'"
proof (induction ps arbitrary: lp w)
  case (Cons p ps)
  from Cons.prems show ?case
    by (auto simp: bind_eq_Some_conv split: option.splits if_splits dest!: ensD [OF send_part_balanced] Cons.IH
        intro: balanced_trans)
qed simp

lemma desync_balanced: "ens (desync sfd b z n offset dst m w) (\<lambda>(r, b', w'). balanced w w')"
proof -
  have d: "balanced w (snd (drop_sack sfd w))" by (simp add: balanced_def neutral_fun)
  show ?thesis
    by (auto simp: desync_def bind_eq_Some_conv split_beta Let_def split: sum.split if_splits
        dest!: parts_loop_balanced intro!: ensI d intro: balanced_trans [OF d])
qed

lemma post_desync_balanced: "ens (post_desync sfd m w) (\<lambda>(r, w'). balanced w w')"
  by (auto simp: post_desync_def split_beta intro!: ensI)

lemma desync_udp_balanced: "ens (desync_udp sfd b off n dst m w) (\<lambda>(r, w'). balanced w w')"
  by (auto simp: desync_udp_def bind_eq_Some_conv split_beta Let_def neutral_fun balanced_def intro!: ensI
      split: if_splits)

lemma mode_add_get_balanced: "ens (mode_add_get dst m w) (\<lambda>(r, w'). balanced w w')"
  by (auto simp: mode_add_get_def pool_mem_add_def bind_eq_Some_conv split_beta set_mempool_def Let_def
      intro!: ensI split: option.splits if_splits)

lemma recv_at_balanced: "neutral c \<Longrightarrow> ens (recv_at c off z w) (\<lambda>(r, w'). balanced w w')"
  by (auto simp: recv_at_def bind_eq_Some_conv split_beta Let_def simp del: neutral_def intro!: ensI split: if_splits)

lemma recv_buf_balanced: "ens (recv_buf fd z w) (\<lambda>(r, w'). balanced w w')"
  by (auto simp: recv_buf_def bind_eq_Some_conv intro!: ensI dest!: ensD [OF recv_at_balanced, rotated])

lemma resolve_balanced: "ens (resolve b host len addr type w) (\<lambda>(r, a, w'). balanced w w')"
  by (auto simp: resolve_def bind_eq_Some_conv split_beta Let_def intro!: ensI split: if_splits)

lemma s4_get_addr_balanced: "ens (s4_get_addr b n dst w) (\<lambda>(r, a, w'). balanced w w')"
  by (auto simp: s4_get_addr_def bind_eq_Some_conv split_beta Let_def intro!: ensI
      dest!: ensD [OF resolve_balanced] split: if_splits)

lemma s5_get_addr_balanced: "ens (s5_get_addr b off n addr type w) (\<lambda>(r, a, w'). balanced w w')"
  by (auto simp: s5_get_addr_def bind_eq_Some_conv split_beta Let_def intro!: ensI
      dest!: ensD [OF resolve_balanced] split: if_splits)

lemma auth_socks5_balanced: "ens (auth_socks5 fd b n w) (\<lambda>(r, b', w'). balanced w w')"
  by (auto simp: auth_socks5_def bind_eq_Some_conv split_beta Let_def intro!: ensI split: if_splits)

lemma udp_hook_balanced: "ens (udp_hook v off n dst w) (\<lambda>(r, w'). balanced w w')"
  by (auto simp: udp_hook_def bind_eq_Some_conv split_beta Let_def intro!: ensI split: if_splits
      dest!: ensD [OF desync_udp_balanced])

lemma add_event_held: "add_event t fd e w = Some (r, w') \<Longrightarrow> held w' = held w"
  by (auto simp: add_event_def bind_eq_Some_conv split_beta Let_def upd_def held_def in_pool_def call_def fds_snoc
      split: if_splits)

end
