(* ===== verification/Ownership.thy ===== *)
theory Ownership
  imports Balance
begin

text \<open>
  Who owns a descriptor. In the event loop every descriptor that is open was open before, or belongs to
  exactly one connection in use; a handler holds at most one more while it sets up a connection. So no
  path through the program, whatever the kernel answers, leaves a descriptor open that nothing closes.
\<close>

section \<open>Definitions\<close>

definition slot_fds :: "world \<Rightarrow> int set" where
  "slot_fds w = (\<lambda>i. v_fd (items w ! i)) ` live w"

definition owner :: "int set \<Rightarrow> world \<Rightarrow> bool" where
  "owner B w \<longleftrightarrow> held w = B \<union> slot_fds w \<and> B \<inter> slot_fds w = {} \<and> inj_on (\<lambda>i. v_fd (items w ! i)) (live w)"

text \<open>What is registered are connections in use, each for its own descriptor.\<close>

definition regs :: "world \<Rightarrow> int \<rightharpoonup> nat" where
  "regs w = registered (p_efd (w_pool w)) (w_hist w)"

definition regs_ok :: "world \<Rightarrow> bool" where
  "regs_ok w \<longleftrightarrow> (\<forall>fd v. regs w fd = Some v \<longrightarrow> v \<in> live w \<and> v_fd (items w ! v) = fd)"

text \<open>From \<open>w0\<close> to \<open>w\<close> the descriptors in \<open>F\<close> were opened that no connection owns yet.\<close>

definition hand :: "int set \<Rightarrow> world \<Rightarrow> world \<Rightarrow> bool" where
  "hand F w0 w \<longleftrightarrow> p_efd (w_pool w) = p_efd (w_pool w0) \<and> (fresh_fds (w_os w0) \<longrightarrow>
     w_os w = w_os w0 \<and> (\<forall>B. owner B w0 \<longrightarrow> owner (B \<union> F) w \<and> B \<inter> F = {}) \<and> (regs_ok w0 \<longrightarrow> regs_ok w))"

section \<open>Lemmas\<close>

subsection \<open>Descriptors and slots\<close>

lemma hand_refl [simp]: "hand {} w w"
  by (simp add: hand_def)

lemma hand_trans: "hand {} w0 w1 \<Longrightarrow> hand F w1 w2 \<Longrightarrow> hand F w0 w2"
  by (auto simp: hand_def)

lemma owner_cong:
  assumes "live w' = live w" "\<And>i. i \<in> live w \<Longrightarrow> v_fd (items w' ! i) = v_fd (items w ! i)" "held w' = held w"
  shows "owner B w' = owner B w"
proof -
  have "slot_fds w' = slot_fds w" using assms(1,2) by (auto simp: slot_fds_def)
  moreover have "inj_on (\<lambda>i. v_fd (items w' ! i)) (live w) = inj_on (\<lambda>i. v_fd (items w ! i)) (live w)"
    using assms(2) by (auto simp: inj_on_def)
  ultimately show ?thesis by (simp add: owner_def assms(1,3))
qed

lemma regs_ok_cong:
  assumes "regs_ok w" "live w \<subseteq> live w'" "\<And>i. i \<in> live w \<Longrightarrow> v_fd (items w' ! i) = v_fd (items w ! i)"
    "regs w' \<subseteq>\<^sub>m regs w"
  shows "regs_ok w'"
proof -
  have "regs w fd = Some v" if "regs w' fd = Some v" for fd v
    using assms(4) that by (metis domI map_le_def)
  then show ?thesis using assms(1-3) by (fastforce simp: regs_ok_def)
qed

lemma hand_cong:
  assumes "hand F w0 w" "w_os w' = w_os w" "live w' = live w"
    "\<And>i. i \<in> live w \<Longrightarrow> v_fd (items w' ! i) = v_fd (items w ! i)" "held w' = held w"
    "p_efd (w_pool w') = p_efd (w_pool w)" "regs w' \<subseteq>\<^sub>m regs w"
  shows "hand F w0 w'"
  using assms(1,6) owner_cong [OF assms(3,4,5)] regs_ok_cong [OF _ _ assms(4,7)] assms(3) by (simp add: hand_def assms(2))

lemma hand_frame:
  assumes "hand F w0 w" "same_pool w w'" "balanced w w'"
  shows "hand F w0 w'"
proof (cases "fresh_fds (w_os w0)")
  case True
  then have o: "w_os w' = w_os w" "held w' = held w"
    using assms(1,3) by (auto simp: hand_def balanced_def opened_def)
  have "live w' = live w" using assms(2) by (simp add: live_def same_pool_def)
  moreover have "regs w' \<subseteq>\<^sub>m regs w"
    using assms True by (simp add: hand_def balanced_def opened_def regs_def same_pool_def)
  ultimately show ?thesis using hand_cong [OF assms(1) o(1) _ _ o(2)] assms(2) by (simp add: same_pool_def)
qed (use assms in \<open>simp add: hand_def same_pool_def\<close>)

lemma hand_upd:
  assumes "upd v f w = Some w'" "hand F w0 w" "v_fd (f (items w ! v)) = v_fd (items w ! v)"
  shows "hand F w0 w'"
proof (rule hand_cong [OF assms(2)])
  show "w_os w' = w_os w" "held w' = held w" "regs w' \<subseteq>\<^sub>m regs w"
    using assms(1) by (auto simp: upd_def held_def regs_def split: if_splits)
qed (use assms(3) in \<open>simp_all add: upd_facts [OF assms(1)]\<close>)

lemma hand_open:
  assumes "hand {} w0 w" "call c w = (fd, w')"
    "(\<exists>d t nb. c = Socket d t nb) \<or> (\<exists>s. c = Accept4 s) \<or> c = Memfd_create"
  shows "if fd < 0 then hand {} w0 w' else hand {fd} w0 w'"
proof (cases "fresh_fds (w_os w0)")
  case True
  then have w: "w_os w = w_os w0" using assms(1) by (simp add: hand_def)
  have p: "w_pool w' = w_pool w" using assms(2) call_pool [of c w] by simp
  have "if fd < 0 then opened {} w w' else opened {fd} w w'"
    by (rule opened_new [OF _ opened_refl refl assms(2,3)]) (simp add: w True)
  moreover have "hand F w0 w'" if "opened F w w'" for F
  proof -
    have "owner B w \<Longrightarrow> owner (B \<union> F) w' \<and> B \<inter> F = {}" for B
      using that by (auto simp: owner_def opened_def slot_fds_def live_def p)
    moreover have "regs_ok w \<Longrightarrow> regs_ok w'"
      using that p by (intro regs_ok_cong [of w w']) (simp_all add: live_def regs_def opened_def)
    ultimately show ?thesis using assms(1) that True by (simp add: hand_def opened_def w p)
  qed
  ultimately show ?thesis by (auto split: if_splits)
qed (use assms(1) call_pool [of c w] assms(2) in \<open>simp add: hand_def\<close>)

lemma hand_close:
  assumes "hand {fd} w0 w"
  shows "hand {} w0 (close_fd fd w)"
proof -
  have h: "held (close_fd fd w) = held w - {fd}" by (simp add: held_def close_fd_def fds_snoc)
  have "owner (insert fd B) w \<longrightarrow> fd \<notin> B \<longrightarrow> owner B (close_fd fd w)" for B
    by (auto simp: owner_def h slot_fds_def live_def)
  moreover have "regs_ok w \<Longrightarrow> regs_ok (close_fd fd w)"
    by (rule regs_ok_cong) (auto simp: live_def regs_def close_fd_def registered_snoc map_le_def)
  ultimately show ?thesis using assms by (simp add: hand_def close_fd_def)
qed

text \<open>A new connection owns its descriptor, unless it could not be registered.\<close>

lemma add_event_fds:
  assumes "slots_ok w" "add_event t fd e w = Some (r, w')"
  shows "slots_ok w' \<and> held w' = held w \<and> w_os w' = w_os w \<and> p_efd (w_pool w') = p_efd (w_pool w) \<and> (\<forall>i\<in>live w. items w' ! i = items w ! i) \<and>
    (case r of None \<Rightarrow> live w' = live w
     | Some v \<Rightarrow> v \<notin> live w \<and> live w' = insert v (live w) \<and> v_fd (items w' ! v) = fd) \<and>
    regs w' = (case r of None \<Rightarrow> regs w | Some v \<Rightarrow> (regs w)(fd \<mapsto> v))"
proof -
  have h: "held w' = held w" using add_event_held [OF assms(2)] .
  have rg: "regs w' = (case r of None \<Rightarrow> regs w | Some v \<Rightarrow> (regs w)(fd \<mapsto> v))"
    using assms(2)
    by (auto simp: add_event_def bind_eq_Some_conv split_beta Let_def upd_def regs_def in_pool_def call_def
        registered_snoc split: if_splits)
  have fd: "0 < fd" using assms(2) by (simp add: add_event_def split: if_splits)
  show ?thesis
  proof (cases "p_count (w_pool w) < p_max (w_pool w)")
    case False
    with assms fd rg show ?thesis by (simp add: add_event_def)
  next
    case True
    let ?v = "p_links (w_pool w) ! p_count (w_pool w)"
    from add_event_slot [OF assms(1) fd True, of t e] obtain w2 r2 where
      w2: "add_event t fd e w = Some (r2, w2)" "r2 = None \<or> r2 = Some ?v" "keeps w w2"
      and pool: "w_pool w2 = (w_pool w)\<lparr>p_items := (items w)[?v := zero_eval\<lparr>v_mod_iter := p_iters (w_pool w),
          v_fd := fd, v_index := p_count (w_pool w), v_type := t\<rparr>],
         p_count := (if r2 = None then p_count (w_pool w) else Suc (p_count (w_pool w)))\<rparr>"
      and v: "?v \<notin> live w" "?v < p_max (w_pool w)" "slots_ok w2"
      "live w2 = (if r2 = None then live w else insert ?v (live w))" .
    have "items w2 ! i = items w ! i" if "i \<in> live w" for i
    proof -
      have "i \<noteq> ?v" using v(1) that by blast
      then show ?thesis by (simp add: pool)
    qed
    moreover have "v_fd (items w2 ! ?v) = fd" using v(2) slots_ok_len [OF assms(1)] by (simp add: pool)
    moreover have "p_efd (w_pool w2) = p_efd (w_pool w)" by (simp add: pool)
    ultimately show ?thesis using w2 v assms(2) h rg by (auto simp: keeps_def split: option.split)
  qed
qed

lemma hand_add:
  assumes "slots_ok w" "hand {fd} w0 w" "add_event t fd e w = Some (r, w')"
  shows "case r of None \<Rightarrow> hand {fd} w0 w' | Some v \<Rightarrow> hand {} w0 w'"
proof -
  note a = add_event_fds [OF assms(1,3)]
  show ?thesis
  proof (cases r)
    case None
    with a assms(2) show ?thesis by (auto intro: hand_cong)
  next
    case (Some v)
    then have v: "v \<notin> live w" "live w' = insert v (live w)" "v_fd (items w' ! v) = fd"
        "\<forall>i\<in>live w. items w' ! i = items w ! i"
      using a by auto
    have s: "slot_fds w' = insert fd (slot_fds w)" using v by (auto simp: slot_fds_def)
    have "owner (insert fd B) w \<longrightarrow> fd \<notin> B \<longrightarrow> owner B w'" for B
    proof (intro impI)
      assume o: "owner (insert fd B) w" "fd \<notin> B"
      then have "fd \<notin> slot_fds w" by (auto simp: owner_def)
      moreover have "inj_on (\<lambda>i. v_fd (items w' ! i)) (live w)" using o(1) v(4) by (simp add: owner_def inj_on_def)
      ultimately have "inj_on (\<lambda>i. v_fd (items w' ! i)) (live w')"
        using v by (auto simp: slot_fds_def)
      with o s a show "owner B w'" by (auto simp: owner_def)
    qed
    moreover have "regs_ok w \<Longrightarrow> regs_ok w'"
      using a v Some by (auto simp: regs_ok_def)
    ultimately show ?thesis using assms(2) a Some by (simp add: hand_def)
  qed
qed

subsection \<open>Deleting connections\<close>

lemma del_slot_held:
  assumes "del_slot v e w = Some w'"
  shows "held w' = held w - {v_fd e}" "w_os w' = w_os w"
    "registered k (w_hist w') = (registered k (w_hist w))(v_fd e := None)"
proof -
  let ?x = "snd (call (Epoll_ctl (p_efd (w_pool w)) EPOLL_CTL_DEL (v_fd e) 0 0) w)"
  have "held (close_fd (v_fd e) ?x) = held w - {v_fd e}" "w_os (close_fd (v_fd e) ?x) = w_os w"
      "registered k (w_hist (close_fd (v_fd e) ?x)) = (registered k (w_hist w))(v_fd e := None)"
    by (simp_all add: held_def close_fd_def fds_def registered_def call_def split_beta)
  moreover have "w_hist w' = w_hist (close_fd (v_fd e) ?x) \<and> w_os w' = w_os (close_fd (v_fd e) ?x)"
    using assms
    by (auto simp: del_slot_def Let_def drop_link_def bind_eq_Some_conv upd_def in_pool_def set_link_def split: if_splits)
  ultimately show "held w' = held w - {v_fd e}" "w_os w' = w_os w"
    "registered k (w_hist w') = (registered k (w_hist w))(v_fd e := None)" by (simp_all add: held_def)
qed

lemma unpair_fds:
  assumes "unpair v p w = Some w'"
  shows "live w' = live w" "v_fd (items w' ! i) = v_fd (items w ! i)" "held w' = held w" "w_os w' = w_os w"
    "regs w' = regs w"
  using assms
  by (auto simp: unpair_def bind_eq_Some_conv upd_def live_def held_def regs_def nth_list_update split: if_splits)

lemma owner_del_slot:
  assumes "owner B w" "v \<in> live w" "live w' = live w - {v}" "held w' = held w - {v_fd (items w ! v)}"
    "\<And>i. i \<noteq> v \<Longrightarrow> v_fd (items w' ! i) = v_fd (items w ! i)"
  shows "owner B w'"
proof -
  let ?f = "\<lambda>i. v_fd (items w ! i)" and ?g = "\<lambda>i. v_fd (items w' ! i)"
  have i: "inj_on ?f (live w)" using assms(1) by (simp add: owner_def)
  have "?g ` (live w - {v}) = ?f ` (live w - {v})" using assms(5) by (intro image_cong) auto
  also have "\<dots> = ?f ` live w - {?f v}" using i assms(2) by (simp add: inj_on_image_set_diff)
  finally have "slot_fds w' = slot_fds w - {?f v}" by (simp add: slot_fds_def assms(3))
  moreover have "inj_on ?g (live w')"
    using i assms(5) unfolding assms(3) by (auto simp: inj_on_def)
  moreover have "?f v \<notin> B" using assms(1,2) by (auto simp: owner_def slot_fds_def)
  ultimately show ?thesis using assms(1,4) by (auto simp: owner_def)
qed

lemma regs_del_slot:
  assumes "regs_ok w" "live w' = live w - {v}" "regs w' = (regs w)(v_fd (items w ! v) := None)"
    "\<And>i. i \<noteq> v \<Longrightarrow> v_fd (items w' ! i) = v_fd (items w ! i)"
  shows "regs_ok w'"
  using assms(1,2,4) by (auto simp: regs_ok_def assms(3) split: if_splits)

text \<open>Along the cycle of partners each descriptor goes with its slot.\<close>

definition passes :: "world \<Rightarrow> world \<Rightarrow> bool" where
  "passes w w' \<longleftrightarrow> (\<forall>B. owner B w \<longrightarrow> owner B w') \<and> (regs_ok w \<longrightarrow> regs_ok w') \<and> w_os w' = w_os w"

lemma passes_trans: "passes w w' \<Longrightarrow> passes w' w'' \<Longrightarrow> passes w w''"
  by (simp add: passes_def)

lemma passes_freed:
  assumes "v \<in> live w" "freed v w w'"
  shows "passes w w'"
proof -
  let ?fd = "v_fd (items w ! v)"
  have f: "del_slot v (items w ! v) w = Some w'" "live w' = live w - {v}" "kept {v} w w'" using assms(2) by (simp_all add: freed_def)
  note h = del_slot_held [OF f(1)]
  have i: "v_fd (items w' ! i) = v_fd (items w ! i)" if "i \<noteq> v" for i
    using f(3) that by (auto simp: kept_def dest!: spec [of _ i])
  have "regs w' = (regs w)(?fd := None)" using h(3) f(3) by (simp add: regs_def kept_def)
  with owner_del_slot [OF _ assms(1) f(2) h(1) i] regs_del_slot [OF _ f(2) _ i] h(2) show ?thesis
    by (simp add: passes_def)
qed

lemma passes_parted: "parted v q w w' \<Longrightarrow> passes w w'"
  using unpair_fds [of v q w w'] owner_cong [of w' w] by (simp add: parted_def passes_def regs_ok_def)

lemma del_event_passes:
  assumes "slots_ok w" "listener w" "chain_ok v w" "v \<noteq> 0" "v \<in> live w \<or> dead w v" "del_event v w = Some w'"
  shows "passes w w'"
proof -
  have "\<exists>w'. del_event v w = Some w' \<and> listener w' \<and> passes w w'"
  proof (rule del_event_walk [OF assms(1-5)])
    show "passes w w3" if "v \<in> live w" "freed v w w1" "parted v q w1 w2" "passes w2 w3" for v q w w1 w2 w3
      using passes_trans [OF passes_freed [OF that(1,2)] passes_trans [OF passes_parted [OF that(3)] that(4)]] .
  qed (simp_all add: passes_freed, simp add: passes_def)
  with assms(6) show ?thesis by simp
qed

lemma hand_del:
  assumes "pool_inv w" "v \<in> live w" "v \<noteq> 0" "del_event v w = Some w'" "hand F w0 w"
  shows "hand F w0 w'"
proof -
  have s: "slots_ok w" "listener w" using assms(1) by (simp_all add: pool_inv_def)
  have "passes w w'"
    using del_event_passes [OF s pool_inv_chain [OF assms(1)] assms(3) _ assms(4)] assms(2) by blast
  moreover have "p_efd (w_pool w') = p_efd (w_pool w)"
    using del_event_chain [OF s pool_inv_chain [OF assms(1)] assms(3)] assms(2,4) by (auto simp: kept_def)
  ultimately show ?thesis using assms(5) by (simp add: hand_def passes_def)
qed

subsection \<open>Rules that follow a handler\<close>

lemma h_upd:
  assumes "hand F w0 w" "\<And>e. v_fd (f e) = v_fd e" "\<And>w'. upd v f w = Some w' \<Longrightarrow> hand F w0 w' \<Longrightarrow> Q w'"
  shows "ens (upd v f w) Q"
  using assms hand_upd [of v f w _ F w0] by (intro ensI) blast

lemma h_same:
  assumes "hand F w0 w" "ens m (\<lambda>(r, w'). same_pool w w')" "ens m (\<lambda>(r, w'). balanced w w')"
    "\<And>r w'. hand F w0 w' \<Longrightarrow> Q (r, w')"
  shows "ens m Q"
  using assms hand_frame [of F w0 w] by (force intro!: ensI dest: ensD)

lemma h_same3:
  assumes "hand F w0 w" "ens m (\<lambda>(r, x, w'). same_pool w w')" "ens m (\<lambda>(r, x, w'). balanced w w')"
    "\<And>r x w'. hand F w0 w' \<Longrightarrow> Q (r, x, w')"
  shows "ens m Q"
  using assms hand_frame [of F w0 w] by (force intro!: ensI dest: ensD)

lemma h_trans:
  assumes "hand {} w0 w" "ens m (\<lambda>(r, w'). hand F w w')" "\<And>r w'. hand F w0 w' \<Longrightarrow> Q (r, w')"
  shows "ens m Q"
  using assms hand_trans by (force intro!: ensI dest: ensD)

lemma hand_eq:
  assumes "w_pool w2 = w_pool w1" "\<And>D w. opened D w w2 = opened D w w1"
  shows "hand F w0 w2 = hand F w0 w1"
proof -
  have o: "opened {} w1 w2" "opened {} w2 w1" using assms(2) [of "{}" w1] assms(2) [of "{}" w2] by simp_all
  then have "same_pool w1 w2" "same_pool w2 w1" "balanced w1 w2" "balanced w2 w1"
    using assms(1) by (simp_all add: same_pool_def balanced_def)
  then show ?thesis using hand_frame by blast
qed

lemma hand_simps [simp]:
  "neutral c \<Longrightarrow> hand F w0 (snd (call c w)) = hand F w0 w" "neutral c \<Longrightarrow> hand F w0 (snd (sys c w)) = hand F w0 w"
  "neutral c \<Longrightarrow> hand F w0 (snd (call_if b c w)) = hand F w0 w"
  "hand F w0 (w_buffer_update g w) = hand F w0 w" "hand F w0 (w_not_exit_update k w) = hand F w0 w"
  "hand F w0 (snd (set_timeout fd s w)) = hand F w0 w" "hand F w0 (snd (resp_error fd e m w)) = hand F w0 w"
  "hand F w0 (snd (resp_s5_error fd e w)) = hand F w0 w"
  by (rule hand_eq; simp add: frame neutral_fun del: neutral_def)+

text \<open>Changing what a connection in use waits for.\<close>

lemma hand_mod:
  assumes "mod_etype v k w = Some (r, w')" "hand F w0 w" "v \<in> live w"
  shows "hand F w0 w'"
proof -
  let ?fd = "v_fd (items w ! v)"
  obtain c where c: "c = Epoll_ctl (p_efd (w_pool w)) EPOLL_CTL_MOD ?fd (POLLRDHUP OR k) v" "(r, w') = call c w"
    using assms(1) by (auto simp: mod_etype_def bind_eq_Some_conv ev_def split: if_splits)
  then have w': "w_pool w' = w_pool w" "w_os w' = w_os w" "held w' = held w"
      "regs w' = (if r = 0 \<and> regs w ?fd \<noteq> None then (regs w)(?fd \<mapsto> v) else regs w)"
    by (auto simp: call_def sys_def Let_def held_def fds_snoc regs_def registered_snoc)
  have "owner B w' = owner B w" for B
    by (rule owner_cong) (simp_all add: w' live_def)
  moreover have "regs_ok w \<Longrightarrow> regs_ok w'"
    using assms(3) w' by (auto simp: regs_ok_def live_def split: if_splits)
  ultimately show ?thesis using assms(2) by (simp add: hand_def w')
qed

lemmas hcg = h_upd h_same [OF _ recv_buf_pool recv_buf_balanced] h_same [OF _ mode_add_get_pool mode_add_get_balanced]
  h_same [OF _ socket_mod_pool socket_mod_balanced] h_same [OF _ post_desync_pool post_desync_balanced]
  h_same [OF _ desync_udp_pool desync_udp_balanced] h_same3 [OF _ desync_pool desync_balanced]
  h_same3 [OF _ s5_get_addr_pool s5_get_addr_balanced] h_same3 [OF _ s4_get_addr_pool s4_get_addr_balanced]
  h_same3 [OF _ auth_socks5_pool auth_socks5_balanced] h_same [OF _ sock_opts_pool sock_opts_balanced]

subsection \<open>Functions that set up connections\<close>

text \<open>The account, and a pool in which a slot can be taken.\<close>

definition handy :: "int set \<Rightarrow> world \<Rightarrow> world \<Rightarrow> bool" where
  "handy F w0 w \<longleftrightarrow> hand F w0 w \<and> slots_ok w"

lemma handy_hand [elim]: "handy F w0 w \<Longrightarrow> hand F w0 w"
  by (simp add: handy_def)

lemma slots_ok_pool: "w_pool w' = w_pool w \<Longrightarrow> slots_ok w' = slots_ok w"
  by (simp add: slots_ok_def)

lemma slots_ok_frame [simp]:
  "slots_ok (snd (call c w)) = slots_ok w" "slots_ok (snd (sys c w)) = slots_ok w"
  "slots_ok (close_fd fd w) = slots_ok w" "slots_ok (snd (nb_socket d t w)) = slots_ok w"
  "slots_ok (snd (call_if b c w)) = slots_ok w"
  by (rule slots_ok_pool, simp add: frame)+

lemma handy_frame [simp]:
  "neutral c \<Longrightarrow> handy F w0 (snd (call c w)) = handy F w0 w" "neutral c \<Longrightarrow> handy F w0 (snd (sys c w)) = handy F w0 w"
  "neutral c \<Longrightarrow> handy F w0 (snd (call_if b c w)) = handy F w0 w"
  by (simp_all only: handy_def hand_simps slots_ok_frame)

lemma hand_new:
  "hand {} w0 w \<Longrightarrow> fst (nb_socket d t w) < 0 \<Longrightarrow> hand {} w0 (snd (nb_socket d t w))"
  "hand {} w0 w \<Longrightarrow> \<not> fst (nb_socket d t w) < 0 \<Longrightarrow> hand {fst (nb_socket d t w)} w0 (snd (nb_socket d t w))"
  "hand {} w0 w \<Longrightarrow> r_ret (w_os w (w_hist w) (Accept4 fd)) < 0 \<Longrightarrow> hand {} w0 (snd (sys (Accept4 fd) w))"
  "hand {} w0 w \<Longrightarrow> \<not> r_ret (w_os w (w_hist w) (Accept4 fd)) < 0 \<Longrightarrow>
    hand {r_ret (w_os w (w_hist w) (Accept4 fd))} w0 (snd (sys (Accept4 fd) w))"
  using hand_open [of w0 w "Socket d t True" "fst (call (Socket d t True) w)" "snd (call (Socket d t True) w)"]
    hand_open [of w0 w "Accept4 fd" "r_ret (w_os w (w_hist w) (Accept4 fd))" "snd (sys (Accept4 fd) w)"]
  by (auto simp: nb_socket_def split_beta call_def split: if_splits)

lemma handy_new:
  "handy {} w0 w \<Longrightarrow> fst (nb_socket d t w) < 0 \<Longrightarrow> handy {} w0 (snd (nb_socket d t w))"
  "handy {} w0 w \<Longrightarrow> \<not> fst (nb_socket d t w) < 0 \<Longrightarrow> handy {fst (nb_socket d t w)} w0 (snd (nb_socket d t w))"
  "handy {} w0 w \<Longrightarrow> r_ret (w_os w (w_hist w) (Accept4 fd)) < 0 \<Longrightarrow> handy {} w0 (snd (sys (Accept4 fd) w))"
  "handy {} w0 w \<Longrightarrow> \<not> r_ret (w_os w (w_hist w) (Accept4 fd)) < 0 \<Longrightarrow>
    handy {r_ret (w_os w (w_hist w) (Accept4 fd))} w0 (snd (sys (Accept4 fd) w))"
  using hand_new [of w0 w] by (simp_all add: handy_def)

lemma handy_close: "handy {fd} w0 w \<Longrightarrow> handy {} w0 (close_fd fd w)"
  by (simp add: handy_def hand_close)

lemma y_add:
  assumes "handy {fd} w0 w" "\<And>w'. handy {fd} w0 w' \<Longrightarrow> Q (None, w')" "\<And>v w'. handy {} w0 w' \<Longrightarrow> Q (Some v, w')"
  shows "ens (add_event t fd e w) Q"
proof (rule ensI, clarify)
  fix r w' assume a: "add_event t fd e w = Some (r, w')"
  from add_event_fds [OF _ a] hand_add [OF _ _ a, of w0] assms(1)
  have "case r of None \<Rightarrow> handy {fd} w0 w' | Some v \<Rightarrow> handy {} w0 w'"
    by (auto simp: handy_def split: option.splits)
  with assms(2,3) show "Q (r, w')" by (cases r) auto
qed

lemma y_upd:
  assumes "handy F w0 w" "\<And>e. v_fd (f e) = v_fd e"
    "\<And>i e k. slot_ok k i e \<Longrightarrow> slot_ok k i (f e)" "\<And>w'. handy F w0 w' \<Longrightarrow> Q w'"
  shows "ens (upd v f w) Q"
proof (rule ensI)
  fix w' assume u: "upd v f w = Some w'"
  have "slots_ok w'" using slots_ok_upd [OF u] assms(1,3) by (simp add: handy_def)
  with hand_upd [OF u, of F w0] assms(1,2,4) show "Q w'" by (simp add: handy_def)
qed

lemma y_same:
  assumes "handy F w0 w" "ens m (\<lambda>(r, w'). same_pool w w')" "ens m (\<lambda>(r, w'). balanced w w')"
    "\<And>r w'. handy F w0 w' \<Longrightarrow> Q (r, w')"
  shows "ens m Q"
proof (rule ensI, clarify)
  fix r w' assume m: "m = Some (r, w')"
  have "same_pool w w'" "balanced w w'" using ensD [OF assms(2) m] ensD [OF assms(3) m] by simp_all
  moreover from this have "slots_ok w' = slots_ok w" by (intro slots_ok_pool) (simp add: same_pool_def)
  ultimately have "handy F w0 w'" using assms(1) hand_frame [of F w0 w w'] by (simp add: handy_def)
  then show "Q (r, w')" by (rule assms(4))
qed

lemmas ycg = y_same [OF _ sock_opts_pool sock_opts_balanced] y_same [OF _ mode_add_get_pool mode_add_get_balanced]

lemma create_conn_handy:
  assumes "handy {} w0 w"
  shows "ens (create_conn val dst next w) (\<lambda>(r, w'). handy {} w0 w')"
  unfolding create_conn_def fail_close_def
  by (auto simp: split_beta Let_def slot_ok_def assms split: option.split
      intro!: y_add [of _ w0] ycg [of _ w0] y_upd [of _ w0] handy_new handy_close)

lemma connect_hook_handy:
  assumes "handy {} w0 w"
  shows "ens (connect_hook val dst next w) (\<lambda>(r, w'). handy {} w0 w')"
  unfolding connect_hook_def
  by (auto simp: slot_ok_def assms intro!: ycg [of _ w0] y_upd [of _ w0] create_conn_handy)

lemma on_accept_hand:
  assumes "handy {} w0 w"
  shows "ens (on_accept val w) (\<lambda>(r, w'). hand {} w0 w')"
proof -
  have "handy {} w0 w \<longrightarrow> hand {} w0 (snd rw)" if "on_accept val w = Some rw" for rw
  proof (rule on_accept.raw_induct [of "\<lambda>val w rw. handy {} w0 w \<longrightarrow> hand {} w0 (snd rw)", OF _ that],
      rule impI, goal_cases)
    case (1 loop val w rw)
    have L: "ens (loop val x) (\<lambda>a. hand {} w0 (snd a))" if "handy {} w0 x" for x
      using 1(1) [of val x] that by (auto intro!: ensI)
    show ?case
      by (rule ensD [OF _ 1(2)])
        (auto simp: split_beta Let_def slot_ok_def 1(3) split: option.split
          intro!: v_read L y_add [of _ w0] y_upd [of _ w0] handy_close handy_new handy_hand)
  qed
  with assms show ?thesis by (auto intro: ensI)
qed

end
