(* ===== verification/Handlers.thy ===== *)
theory Handlers
  imports Ownership
begin

text \<open>
  The invariant of the event loop and the proof that every handler keeps it. \<open>Inv\<close> adds to the
  well-formed pool what the kind of a connection says about its partner: a connection that waits for
  a request has none, and one that carries a TCP stream and its partner point to each other.
\<close>

section \<open>Definitions\<close>

definition mutual :: "world \<Rightarrow> nat \<Rightarrow> bool" where
  "mutual w i \<longleftrightarrow> (\<exists>p. p \<noteq> i \<and> pr w i = Some p \<and> pr w p = Some i)"

definition role_ok :: "world \<Rightarrow> nat \<Rightarrow> bool" where
  "role_ok w i \<longleftrightarrow>
     (case v_type (items w ! i) of
        EV_REQUEST \<Rightarrow> pr w i = None
      | EV_CONNECT \<Rightarrow> mutual w i | EV_TUNNEL \<Rightarrow> mutual w i
      | EV_PRE_TUNNEL \<Rightarrow> mutual w i | EV_DESYNC \<Rightarrow> mutual w i
      | _ \<Rightarrow> True)"

definition Inv :: "int \<Rightarrow> world \<Rightarrow> bool" where
  "Inv offs w \<longleftrightarrow> pool_inv w \<and> batch_ok offs w \<and> (\<forall>i\<in>live w. role_ok w i)"

text \<open>A step that adds and deletes no connection and pairs none.\<close>

definition calm :: "int \<Rightarrow> world \<Rightarrow> world \<Rightarrow> bool" where
  "calm offs w w' \<longleftrightarrow> live w' = live w \<and> (\<forall>i\<in>live w. pr w' i = pr w i) \<and> (Inv offs w \<longrightarrow> Inv offs w') \<and>
     hand {} w w'"

text \<open>A change of one slot that leaves to the pool what belongs to the pool.\<close>

definition gently :: "eval \<Rightarrow> eval \<Rightarrow> bool" where
  "gently e e' \<longleftrightarrow> v_fd e' = v_fd e \<and> v_index e' = v_index e \<and> v_mod_iter e' = v_mod_iter e \<and>
     v_pair e' = v_pair e \<and>
     (b_data (v_buff e') \<noteq> None \<longrightarrow> b_size (v_buff e') \<noteq> 0 \<or> b_data (v_buff e) \<noteq> None \<and> b_size (v_buff e) = 0)"

section \<open>Lemmas\<close>

lemma Inv_same:
  assumes "w_pool w' = w_pool w"
  shows "live w' = live w" "pr w' = pr w" "Inv offs w' = Inv offs w" "mutual w' = mutual w"
proof -
  show l: "live w' = live w" by (simp add: live_def assms)
  show p: "pr w' = pr w" by (rule ext) (simp add: pr_def assms)
  have pa: "paired w' = paired w" by (simp add: paired_def l p)
  show m: "mutual w' = mutual w" by (rule ext) (simp add: mutual_def p)
  show "Inv offs w' = Inv offs w"
    by (simp add: Inv_def pool_inv_def slots_ok_def listener_def pairs_ok_def batch_ok_def pending_def
        role_ok_def assms l p pa m cong: eid.case_cong)
qed

lemma calm_refl [simp]: "calm offs w w"
  by (simp add: calm_def)

lemma calm_trans: "calm offs w w' \<Longrightarrow> calm offs w' w'' \<Longrightarrow> calm offs w w''"
  by (auto simp: calm_def intro: hand_trans)

lemma calm_same:
  assumes "same_pool w1 w2" "hand {} w0 w1 \<Longrightarrow> hand {} w0 w2" "calm offs w0 w1"
  shows "calm offs w0 w2"
  using assms Inv_same [of w2 w1] by (simp add: calm_def same_pool_def)

lemma calm_eq:
  assumes "w_pool w2 = w_pool w1" "\<And>D w. opened D w w2 = opened D w w1"
  shows "calm offs w0 w2 = calm offs w0 w1"
  using calm_same [of w1 w2] calm_same [of w2 w1] hand_eq [OF assms] assms(1) by (auto simp: same_pool_def)

lemma calm_simps [simp]:
  "neutral c \<Longrightarrow> calm offs w0 (snd (call c w)) = calm offs w0 w" "neutral c \<Longrightarrow> calm offs w0 (snd (sys c w)) = calm offs w0 w"
  "calm offs w0 (w_buffer_update f w) = calm offs w0 w"
  "calm offs w0 (snd (set_timeout fd s w)) = calm offs w0 w" "calm offs w0 (snd (resp_error fd e k w)) = calm offs w0 w"
  "calm offs w0 (snd (resp_s5_error fd e w)) = calm offs w0 w"
  by (rule calm_eq; simp add: frame neutral_fun del: neutral_def)+

lemma Inv_live:
  assumes "Inv offs w" "v \<in> live w"
  shows "ev w v = Some (items w ! v)" "v_type (items w ! v) = EV_ACCEPT \<longleftrightarrow> v = 0" "role_ok w v" "v < length (items w)"
  using assms live_ev [of w v]
  by (auto simp: Inv_def pool_inv_def listener_def ev_def split: if_splits)

lemma Inv_pair:
  assumes "Inv offs w" "v \<in> live w" "pr w v = Some p"
  shows "p \<in> live w" "p \<noteq> 0"
  using assms pair_live [of w v p] by (auto simp: Inv_def)

lemma ev_pr: "ev w v = Some e \<Longrightarrow> v_pair e = pr w v"
  by (auto simp: ev_def pr_def split: if_splits)

lemma mutual_live:
  assumes "Inv offs w" "\<forall>i\<in>live w. pr w' i = pr w i" "i \<in> live w"
  shows "mutual w' i = mutual w i"
proof -
  have "pr w' p = pr w p" if "pr w i = Some p" for p using Inv_pair [OF assms(1,3) that] assms(2) by simp
  then show ?thesis using assms(2,3) by (auto simp: mutual_def)
qed

lemma calm_mutual: "calm offs w0 w \<Longrightarrow> Inv offs w0 \<Longrightarrow> i \<in> live w0 \<Longrightarrow> mutual w i = mutual w0 i"
  using mutual_live [of offs w0 w] by (simp add: calm_def)

lemma calm_upd:
  assumes u: "upd v f w = Some w'" and c: "calm offs w0 w" and v: "v \<noteq> 0"
    and g: "gently (items w ! v) (f (items w ! v))"
    and t: "v_type (f (items w ! v)) = v_type (items w ! v) \<or>
      v_type (f (items w ! v)) \<in> {EV_IGNORE, EV_UDP_TUNNEL} \<or> v_type (f (items w ! v)) \<noteq> EV_ACCEPT \<and>
      v_type (f (items w ! v)) \<noteq> EV_REQUEST \<and> mutual w0 v"
  shows "calm offs w0 w'"
proof -
  note uf = upd_facts [OF u]
  have pr: "pr w' = pr w" using g by (auto simp: pr_def uf gently_def)
  have pa: "paired w' = paired w" by (simp add: paired_def uf pr)
  have mu: "mutual w' i = mutual w i" for i by (simp add: mutual_def pr)
  have "Inv offs w'" if i0: "Inv offs w0"
  proof -
    have i: "Inv offs w" using c i0 by (simp add: calm_def)
    have "slots_ok w'"
      using i g by (intro slots_ok_upd [OF u]) (auto simp: Inv_def pool_inv_def slot_ok_def gently_def)
    moreover have "listener w'"
      using i t v by (auto simp: Inv_def pool_inv_def listener_def uf pr)
    moreover have "pairs_ok w'" using i by (simp add: Inv_def pool_inv_def pairs_ok_def pa pr)
    moreover have "batch_ok offs w'"
      using i g by (auto simp: Inv_def batch_ok_def pending_def uf gently_def)
    moreover have "role_ok w' i" if l: "i \<in> live w" for i
    proof -
      have "mutual w i = mutual w0 i" using calm_mutual [OF c i0] l c by (simp add: calm_def)
      then show ?thesis
        using i l t by (cases "i = v") (auto simp: Inv_def role_ok_def uf pr mu split: eid.splits)
    qed
    ultimately show ?thesis by (simp add: Inv_def pool_inv_def uf)
  qed
  moreover have "hand {} w0 w'" using hand_upd [OF u, of "{}" w0] c g by (simp add: calm_def gently_def)
  ultimately show ?thesis using c by (simp add: calm_def uf pr)
qed

lemma Inv_del:
  assumes i: "Inv offs w" and v: "v \<in> live w" "v \<noteq> 0" and d: "del_event v w = Some w'"
  shows "Inv offs w'"
proof -
  obtain D where D: "pool_inv w'" "live w' = live w - D" "kept D w w'" "batch_ok offs w'"
    using del_event_inv [of w v offs] i v d by (auto simp: Inv_def)
  have "role_ok w' j" if j: "j \<in> live w'" for j
  proof -
    have jD: "j \<in> live w" "j \<notin> D" using j D(2) by simp_all
    have t: "v_type (items w' ! j) = v_type (items w ! j)"
      using D(3) jD(2) by (auto simp: kept_def dest!: spec [of _ j])
    have p: "pr w' j = pr w j" using kept_pr [OF D(3) jD(2)] .
    have "mutual w' j" if "mutual w j"
    proof -
      obtain q where q: "q \<noteq> j" "pr w j = Some q" "pr w q = Some j" using \<open>mutual w j\<close> by (auto simp: mutual_def)
      then have "q \<in> live w'" using pair_live(1) [OF D(1) j] p by simp
      then have "pr w' q = pr w q" using D(2) kept_pr [OF D(3)] by simp
      with p q show ?thesis by (simp add: mutual_def)
    qed
    moreover have "role_ok w j" using i jD(1) by (simp add: Inv_def)
    ultimately show ?thesis by (auto simp: role_ok_def t p split: eid.splits)
  qed
  with D show ?thesis by (simp add: Inv_def)
qed

text \<open>Rules that follow a handler from the world \<open>w0\<close> in which it starts.\<close>

lemma v_upd:
  assumes "calm offs w0 w" "0 < v" "gently (items w ! v) (f (items w ! v))"
    "v_type (f (items w ! v)) = v_type (items w ! v) \<or>
      v_type (f (items w ! v)) \<in> {EV_IGNORE, EV_UDP_TUNNEL} \<or> v_type (f (items w ! v)) \<noteq> EV_ACCEPT \<and>
      v_type (f (items w ! v)) \<noteq> EV_REQUEST \<and> mutual w0 v"
    "\<And>w'. upd v f w = Some w' \<Longrightarrow> calm offs w0 w' \<Longrightarrow> Q w'"
  shows "ens (upd v f w) Q"
  using assms calm_upd [of v f w _ offs w0] by (intro ensI) blast

lemma v_same:
  assumes "calm offs w0 w" "ens m (\<lambda>(r, w'). same_pool w w')" "ens m (\<lambda>(r, w'). balanced w w')"
    "\<And>r w'. calm offs w0 w' \<Longrightarrow> same_pool w w' \<Longrightarrow> Q (r, w')"
  shows "ens m Q"
proof (rule ensI, clarify)
  fix r w' assume m: "m = Some (r, w')"
  have s: "same_pool w w'" "balanced w w'" using ensD [OF assms(2) m] ensD [OF assms(3) m] by simp_all
  from calm_same [OF s(1) hand_frame [OF _ s] assms(1)] s(1) show "Q (r, w')" by (rule assms(4))
qed

lemma v_same3:
  assumes "calm offs w0 w" "ens m (\<lambda>(r, x, w'). same_pool w w')" "ens m (\<lambda>(r, x, w'). balanced w w')"
    "\<And>r x w'. calm offs w0 w' \<Longrightarrow> same_pool w w' \<Longrightarrow> Q (r, x, w')"
  shows "ens m Q"
proof (rule ensI, clarify)
  fix r x w' assume m: "m = Some (r, x, w')"
  have s: "same_pool w w'" "balanced w w'" using ensD [OF assms(2) m] ensD [OF assms(3) m] by simp_all
  from calm_same [OF s(1) hand_frame [OF _ s] assms(1)] s(1) show "Q (r, x, w')" by (rule assms(4))
qed

lemma v_mod:
  assumes "calm offs w0 w" "v \<in> live w0" "\<And>r w'. calm offs w0 w' \<Longrightarrow> same_pool w w' \<Longrightarrow> Q (r, w')"
  shows "ens (mod_etype v s w) Q"
proof (rule ensI, clarify)
  fix r w' assume m: "mod_etype v s w = Some (r, w')"
  have s: "same_pool w w'" using ensD [OF mod_etype_pool m] by simp
  have "v \<in> live w" using assms(1,2) by (simp add: calm_def)
  from calm_same [OF s hand_mod [OF m _ this] assms(1)] s show "Q (r, w')" by (rule assms(3))
qed

lemma v_mods:
  assumes "calm offs w0 w" "v \<in> live w0" "\<And>p. v' = Some p \<Longrightarrow> p \<in> live w0"
    "\<And>r w'. calm offs w0 w' \<Longrightarrow> same_pool w w' \<Longrightarrow> Q (r, w')"
  shows "ens (mod_etypes v s v' s' w) Q"
  unfolding mod_etypes_def
  by (auto simp: same_pool_def intro!: v_mod [of offs w0] assms ensI [of v'])

lemma v_calm:
  assumes "calm offs w0 w" "ens m (\<lambda>(r, w'). calm offs w w')" "\<And>r w'. calm offs w0 w' \<Longrightarrow> Q (r, w')"
  shows "ens m Q"
  using assms calm_trans by (force intro!: ensI dest: ensD)

lemma v_recv_at:
  assumes "calm offs w0 w" "neutral c" "\<And>r w'. calm offs w0 w' \<Longrightarrow> same_pool w w' \<Longrightarrow> Q (r, w')"
  shows "ens (recv_at c off z w) Q"
  by (rule v_same [OF assms(1) recv_at_pool recv_at_balanced [OF assms(2)]]) (rule assms(3))

lemmas vcg = v_upd v_mod v_mods v_recv_at v_same [OF _ recv_buf_pool recv_buf_balanced]
  v_same [OF _ mode_add_get_pool mode_add_get_balanced] v_same [OF _ socket_mod_pool socket_mod_balanced]
  v_same [OF _ post_desync_pool post_desync_balanced] v_same [OF _ desync_udp_pool desync_udp_balanced]
  v_same3 [OF _ desync_pool desync_balanced] v_same3 [OF _ s5_get_addr_pool s5_get_addr_balanced]
  v_same3 [OF _ s4_get_addr_pool s4_get_addr_balanced] v_same3 [OF _ auth_socks5_pool auth_socks5_balanced]

subsection \<open>Streams\<close>

lemma tunnel_flush_calm:
  assumes "calm offs w0 w" "0 < val" "val \<in> live w0" "\<And>p. pair = Some p \<Longrightarrow> p \<in> live w0"
  shows "ens (tunnel_flush val pair etype w) (\<lambda>(r, w'). calm offs w0 w')"
  unfolding tunnel_flush_def
  by (auto simp: split_beta Let_def gently_def no_buffer_def assms intro!: v_read vcg [of offs w0] ensI [of pair]
      split: option.split)

lemma tunnel_keep_calm:
  assumes "calm offs w0 w" "0 < val" "val \<in> live w0" "\<And>p. pair = Some p \<Longrightarrow> p \<in> live w0" "sn < n"
  shows "ens (tunnel_keep val pair sn n w) (\<lambda>(r, w'). calm offs w0 w')"
  unfolding tunnel_keep_def using assms
  by (auto simp: split_beta Let_def gently_def intro!: v_read vcg [of offs w0])

lemma send_bound: "fst (call (Send fd bs oob) w) \<le> int (length bs)"
  by (simp add: call_def split_beta comply_write_def)

lemma mem_read_length: "mem_read b p n = Some bs \<Longrightarrow> length bs = n"
  by (auto simp: mem_read_def split: if_splits)

lemma tunnel_loop_calm:
  assumes "calm offs w0 w" "0 < val" "val \<in> live w0" "\<And>p. pair = Some p \<Longrightarrow> p \<in> live w0"
  shows "ens (tunnel_loop val pair bfsize w) (\<lambda>(r, w'). calm offs w0 w')"
proof -
  let ?pre = "\<lambda>val pair w. calm offs w0 w \<and> 0 < val \<and> val \<in> live w0 \<and> (\<forall>p. pair = Some p \<longrightarrow> p \<in> live w0)"
  have "?pre val pair w \<longrightarrow> calm offs w0 (snd rw)" if "tunnel_loop val pair bfsize w = Some rw" for rw
  proof (rule tunnel_loop.raw_induct [of "\<lambda>val pair bfsize w rw. ?pre val pair w \<longrightarrow> calm offs w0 (snd rw)", OF _ that],
      rule impI, goal_cases)
    case (1 loop val pair bfsize w rw)
    have P: "ens pair Q" if "\<And>p. p \<in> live w0 \<Longrightarrow> pair = Some p \<Longrightarrow> Q p" for Q
      using 1(3) that by (auto intro: ensI)
    have L: "ens (loop val p bfsize x) (\<lambda>a. calm offs w0 (snd a))" if "calm offs w0 x" "\<And>q. p = Some q \<Longrightarrow> q \<in> live w0" for p x
      using 1(1) [of val p bfsize x] 1(3) that by (auto intro!: ensI)
    have s: "nat (fst (call (Send fd bs oob) x)) < nat n"
      if "fst (call (Send fd bs oob) x) \<noteq> n" "length bs = nat n" "\<not> n < 1" for fd bs oob x n
      using send_bound [of fd bs oob x] that by linarith
    have K: "ens (tunnel_keep val p sn n x) (\<lambda>a. calm offs w0 (snd a))"
      if "calm offs w0 x" "sn < n" "\<And>q. p = Some q \<Longrightarrow> q \<in> live w0" for p sn n x
      by (rule ens_mono [OF tunnel_keep_calm [OF that(1)]]) (use 1(3) that(2,3) in auto)
    show ?case
      by (rule ensD [OF _ 1(2)])
        (auto simp: split_beta gently_def 1(3) intro!: v_read vcg [of offs w0] K L P s dest: mem_read_length)
  qed
  with assms show ?thesis by (auto intro: ensI)
qed

lemma on_tunnel_calm:
  assumes "Inv offs w" "val \<in> live w" "0 < val"
  shows "ens (on_tunnel val bfsize etype w) (\<lambda>(r, w'). calm offs w w')"
proof -
  have p: "0 < q \<and> q \<in> live w" if "v_pair e = Some q" "ev w v = Some e" "v \<in> live w" for q e v
    using Inv_pair [OF assms(1) that(3)] that ev_pr by force
  have K: "ens (tunnel_flush v p etype w) Q"
    if "0 < v" "v \<in> live w" "\<And>q. p = Some q \<Longrightarrow> q \<in> live w" "\<And>r w'. calm offs w w' \<Longrightarrow> Q (r, w')" for v p Q
    by (rule ens_mono [OF tunnel_flush_calm [OF calm_refl that(1-3)]]) (use that(4) in auto)
  show ?thesis
    unfolding on_tunnel_def
    by (auto simp: split_beta assms intro!: v_read K tunnel_loop_calm [of offs w] dest: p split: sum.split)
qed

subsection \<open>Requests in progress\<close>

lemma to_tunnel_calm:
  assumes "calm offs w0 w" "0 < v" "\<And>p. pr w0 v = Some p \<Longrightarrow> 0 < p" "mutual w0 v" "v \<in> live w0"
    "\<And>w'. calm offs w0 w' \<Longrightarrow> Q w'"
  shows "ens (to_tunnel v w) Q"
proof -
  have p: "0 < p \<and> mutual w0 p" if "pair_of w v = Some p" for p
  proof -
    have "pr w0 v = Some p"
      using that assms(1,5) ev_pr by (fastforce simp: pair_of_def calm_def bind_eq_Some_conv)
    then show ?thesis using assms(3,4) by (auto simp: mutual_def)
  qed
  show ?thesis
    unfolding to_tunnel_def
    using assms(2,4) p by (auto simp: gently_def no_buffer_def intro!: v_read vcg [of offs w0] ensI [of "pair_of w v"] assms(1,6))
qed

lemma on_connect_calm:
  assumes "Inv offs w" "val \<in> live w" "0 < val" "mutual w val"
  shows "ens (on_connect val err w) (\<lambda>(r, w'). calm offs w w')"
proof -
  have p: "0 < q \<and> mutual w q" if "v_pair e = Some q" "ev w val = Some e" for q e
    using Inv_pair [OF assms(1,2)] that ev_pr [of w val e] assms(4) by (auto simp: mutual_def)
  show ?thesis
    unfolding on_connect_def
    using assms(2-4) p by (auto simp: split_beta Let_def gently_def intro!: v_read vcg [of offs w])
qed

lemma on_desync_again_calm:
  assumes i: "Inv offs w0" "val \<in> live w0" "0 < val" "mutual w0 val" and c: "calm offs w0 w"
  shows "ens (on_desync_again val bfsize w) (\<lambda>(r, w'). calm offs w0 w')"
proof -
  have p1: "0 < q \<and> mutual w0 q \<and> pr w0 val = Some q \<and> q \<in> live w0" if "v_pair e = Some q" "ev w' val = Some e" "calm offs w0 w'"
    for q e w'
  proof -
    have "pr w0 val = Some q" using that i(2) ev_pr by (fastforce simp: calm_def)
    then show ?thesis using i(4) Inv_pair [OF i(1,2)] by (auto simp: mutual_def)
  qed
  have p2: "q = val" if "v_pair e = Some q" "ev w' v = Some e" "calm offs w0 w'" "pr w0 val = Some v" for q e w' v
  proof -
    have "v \<in> live w0" using Inv_pair [OF i(1,2)] that(4) by simp
    then have "pr w0 v = Some q" using that ev_pr by (fastforce simp: calm_def)
    then show ?thesis using i(4) that(4) by (auto simp: mutual_def)
  qed
  show ?thesis
    unfolding on_desync_again_def
    using i(2-4) c by (auto simp: split_beta Let_def gently_def intro!: v_read vcg [of offs w0] dest: p1 p2)
qed

lemma upd_item: "upd v f w = Some w' \<Longrightarrow> items w' ! v = f (items w ! v)"
  by (simp add: upd_facts)

lemma on_desync_calm:
  assumes i: "Inv offs w" "val \<in> live w" "0 < val" "mutual w val"
  shows "ens (on_desync val bfsize out w) (\<lambda>(r, w'). calm offs w w')"
proof -
  have p: "0 < q" if "pr w val = Some q" for q using that Inv_pair [OF i(1,2)] by simp
  note A = on_desync_again_calm [OF i]
  show ?thesis
    unfolding on_desync_def
    by (auto simp: split_beta Let_def gently_def i(3,4) p
        intro!: v_read vcg [of offs w] to_tunnel_calm [of offs w] i(2) A ensI [of "strategy_search _ _ _ _"] dest: upd_item)
qed

lemma accept_response_calm:
  assumes i: "Inv offs w0" "val \<in> live w0" "0 < val" "mutual w0 val" and c: "calm offs w0 w"
  shows "ens (accept_response val n w) (\<lambda>(r, w'). calm offs w0 w')"
proof -
  have p: "0 < q \<and> mutual w0 q" if "v_pair e = Some q" "ev w' val = Some e" "calm offs w0 w'"
    for q e w'
  proof -
    have "pr w0 val = Some q" using that i(2) ev_pr by (fastforce simp: calm_def)
    then show ?thesis using i(4) Inv_pair [OF i(1,2)] by (auto simp: mutual_def)
  qed
  have p3: "q \<in> live w0" if "v_pair e = Some q" "ev w' val = Some e" "calm offs w0 w'" for q e w'
    using that i(2) ev_pr [of w' val e] Inv_pair [OF i(1,2)] by (auto simp: calm_def)
  have p2: "0 < q'" if "pr w0 q = Some q'" "v_pair e = Some q" "ev w' val = Some e" "calm offs w0 w'" for q q' e w'
  proof -
    have "pr w0 val = Some q" using that(2-4) i(2) ev_pr by (fastforce simp: calm_def)
    then show ?thesis using i(3,4) that(1) by (auto simp: mutual_def)
  qed
  show ?thesis
    unfolding accept_response_def
    using i(3) c by (auto simp: split_beta Let_def gently_def intro!: v_read vcg [of offs w0] to_tunnel_calm [of offs w0]
        dest: p intro: p2 p3)
qed

subsection \<open>Datagrams\<close>

lemma udp_from_client_calm:
  assumes "Inv offs w" "val \<in> live w" "0 < val"
  shows "ens (udp_from_client val n addr w) (\<lambda>(r, w'). calm offs w w')"
proof -
  have p: "0 < q" if "pair_of w' val = Some q" "calm offs w w'" for q w'
  proof -
    have "pr w val = Some q"
      using that assms(2) ev_pr by (fastforce simp: calm_def pair_of_def bind_eq_Some_conv)
    then show ?thesis using Inv_pair [OF assms(1,2)] by simp
  qed
  have 1: "ens (udp_first_client val addr w) (\<lambda>(r, w'). calm offs w w')"
    unfolding udp_first_client_def
    by (auto simp: split_beta gently_def assms(3) intro!: v_read vcg [of offs w])
  have 2: "ens (udp_first_remote q addr x) (\<lambda>(ok, a, w'). calm offs w w')" if "calm offs w x" "0 < q" for q addr x
    unfolding udp_first_remote_def
    by (auto simp: split_beta Let_def gently_def that intro!: v_read vcg [of offs w])
  show ?thesis
    unfolding udp_from_client_def
    by (auto simp: split_beta Let_def intro!: v_read vcg [of offs w] v_calm [OF _ 1] ens_mono [OF 2] ensI [of "pair_of _ _"]
        v_same [OF _ udp_hook_pool udp_hook_balanced, of offs w] split: sum.split dest: p)
qed

lemma udp_from_remote_calm: "ens (udp_from_remote val n addr w) (\<lambda>(r, w'). calm offs w w')"
  unfolding udp_from_remote_def
  by (auto simp: split_beta Let_def intro!: v_read ensI [of "memset _ _ _ _"] ensI [of "s5_set_addr _ _ _ _ _"]
      ensI [of "pair_of _ _"])

lemma udp_loop_calm:
  assumes "Inv offs w0" "val \<in> live w0" "0 < val" "calm offs w0 w"
  shows "ens (udp_loop val off len addr w) (\<lambda>(r, w'). calm offs w0 w')"
proof -
  have "calm offs w0 w \<longrightarrow> val \<in> live w0 \<longrightarrow> 0 < val \<longrightarrow> calm offs w0 (snd rw)" if "udp_loop val off len addr w = Some rw" for rw
  proof (rule udp_loop.raw_induct [of "\<lambda>val off len addr w rw. calm offs w0 w \<longrightarrow> val \<in> live w0 \<longrightarrow> 0 < val \<longrightarrow> calm offs w0 (snd rw)", OF _ that],
      intro impI, goal_cases)
    case (1 loop val off len addr w rw)
    have L: "ens (loop val off len addr x) (\<lambda>a. calm offs w0 (snd a))" if "calm offs w0 x" for off len addr x
      using 1(1) [of val off len addr x] 1(4,5) that by (auto intro!: ensI)
    have C: "ens (udp_from_client val n addr x) Q"
      if c: "calm offs w0 x" and Q: "\<And>r w'. calm offs w0 w' \<Longrightarrow> Q (r, w')" for n addr x Q
    proof -
      have "Inv offs x" "val \<in> live x" using c assms(1) 1(4) by (simp_all add: calm_def)
      from udp_from_client_calm [OF this 1(5)] show ?thesis
        by (rule v_calm [OF c]) (rule Q)
    qed
    note R = v_calm [OF _ udp_from_remote_calm, of offs w0]
    show ?case
      by (rule ensD [OF _ 1(2)])
        (auto simp: split_beta Let_def gently_def 1(3,5) intro!: v_read vcg [of offs w0] C R L split: sum.split)
  qed
  with assms show ?thesis by (auto intro: ensI)
qed

lemma on_udp_tunnel_calm:
  assumes "Inv offs w" "val \<in> live w" "0 < val"
  shows "ens (on_udp_tunnel val bfsize w) (\<lambda>(r, w'). calm offs w w')"
  unfolding on_udp_tunnel_def
  by (auto intro!: v_read udp_loop_calm [OF assms])

subsection \<open>New pairs\<close>

definition pairs_on :: "nat set \<Rightarrow> (nat \<Rightarrow> nat option) \<Rightarrow> bool" where
  "pairs_on L p \<longleftrightarrow> inj_on p {i \<in> L. p i \<noteq> None} \<and> Some ` {i \<in> L. p i \<noteq> None} \<subseteq> p ` {i \<in> L. p i \<noteq> None}"

lemma pairs_ok_on: "pairs_ok w \<longleftrightarrow> pairs_on (live w) (pr w)"
  by (simp add: pairs_ok_def pairs_on_def paired_def)

lemma pairs_on_cong: "(\<And>i. i \<in> L \<Longrightarrow> p' i = p i) \<Longrightarrow> pairs_on L p' = pairs_on L p"
proof -
  assume a: "\<And>i. i \<in> L \<Longrightarrow> p' i = p i"
  then have e: "{i \<in> L. p' i \<noteq> None} = {i \<in> L. p i \<noteq> None}" by auto
  show ?thesis unfolding pairs_on_def e using a by (intro conj_cong inj_on_cong) (auto simp: image_iff)
qed

lemma pairs_on_unlink:
  assumes "pairs_on L p" "p a = Some b" "p b = Some a" "a \<in> L" "b \<in> L"
  shows "pairs_on L (p(a := None, b := None))"
proof -
  let ?S = "{i \<in> L. p i \<noteq> None}" and ?T = "{i \<in> L. (p(a := None, b := None)) i \<noteq> None}"
  have T: "?T = ?S - {a, b}" by auto
  have "inj_on (p(a := None, b := None)) ?T"
    using assms(1) unfolding T pairs_on_def by (auto simp: inj_on_def)
  moreover have "Some q \<in> (p(a := None, b := None)) ` ?T" if "q \<in> ?T" for q
  proof -
    have "Some q \<in> p ` ?S" using assms(1) that unfolding T pairs_on_def by blast
    then obtain i where "i \<in> ?S" "p i = Some q" by auto
    with that assms(2,3) show ?thesis unfolding T by (intro image_eqI [of _ _ i]) auto
  qed
  ultimately show ?thesis unfolding pairs_on_def by blast
qed

lemma pairs_on_link:
  assumes "pairs_on L p" "a \<in> L" "p a = None" "n \<notin> L" "finite L"
  shows "pairs_on (insert n L) (p(a := Some n, n := Some a))"
proof -
  let ?S = "{i \<in> L. p i \<noteq> None}" and ?p = "p(a := Some n, n := Some a)"
  let ?T = "{i \<in> insert n L. ?p i \<noteq> None}"
  have an: "a \<noteq> n" using assms(2,4) by blast
  have T: "?T = insert a (insert n ?S)" using assms(2) by auto
  have im: "p ` ?S = Some ` ?S"
  proof (rule sym, rule card_subset_eq)
    show "Some ` ?S \<subseteq> p ` ?S" "finite (p ` ?S)" using assms(1,5) by (simp_all add: pairs_on_def)
    show "card (Some ` ?S) = card (p ` ?S)" using assms(1) by (simp add: pairs_on_def card_image)
  qed
  then have out: "p i \<noteq> Some a \<and> p i \<noteq> Some n" if "i \<in> ?S" for i
  proof -
    have "p i \<in> Some ` ?S" using im that by blast
    then show ?thesis using assms(3,4) by auto
  qed
  have same: "?p i = p i" if "i \<in> ?S" for i using that assms(3,4) by auto
  have "inj_on ?p ?T" unfolding T
  proof (rule inj_onI)
    fix i j assume "i \<in> insert a (insert n ?S)" "j \<in> insert a (insert n ?S)" "?p i = ?p j"
    then show "i = j"
      using assms(1,3,4) an out same unfolding pairs_on_def inj_on_def
      by (cases "i = a"; cases "j = a"; cases "i = n"; cases "j = n") (auto split: if_splits)
  qed
  moreover have "Some q \<in> ?p ` ?T" if q: "q \<in> ?T" for q
  proof -
    consider "q = a" | "q = n" | "q \<in> ?S" using q unfolding T by blast
    then show ?thesis
    proof cases
      case 1 then show ?thesis unfolding T by (intro image_eqI [of _ _ n]) auto
    next
      case 2 then show ?thesis unfolding T using an by (intro image_eqI [of _ _ a]) auto
    next
      case 3
      then obtain i where "i \<in> ?S" "p i = Some q" using im by (metis (no_types, lifting) imageE image_eqI)
      then show ?thesis unfolding T using same by (intro image_eqI [of _ _ i]) auto
    qed
  qed
  ultimately show ?thesis unfolding pairs_on_def by blast
qed

text \<open>A change of one slot that may change its partner.\<close>

definition base_ok :: "int \<Rightarrow> world \<Rightarrow> bool" where
  "base_ok offs w \<longleftrightarrow> slots_ok w \<and> listener w \<and> batch_ok offs w"

lemma base_upd:
  assumes u: "upd v f w = Some w'" and b: "base_ok offs w" and v: "0 < v"
    and g: "gently (items w ! v) ((f (items w ! v))\<lparr>v_pair := v_pair (items w ! v)\<rparr>)"
    and t: "v_type (f (items w ! v)) = v_type (items w ! v) \<or> v_type (f (items w ! v)) \<noteq> EV_ACCEPT"
  shows "base_ok offs w'"
proof -
  note uf = upd_facts [OF u]
  have "slots_ok w'"
    using b g by (intro slots_ok_upd [OF u]) (auto simp: base_ok_def slot_ok_def gently_def)
  moreover have "listener w'" using b t v by (auto simp: base_ok_def listener_def uf pr_def)
  moreover have "batch_ok offs w'"
    using b g by (auto simp: base_ok_def batch_ok_def pending_def uf gently_def)
  ultimately show ?thesis by (simp add: base_ok_def)
qed

lemma Inv_base: "Inv offs w \<Longrightarrow> base_ok offs w"
  by (simp add: Inv_def base_ok_def pool_inv_def)

lemma Inv_alike:
  assumes "Inv offs w" "pool_inv w'" "batch_ok offs w'" "live w' = live w" "\<forall>i\<in>live w. items w' ! i = items w ! i"
  shows "Inv offs w'"
proof -
  have p: "pr w' i = pr w i" if "i \<in> live w" for i using assms(5) that by (simp add: pr_def)
  have "role_ok w' i" if "i \<in> live w" for i
  proof -
    have "mutual w' i" if m: "mutual w i"
    proof -
      obtain q where q: "q \<noteq> i" "pr w i = Some q" "pr w q = Some i" using m by (auto simp: mutual_def)
      then have "q \<in> live w" using Inv_pair [OF assms(1) \<open>i \<in> live w\<close>] by simp
      with q p \<open>i \<in> live w\<close> show ?thesis by (simp add: mutual_def)
    qed
    moreover have "role_ok w i" using assms(1) that by (simp add: Inv_def)
    ultimately show ?thesis using assms(5) that p by (auto simp: role_ok_def split: eid.splits)
  qed
  with assms(2-4) show ?thesis by (simp add: Inv_def)
qed

text \<open>Adding a connection: nothing happens, or there is one more that has no partner.\<close>

lemma v_add:
  assumes "Inv offs w" "type \<noteq> EV_ACCEPT"
    and "\<And>w'. Inv offs w' \<Longrightarrow> live w' = live w \<Longrightarrow> \<forall>i\<in>live w. items w' ! i = items w ! i \<Longrightarrow> Q (None, w')"
    and "\<And>v w'. pool_inv w' \<Longrightarrow> batch_ok offs w' \<Longrightarrow> \<forall>i\<in>live w. items w' ! i = items w ! i \<Longrightarrow> v \<notin> live w \<Longrightarrow>
      live w' = insert v (live w) \<Longrightarrow> v_type (items w' ! v) = type \<Longrightarrow> pr w' v = None \<Longrightarrow> 0 < v \<Longrightarrow> Q (Some v, w')"
  shows "ens (add_event type fd e w) Q"
proof (cases "0 < fd")
  case False
  then show ?thesis by (simp add: add_event_def)
next
  case True
  have i: "pool_inv w" "batch_ok offs w" using assms(1) by (simp_all add: Inv_def)
  obtain r w' where a: "add_event type fd e w = Some (r, w')" "pool_inv w'" "batch_ok offs w'"
      "\<forall>i\<in>live w. items w' ! i = items w ! i" and
    r: "case r of None \<Rightarrow> live w' = live w
     | Some v \<Rightarrow> v \<notin> live w \<and> live w' = insert v (live w) \<and> v_fd (items w' ! v) = fd \<and>
         v_type (items w' ! v) = type \<and> pr w' v = None \<and> b_data (v_buff (items w' ! v)) = None"
    using add_event_inv [OF i(1) True assms(2) i(2), of e] by blast
  show ?thesis
  proof (cases r)
    case None
    with r have l: "live w' = live w" by simp
    from assms(3) [OF Inv_alike [OF assms(1) a(2,3) l a(4)] l a(4)] show ?thesis
      unfolding a(1) None by simp
  next
    case (Some v)
    have "0 \<in> live w" using listener_live i(1) by (simp add: pool_inv_def)
    moreover from r Some have v: "v \<notin> live w" "live w' = insert v (live w)" "v_type (items w' ! v) = type" "pr w' v = None"
      by simp_all
    ultimately have "0 < v" by (cases v) auto
    from assms(4) [OF a(2-4) v this] show ?thesis unfolding a(1) Some by simp
  qed
qed

lemma v_pool:
  assumes "same_pool w0 w" "ens m (\<lambda>(r, w'). same_pool w w')" "\<And>r w'. same_pool w0 w' \<Longrightarrow> Q (r, w')"
  shows "ens m Q"
  using assms same_pool_trans by (force intro!: ensI dest: ensD)

lemma same_pool_frame [simp]:
  "same_pool w0 (snd (nb_socket d t w)) = same_pool w0 w" "same_pool w0 (snd (call_if b c w)) = same_pool w0 w"
  by (simp_all add: same_pool_def frame)

definition alike :: "int \<Rightarrow> world \<Rightarrow> world \<Rightarrow> bool" where
  "alike offs w w' \<longleftrightarrow> Inv offs w' \<and> live w' = live w \<and> (\<forall>i\<in>live w. items w' ! i = items w ! i)"

lemma alike_pool: "same_pool w w' \<Longrightarrow> Inv offs w \<Longrightarrow> alike offs w w'"
  using Inv_same [of w' w] by (simp add: alike_def same_pool_def)

lemma alike_same: "alike offs w w' \<Longrightarrow> same_pool w' w'' \<Longrightarrow> alike offs w w''"
  using Inv_same [of w'' w'] by (simp add: alike_def same_pool_def)

lemma alike_trans: "alike offs w w' \<Longrightarrow> alike offs w' w'' \<Longrightarrow> alike offs w w''"
  by (simp add: alike_def)

definition linked :: "int \<Rightarrow> eid \<Rightarrow> nat \<Rightarrow> world \<Rightarrow> world \<Rightarrow> bool" where
  "linked offs next val w w' \<longleftrightarrow> base_ok offs w' \<and>
     (\<exists>n. n \<notin> live w \<and> 0 < n \<and> live w' = insert n (live w) \<and>
       (\<forall>i\<in>live w - {val}. items w' ! i = items w ! i) \<and> v_type (items w' ! val) = EV_IGNORE \<and>
       v_type (items w' ! n) = next \<and>
       (\<forall>i\<in>live w'. pr w' i = ((pr w)(val := Some n, n := Some val)) i))"

lemma link_linked:
  assumes v: "val \<in> live w" "0 < val" and n: "n \<notin> live w" "0 < n"
    and x: "pool_inv x" "batch_ok offs x" "live x = insert n (live w)" "\<forall>i\<in>live w. items x ! i = items w ! i"
    and t: "v_type (items x ! n) = next" "next \<noteq> EV_ACCEPT"
    and u: "upd val (\<lambda>e. e\<lparr>v_pair := Some n\<rparr>) x = Some x1"
      "upd n (\<lambda>e. e\<lparr>v_pair := Some val, v_addr := dst, v_flag := k\<rparr>) x1 = Some x2"
      "upd val (\<lambda>e. e\<lparr>v_type := EV_IGNORE\<rparr>) x2 = Some x3"
  shows "linked offs next val w x3"
proof -
  note uf = upd_facts [OF u(1)] upd_facts [OF u(2)] upd_facts [OF u(3)]
  have vn: "val \<noteq> n" using v n by blast
  have "base_ok offs x" using x(1,2) by (simp add: base_ok_def pool_inv_def)
  from base_upd [OF u(1) this v(2)] have "base_ok offs x1" by (simp add: gently_def)
  from base_upd [OF u(2) this n(2)] have "base_ok offs x2" by (simp add: gently_def)
  from base_upd [OF u(3) this v(2)] have b: "base_ok offs x3" by (simp add: gently_def)
  moreover have l: "live x3 = insert n (live w)" by (simp add: uf x(3))
  moreover have "\<forall>i\<in>live w - {val}. items x3 ! i = items w ! i" using n(1) x(4) by (auto simp: uf)
  moreover have "v_type (items x3 ! val) = EV_IGNORE" "v_type (items x3 ! n) = next" using t(1) vn by (simp_all add: uf)
  moreover have "\<forall>i\<in>live x3. pr x3 i = ((pr w)(val := Some n, n := Some val)) i"
    using vn x(4) by (auto simp: l pr_def uf)
  ultimately show ?thesis using n by (auto simp: linked_def)
qed

lemma create_conn_shape:
  assumes i: "Inv offs w" "val \<in> live w" "0 < val" and t: "next \<noteq> EV_ACCEPT"
  shows "ens (create_conn val dst next w)
    (\<lambda>(r, w'). (r = 0 \<longrightarrow> linked offs next val w w') \<and> (r \<noteq> 0 \<longrightarrow> alike offs w w'))"
proof -
  have A: "ens (add_event next fd e x \<bind>
      (\<lambda>(pair, w). case pair of None \<Rightarrow> fail_close fd w
       | Some pair \<Rightarrow> do {
           w \<leftarrow> upd val (\<lambda>e. e\<lparr>v_pair := Some pair\<rparr>) w;
           w \<leftarrow> upd pair (\<lambda>e. e\<lparr>v_pair := Some val, v_addr := dst, v_flag := FLAG_CONN\<rparr>) w;
           w \<leftarrow> upd val (\<lambda>e. e\<lparr>v_type := EV_IGNORE\<rparr>) w;
           Some (0, w) }))
     (\<lambda>(r, w'). (r = 0 \<longrightarrow> linked offs next val w w') \<and> (r \<noteq> 0 \<longrightarrow> alike offs w w'))"
    if s: "same_pool w x" for fd e x
  proof -
    have x: "Inv offs x" "live x = live w" "items x = items w"
      using s i(1) Inv_same [of x w] by (simp_all add: same_pool_def)
    show ?thesis
      unfolding ens_bind
    proof (rule v_add [OF x(1) t], goal_cases)
      case (1 y)
      then have "alike offs w y" by (simp add: alike_def x)
      then show ?case using alike_same by (simp add: fail_close_def)
    next
      case (2 v y)
      then show ?case
        using link_linked [OF i(2,3), of v y offs "next"] t by (auto simp: x intro!: ensI)
    qed
  qed
  note P = v_pool [OF _ sock_opts_pool, of w]
  show ?thesis
    unfolding create_conn_def
    by (auto simp: split_beta Let_def fail_close_def ens_bind [where m = "sock_opts x y z" for x y z]
        simp del: ens_bind intro!: A alike_pool i P)
qed

lemma connect_linked:
  assumes x: "Inv offs x" "val \<in> live x" "pr x val = None" and l: "linked offs EV_CONNECT val x w'"
  shows "Inv offs w' \<and> val \<in> live w'"
proof -
  obtain n where n: "n \<notin> live x" "live w' = insert n (live x)" "\<forall>i\<in>live x - {val}. items w' ! i = items x ! i"
      "v_type (items w' ! val) = EV_IGNORE" "v_type (items w' ! n) = EV_CONNECT" "base_ok offs w'"
    and p: "\<forall>i\<in>live w'. pr w' i = ((pr x)(val := Some n, n := Some val)) i"
    using l by (auto simp: linked_def)
  have "pairs_on (live x) (pr x)" using x by (simp add: Inv_def pool_inv_def pairs_ok_on)
  from pairs_on_link [OF this x(2,3) n(1)] have "pairs_on (live w') ((pr x)(val := Some n, n := Some val))"
    by (simp add: n(2))
  then have "pairs_on (live w') (pr w')" using pairs_on_cong [of "live w'" "pr w'"] p by metis
  then have "pool_inv w'" using n(6) by (simp add: pool_inv_def base_ok_def pairs_ok_on)
  moreover have "role_ok w' j" if j: "j \<in> live w'" for j
  proof (cases "j = n \<or> j = val")
    case True
    then show ?thesis
    proof
      assume "j = n"
      moreover have "pr w' n = Some val" "pr w' val = Some n" using p n(1,2) x(2) by auto
      moreover have "val \<noteq> n" using n(1) x(2) by blast
      ultimately show ?thesis using n(5) by (simp add: role_ok_def mutual_def)
    qed (simp add: role_ok_def n(4))
  next
    case False
    then have jw: "j \<in> live x" using j n(2) by simp
    have "mutual w' j" if m: "mutual x j"
    proof -
      obtain q where q: "q \<noteq> j" "pr x j = Some q" "pr x q = Some j" using m by (auto simp: mutual_def)
      then have "q \<in> live x" "q \<noteq> val" using Inv_pair [OF x(1) jw] x(3) by auto
      with q False jw n(1,2) p show ?thesis by (auto simp: mutual_def)
    qed
    moreover have "role_ok x j" using x(1) jw by (simp add: Inv_def)
    moreover have "pr w' j = pr x j" using p False jw n(2) by simp
    moreover have "items w' ! j = items x ! j" using n(3) False jw by simp
    ultimately show ?thesis by (auto simp: role_ok_def split: eid.splits)
  qed
  ultimately show ?thesis using n(2,6) x(2) by (simp add: Inv_def base_ok_def)
qed

lemma connect_hook_Inv:
  assumes i: "Inv offs w" "val \<in> live w" "0 < val" "pr w val = None"
  shows "ens (connect_hook val dst EV_CONNECT w) (\<lambda>(r, w'). Inv offs w' \<and> val \<in> live w')"
proof -
  have "ens (create_conn val dst EV_CONNECT x) (\<lambda>(r, w'). Inv offs w' \<and> val \<in> live w')" if c: "calm offs w x" for x
  proof -
    have x: "Inv offs x" "val \<in> live x" "pr x val = None" using c i(1,2,4) by (simp_all add: calm_def)
    have "EV_CONNECT \<noteq> EV_ACCEPT" by simp
    from create_conn_shape [OF x(1,2) i(3) this, of dst] show ?thesis
      by (rule ens_mono) (use connect_linked [OF x] x(2) in \<open>auto simp: alike_def\<close>)
  qed
  then show ?thesis
    unfolding connect_hook_def
    using i(3) by (auto simp: gently_def intro!: vcg [of offs w])
qed

text \<open>Deleting a connection without a partner deletes nothing else.\<close>

lemma del_single:
  assumes i: "pool_inv w" and v: "v \<in> live w" "0 < v" "pr w v = None" and b: "batch_ok offs w"
  shows "\<exists>w'. del_event v w = Some w' \<and> pool_inv w' \<and> live w' = live w - {v} \<and> kept {v} w w' \<and> batch_ok offs w'"
proof -
  have s: "slots_ok w" "listener w" using i by (simp_all add: pool_inv_def)
  obtain w' where w': "del_slot v (items w ! v) w = Some w'" "slots_ok w'" "listener w'"
      "live w' = live w - {v}" "kept {v} w w'" "stamped w w'"
    using del_slot_inv [OF s v(1)] v(2) by auto
  have p: "0 < p_count (w_pool w')" using w'(3) by (simp add: listener_def)
  have e: "ev w v = Some (items w ! v)" "v_pair (items w ! v) = None" using live_ev [OF s(1) v(1)] v(3) by (simp_all add: pr_def)
  have "\<not> v_fd (items w ! v) = - 1" "- 1 \<le> v_fd (items w ! v)" "v_mod_iter (items w ! v) \<le> p_iters (w_pool w)"
    using live_index(4,5) [OF s(1) v(1)] by simp_all
  then have d: "del_event v w = Some w'"
    using e w'(1) p by (subst del_event.simps) simp
  obtain D where "pool_inv w'" "batch_ok offs w'"
    using del_event_inv [OF i v(1) _ b] v(2) d by auto
  with d w' show ?thesis by blast
qed

text \<open>After the client has its new partner and the old one none, the pool is well formed again.\<close>

lemma reconnect_unlinked:
  assumes i: "Inv offs w" "val \<in> live w" "0 < val"
    and m: "pr w val = Some client" "pr w client = Some val" "client \<noteq> val"
    and l: "linked offs EV_DESYNC client w x" and u: "upd val (\<lambda>e. e\<lparr>v_pair := None\<rparr>) x = Some x1"
  shows "pool_inv x1 \<and> batch_ok offs x1 \<and> val \<in> live x1 \<and> pr x1 val = None"
proof -
  note uf = upd_facts [OF u]
  have cl: "client \<in> live w" "0 < client" using Inv_pair [OF i(1,2) m(1)] by simp_all
  obtain n where b: "base_ok offs x" and n: "n \<notin> live w" "live x = insert n (live w)"
    and p: "\<forall>i\<in>live x. pr x i = ((pr w)(client := Some n, n := Some client)) i"
    using l by (auto simp: linked_def)
  have nv: "n \<noteq> val" using n(1) i(2) by auto
  let ?p = "(pr w)(val := None, client := None)"
  have p1: "\<forall>i\<in>live x. pr x1 i = (?p(client := Some n, n := Some client)) i"
    using p nv m(3) by (auto simp: pr_def uf)
  have "pairs_on (live w) ?p"
    using pairs_on_unlink [OF _ m(1,2) i(2) cl(1)] i(1) by (simp add: Inv_def pool_inv_def pairs_ok_on)
  from pairs_on_link [OF this cl(1) _ n(1)] have "pairs_on (live x) (?p(client := Some n, n := Some client))"
    by (simp add: n(2))
  then have "pairs_on (live x1) (pr x1)" using pairs_on_cong [of "live x" "pr x1"] p1 unfolding uf(9) by blast
  moreover have "base_ok offs x1" using base_upd [OF u b i(3)] by (simp add: gently_def)
  moreover have "val \<in> live x1" "pr x1 val = None" using i(2) n(2) by (simp_all add: uf pr_def)
  ultimately show ?thesis by (simp add: pool_inv_def base_ok_def pairs_ok_on)
qed

lemma reconnect_linked:
  assumes i: "Inv offs w" "val \<in> live w" "0 < val"
    and m: "pr w val = Some client" "pr w client = Some val" "client \<noteq> val"
    and l: "linked offs EV_DESYNC client w x" and u: "upd val (\<lambda>e. e\<lparr>v_pair := None\<rparr>) x = Some x1"
    and d: "del_event val x1 = Some x2"
  shows "Inv offs x2 \<and> client \<in> live x2 \<and> 0 < client"
proof -
  note uf = upd_facts [OF u] and x1 = reconnect_unlinked [OF i m l u]
  have cl: "client \<in> live w" "0 < client" using Inv_pair [OF i(1,2) m(1)] by simp_all
  obtain n where n: "n \<notin> live w" "live x = insert n (live w)"
      "\<forall>i\<in>live w - {client}. items x ! i = items w ! i" "v_type (items x ! client) = EV_IGNORE"
      "v_type (items x ! n) = EV_DESYNC" and p: "\<forall>i\<in>live x. pr x i = ((pr w)(client := Some n, n := Some client)) i"
    using l by (auto simp: linked_def)
  have nv: "n \<noteq> val" "n \<noteq> client" using n(1) i(2) cl(1) by auto
  have p1: "\<forall>i\<in>live x. pr x1 i = ((pr w)(val := None, client := Some n, n := Some client)) i"
    using p nv m(3) by (auto simp: pr_def uf)
  from del_single [of x1 val offs] x1 i(3) d have
    x2: "pool_inv x2" "live x2 = live x - {val}" "kept {val} x1 x2" "batch_ok offs x2" by (auto simp: uf(9))
  have pr2: "pr x2 j = pr x1 j" "v_type (items x2 ! j) = v_type (items x ! j)" if "j \<noteq> val" for j
    using that kept_pr [OF x2(3), of j] x2(3) by (auto simp: kept_def uf dest!: spec [of _ j])
  have "role_ok x2 j" if j: "j \<in> live x2" for j
  proof -
    have jv: "j \<noteq> val" "j \<in> live x" using j x2(2) by auto
    consider "j = n" | "j = client" | "j \<noteq> n" "j \<noteq> client" by blast
    then show ?thesis
    proof cases
      case 1
      have "pr x2 n = Some client" "pr x2 client = Some n"
        using pr2(1) nv m(3) p1 n(2) cl(1) by simp_all
      with 1 nv n(5) pr2(2) [of n] show ?thesis by (simp add: role_ok_def mutual_def)
    next
      case 2
      then show ?thesis using n(4) pr2(2) [OF m(3)] by (simp add: role_ok_def)
    next
      case 3
      then have jw: "j \<in> live w" using jv(2) n(2) by simp
      have prj: "pr x2 j = pr w j" using pr2(1) [OF jv(1)] p1 jv 3 by simp
      have "mutual x2 j" if "mutual w j"
      proof -
        obtain q where q: "q \<noteq> j" "pr w j = Some q" "pr w q = Some j" using \<open>mutual w j\<close> by (auto simp: mutual_def)
        then have "q \<in> live w" "q \<noteq> val" "q \<noteq> client" "q \<noteq> n" using Inv_pair [OF i(1) jw] m jv 3 n(1) by auto
        then have "pr x2 q = pr w q" using pr2(1) p1 n(2) by simp
        with q prj show ?thesis by (simp add: mutual_def)
      qed
      moreover have "v_type (items x2 ! j) = v_type (items w ! j)" using pr2(2) [OF jv(1)] n(3) 3 jw by simp
      moreover have "role_ok w j" using i(1) jw by (simp add: Inv_def)
      ultimately show ?thesis using prj by (auto simp: role_ok_def split: eid.splits)
    qed
  qed
  with x2 cl n(2) m(3) show ?thesis by (simp add: Inv_def)
qed

lemma Inv_handy: "Inv offs w \<Longrightarrow> hand F w0 w \<Longrightarrow> handy F w0 w"
  by (simp add: handy_def Inv_def pool_inv_def)

lemma reconnect_Inv:
  assumes i: "Inv offs w0" "val \<in> live w0" "0 < val" "mutual w0 val" and c: "calm offs w0 w"
  shows "ens (reconnect val m w) (\<lambda>(r, w'). Inv offs w' \<and> (r \<noteq> 0 \<longrightarrow> calm offs w0 w'))"
proof -
  have w: "Inv offs w" "val \<in> live w" "mutual w val" using i c calm_mutual [OF c] by (simp_all add: calm_def)
  obtain client where m: "pr w val = Some client" "pr w client = Some val" "client \<noteq> val"
    using w(3) by (auto simp: mutual_def)
  have cl: "client \<in> live w" "0 < client" using Inv_pair [OF w(1,2) m(1)] by simp_all
  have "EV_DESYNC \<noteq> EV_ACCEPT" by simp
  note S = create_conn_shape [OF w(1) cl this]
  have "hand {} w0 w" using c by (simp add: calm_def)
  note H = create_conn_handy [OF Inv_handy [OF w(1) this]]
  have C: "ens (create_conn client dst EV_DESYNC w) (\<lambda>(r, x). (r = 0 \<longrightarrow> linked offs EV_DESYNC client w x) \<and>
      (r \<noteq> 0 \<longrightarrow> alike offs w x \<and> hand {} w0 x))" for dst
    by (rule ens_mono [OF ens_conj [OF S H]]) (auto simp: handy_def)
  have L: "Inv offs x3" if "linked offs EV_DESYNC client w x" "upd val (\<lambda>e. e\<lparr>v_pair := None\<rparr>) x = Some x1"
    "del_event val x1 = Some x2" "upd client f x2 = Some x3" "\<And>e. gently e (f e)" "\<And>e. v_type (f e) = EV_IGNORE" for x x1 x2 x3 f
  proof -
    have "Inv offs x2" using reconnect_linked [OF w(1,2) i(3) m that(1-3)] by simp
    moreover have "calm offs x2 x3" by (rule calm_upd [OF that(4)]) (use cl that(5,6) in auto)
    ultimately show ?thesis by (simp add: calm_def)
  qed
  have e: "ev w val = Some (items w ! val)" "v_pair (items w ! val) = Some client"
    using Inv_live(1) [OF w(1,2)] m(1) by (simp_all add: pr_def)
  have al: "calm offs w0 w'" if "alike offs w w'" "hand {} w0 w'" for w'
    using that c by (auto simp: alike_def calm_def pr_def)
  have "ens (if r \<noteq> 0 then Some (- 1, x)
      else do {
        w \<leftarrow> upd val (\<lambda>e. e\<lparr>v_pair := None\<rparr>) x;
        w \<leftarrow> del_event val w;
        w \<leftarrow> upd client (\<lambda>e. e\<lparr>v_type := EV_IGNORE, v_attempt := m, v_cache := True,
               v_buff := (v_buff e)\<lparr>b_offset := 0\<rparr>\<rparr>) w;
        Some (0, w) }) (\<lambda>(r, w'). Inv offs w' \<and> (r \<noteq> 0 \<longrightarrow> calm offs w0 w'))"
    if a: "r = 0 \<longrightarrow> linked offs EV_DESYNC client w x" "r \<noteq> 0 \<longrightarrow> alike offs w x \<and> hand {} w0 x" for r x
  proof (cases "r = 0")
    case True
    with a(1) have l: "linked offs EV_DESYNC client w x" by simp
    show ?thesis
      using True L [OF l] by (auto simp: bind_eq_Some_conv gently_def intro!: ensI)
  next
    case False
    with a(2) al show ?thesis by (simp add: alike_def)
  qed
  note E = this
  show ?thesis
    unfolding reconnect_def e ens_bind ens_Some
    by (rule ens_mono [OF C], simp only: split_paired_all prod.case, rule E) simp_all
qed

subsection \<open>Reactions\<close>

lemma on_torst_Inv:
  assumes i: "Inv offs w0" "val \<in> live w0" "0 < val" "mutual w0 val" and c: "calm offs w0 w"
  shows "ens (on_torst val w) (\<lambda>(r, w'). Inv offs w' \<and> (r \<noteq> 0 \<longrightarrow> calm offs w0 w'))"
proof -
  have I: "Inv offs x" if "calm offs w0 x" for x using that i(1) by (simp add: calm_def)
  show ?thesis
    unfolding on_torst_def
    by (auto intro!: v_read vcg [of offs w0] I c reconnect_Inv [OF i c] split: option.split)
qed

lemma on_fin_Inv:
  assumes i: "Inv offs w0" "val \<in> live w0" "0 < val" "mutual w0 val" and c: "calm offs w0 w"
  shows "ens (on_fin val w) (\<lambda>(r, w'). Inv offs w' \<and> (r \<noteq> 0 \<longrightarrow> calm offs w0 w'))"
proof -
  have I: "Inv offs w" using c i(1) by (simp add: calm_def)
  show ?thesis
    unfolding on_fin_def
    by (auto intro!: v_read I c reconnect_Inv [OF i c] ensI [of "fin_search _ _ _ _"] split: option.split)
qed

lemma on_response_Inv:
  assumes i: "Inv offs w0" "val \<in> live w0" "0 < val" "mutual w0 val" and c: "calm offs w0 w"
  shows "ens (on_response val n w) (\<lambda>(r, w'). Inv offs w' \<and> (r \<noteq> 0 \<longrightarrow> calm offs w0 w'))"
proof -
  have I: "Inv offs w" using c i(1) by (simp add: calm_def)
  show ?thesis
    unfolding on_response_def
    by (auto intro!: v_read I c reconnect_Inv [OF i c] ensI [of "response_search _ _ _ _ _ _"] split: option.split)
qed

text \<open>What the loop needs from a handler.\<close>

definition handled :: "int \<Rightarrow> nat \<Rightarrow> (int \<times> world) option \<Rightarrow> bool" where
  "handled offs val m \<longleftrightarrow> ens m (\<lambda>(r, w'). Inv offs w' \<and> (r \<noteq> 0 \<longrightarrow> val \<in> live w'))"

lemma handled_calm:
  assumes "ens m (\<lambda>(r, w'). calm offs w w')" "Inv offs w" "val \<in> live w"
  shows "handled offs val m"
  unfolding handled_def by (rule ens_mono [OF assms(1)]) (use assms(2,3) in \<open>auto simp: calm_def\<close>)

lemma on_tunnel_check_handled:
  assumes i: "Inv offs w" "val \<in> live w" "0 < val" "mutual w val"
  shows "handled offs val (on_tunnel_check val bfsize out w)"
proof -
  have C: "Inv offs x \<and> val \<in> live x" if "calm offs w x" for x using that i(1,2) by (simp add: calm_def)
  have T: "ens (on_torst val x) (\<lambda>(r, w'). Inv offs w' \<and> (r \<noteq> 0 \<longrightarrow> val \<in> live w'))" if "calm offs w x" for x
    by (rule ens_mono [OF on_torst_Inv [OF i that]]) (use C in auto)
  have F: "ens (on_fin val x) (\<lambda>(r, w'). Inv offs w' \<and> (r \<noteq> 0 \<longrightarrow> val \<in> live w'))" if "calm offs w x" for x
    by (rule ens_mono [OF on_fin_Inv [OF i that]]) (use C in auto)
  have A: "ens (accept_response val n x) (\<lambda>(r, w'). Inv offs w' \<and> (r \<noteq> 0 \<longrightarrow> val \<in> live w'))" if "calm offs w x" for n x
    by (rule ens_mono [OF accept_response_calm [OF i that]]) (use C in auto)
  have R: "ens (on_response val n x) Q"
    if "calm offs w x" "\<And>r w'. Inv offs w' \<Longrightarrow> r \<noteq> 0 \<longrightarrow> calm offs w w' \<Longrightarrow> Q (r, w')" for n x Q
    by (rule ens_mono [OF on_response_Inv [OF i that(1)]]) (use that(2) in auto)
  show ?thesis
    unfolding handled_def on_tunnel_check_def
    by (auto intro!: v_read vcg [of offs w] T F A R)
qed

subsection \<open>Requests\<close>

lemma Inv_add:
  assumes "Inv offs w" "pool_inv w'" "batch_ok offs w'" "\<forall>i\<in>live w. items w' ! i = items w ! i" "v \<notin> live w"
    "live w' = insert v (live w)" "v_type (items w' ! v) = type" "pr w' v = None" "type \<in> {EV_REQUEST, EV_UDP_TUNNEL}"
  shows "Inv offs w'" "\<forall>i\<in>live w. pr w' i = pr w i"
proof -
  show p: "\<forall>i\<in>live w. pr w' i = pr w i" using assms(4) by (simp add: pr_def)
  have "role_ok w' i" if "i \<in> live w'" for i
  proof (cases "i = v")
    case True
    with assms(7,8,9) show ?thesis by (auto simp: role_ok_def)
  next
    case False
    then have l: "i \<in> live w" using that assms(6) by simp
    then have "role_ok w i" using assms(1) by (simp add: Inv_def)
    then show ?thesis using l assms(4) p mutual_live [OF assms(1) p l] by (auto simp: role_ok_def split: eid.splits)
  qed
  with assms(2,3) show "Inv offs w'" by (simp add: Inv_def)
qed

lemma on_accept_Inv:
  assumes "Inv offs w" "val \<in> live w"
  shows "ens (on_accept val w) (\<lambda>(r, w'). Inv offs w')"
proof -
  have "Inv offs w \<longrightarrow> Inv offs (snd rw)" if "on_accept val w = Some rw" for rw
  proof (rule on_accept.raw_induct [of "\<lambda>val w rw. Inv offs w \<longrightarrow> Inv offs (snd rw)", OF _ that], rule impI, goal_cases)
    case (1 loop val w rw)
    have L: "ens (loop val x) (\<lambda>a. Inv offs (snd a))" if "Inv offs x" for x
      using 1(1) [of val x] that by (auto intro!: ensI)
    have S: "Inv offs (snd (sys c w))" "Inv offs x \<Longrightarrow> Inv offs (snd (call c x))" "Inv offs x \<Longrightarrow> Inv offs (close_fd fd x)" for c fd x
      using Inv_same [of "snd (sys c w)" w] Inv_same [of "snd (call c x)" x] Inv_same [of "close_fd fd x" x] 1(3) by simp_all
    have A: "ens (add_event EV_REQUEST c POLLIN x \<bind> (\<lambda>(conn, w). case conn of
        None \<Rightarrow> loop val (close_fd c' w)
      | Some conn \<Rightarrow> upd conn (v_addr_update (\<lambda>_. a)) w \<bind> loop val)) (\<lambda>a. Inv offs (snd a))"
      if x: "Inv offs x" for c c' x a
      unfolding ens_bind
    proof (rule v_add [OF x], goal_cases)
      case (2 w')
      then show ?case using L S(3) by simp
    next
      case (3 v w')
      from Inv_add(1) [OF x this(1-7)] have "Inv offs w'" by simp
      then show ?case
        using 3(8) by (auto simp: gently_def calm_def intro!: vcg [of offs w'] L)
    qed simp
    show ?case
      by (rule ensD [OF _ 1(2)])
        (auto simp: split_beta Let_def ens_bind [where m = "ev x y" for x y] simp del: ens_bind intro!: v_read L S A)
  qed
  with assms show ?thesis by (auto intro: ensI)
qed

text \<open>Three connections in a cycle: the client's stream, its datagrams and those of the destination.\<close>

lemma pairs_on_cycle:
  assumes "pairs_on L p" "S \<subseteq> L" "\<forall>i\<in>S. p i = None" "inj_on f S" "f ` S = S" "finite L"
  shows "pairs_on L (\<lambda>i. if i \<in> S then Some (f i) else p i)"
proof -
  let ?D = "{i \<in> L. p i \<noteq> None}" and ?q = "\<lambda>i. if i \<in> S then Some (f i) else p i"
  have dom: "{i \<in> L. ?q i \<noteq> None} = ?D \<union> S" and dj: "?D \<inter> S = {}" using assms(2,3) by auto
  have im: "p ` ?D = Some ` ?D"
  proof (rule sym, rule card_subset_eq)
    show "Some ` ?D \<subseteq> p ` ?D" "finite (p ` ?D)" using assms(1,6) by (simp_all add: pairs_on_def)
    show "card (Some ` ?D) = card (p ` ?D)" using assms(1) by (simp add: pairs_on_def card_image)
  qed
  have qD: "?q ` ?D = Some ` ?D"
  proof -
    have "?q ` ?D = p ` ?D" using dj by (intro image_cong) auto
    with im show ?thesis by simp
  qed
  have qS: "?q ` S = Some ` S"
  proof -
    have "?q ` S = Some ` f ` S" by (auto simp: image_image)
    with assms(5) show ?thesis by simp
  qed
  have "inj_on ?q ?D" using assms(1) dj unfolding pairs_on_def by (auto simp: inj_on_def)
  moreover have "inj_on ?q S" using assms(4) by (auto simp: inj_on_def)
  moreover have "?q ` ?D \<inter> ?q ` S = {}" unfolding qD qS using dj by auto
  ultimately have "inj_on ?q (?D \<union> S)" using dj by (simp add: inj_on_Un Diff_triv inf_commute)
  moreover have "Some ` (?D \<union> S) \<subseteq> ?q ` (?D \<union> S)" by (simp only: image_Un qD qS)
  ultimately show ?thesis unfolding pairs_on_def dom by blast
qed

definition lone :: "int \<Rightarrow> nat \<Rightarrow> nat \<Rightarrow> world \<Rightarrow> bool" where
  "lone offs val p w \<longleftrightarrow> Inv offs w \<and> val \<in> live w \<and> 0 < val \<and> pr w val = None \<and> p \<in> live w \<and> 0 < p \<and>
     p \<noteq> val \<and> pr w p = None \<and> v_type (items w ! p) = EV_UDP_TUNNEL"

lemma lone_same: "w_pool w' = w_pool w \<Longrightarrow> lone offs val p w' = lone offs val p w"
  using Inv_same [of w' w] by (simp add: lone_def)

lemma lone_simps [simp]:
  "lone offs val p (snd (call c w)) = lone offs val p w" "lone offs val p (snd (sys c w)) = lone offs val p w"
  "lone offs val p (close_fd fd w) = lone offs val p w" "lone offs val p (snd (nb_socket d t w)) = lone offs val p w"
  by (rule lone_same, simp add: frame)+

lemma lone_del:
  assumes "lone offs val p w"
  shows "ens (del_event p w) (\<lambda>w'. Inv offs w' \<and> val \<in> live w')"
proof (rule ensI)
  fix w' assume d: "del_event p w = Some w'"
  have "live w' = live w - {p}"
    using del_single [of w p offs] assms d by (auto simp: lone_def Inv_def)
  with assms Inv_del [OF _ _ _ d, of offs] show "Inv offs w' \<and> val \<in> live w'" by (auto simp: lone_def)
qed

lemma lone_upd:
  assumes "lone offs val p w" "upd q f w = Some w'" "0 < q" "\<And>e. gently e (f e)" "\<And>e. v_type (f e) = v_type e"
  shows "lone offs val p w'"
proof -
  have "calm offs w w'" by (rule calm_upd [OF assms(2)]) (use assms in auto)
  with assms(1,5) show ?thesis by (auto simp: lone_def calm_def upd_facts [OF assms(2)])
qed

lemma lone_add:
  assumes "Inv offs w" "val \<in> live w" "0 < val" "pr w val = None"
    and "\<And>w'. Inv offs w' \<Longrightarrow> val \<in> live w' \<Longrightarrow> Q (None, w')"
    and "\<And>v w'. lone offs val v w' \<Longrightarrow> v \<notin> live w \<Longrightarrow> live w' = insert v (live w) \<Longrightarrow>
      v_type (items w' ! v) = EV_UDP_TUNNEL \<Longrightarrow> \<forall>i\<in>live w. pr w' i = pr w i \<Longrightarrow>
      \<forall>i\<in>live w. items w' ! i = items w ! i \<Longrightarrow> Q (Some v, w')"
  shows "ens (add_event EV_UDP_TUNNEL fd e w) Q"
proof (rule v_add [OF assms(1)], goal_cases)
  case (2 w')
  from 2(1) have "Inv offs w'" . moreover have "val \<in> live w'" using 2(2) assms(2) by simp
  ultimately show ?case by (rule assms(5))
next
  case (3 v w')
  from Inv_add [OF assms(1) this(1-7)] have a: "Inv offs w'" "\<forall>i\<in>live w. pr w' i = pr w i" by simp_all
  have "pr w' val = None" "v \<noteq> val" using a(2) assms(2,4) 3(4) by auto
  then have "lone offs val v w'" using a(1) assms(2,3) 3(5-8) by (simp add: lone_def)
  from assms(6) [OF this 3(4,5,6) a(2) 3(3)] show ?case .
qed simp

lemma udp_remote_Inv:
  assumes i: "Inv offs w" "val \<in> live w" "0 < val" "pr w val = None"
  shows "ens (udp_remote dst w) (\<lambda>(r, w'). case r of None \<Rightarrow> Inv offs w' \<and> val \<in> live w' | Some (p, a) \<Rightarrow> lone offs val p w')"
proof -
  have S: "Inv offs x" "val \<in> live x" "pr x val = None" if "same_pool w x" for x
    using that i Inv_same [of x w] by (simp_all add: same_pool_def)
  have A: "ens (add_event EV_UDP_TUNNEL fd e x) Q"
    if "same_pool w x" "\<And>w'. Inv offs w' \<Longrightarrow> val \<in> live w' \<Longrightarrow> Q (None, w')" "\<And>v w'. lone offs val v w' \<Longrightarrow> Q (Some v, w')"
    for fd e x Q
    by (rule lone_add [OF S(1,2) [OF that(1)] i(3) S(3) [OF that(1)]]; rule that(2,3))
  have R: "ens (socket_mod fd a x) Q" if l: "lone offs val p x" and Q: "\<And>r w'. lone offs val p w' \<Longrightarrow> Q (r, w')" for fd a x p Q
  proof (rule ens_mono [OF socket_mod_pool], clarify)
    fix r w' assume "same_pool x w'"
    then show "Q (r, w')" using l lone_same [of w' x] by (intro Q) (simp add: same_pool_def)
  qed
  have U: "ens (upd p f x) Q" if l: "lone offs val p x" and f: "\<And>e. gently e (f e)" "\<And>e. v_type (f e) = v_type e"
    and Q: "\<And>w'. lone offs val p w' \<Longrightarrow> Q w'" for p f x Q
  proof (rule ensI)
    fix w' assume u: "upd p f x = Some w'"
    have "0 < p" using l by (simp add: lone_def)
    from Q [OF lone_upd [OF l u this f]] show "Q w'" .
  qed
  have I: "Inv offs (close_fd fd x) = Inv offs x" "live (close_fd fd x) = live x" for fd x
    using Inv_same [of "close_fd fd x" x] by simp_all
  show ?thesis
    unfolding udp_remote_def
    by (auto simp: split_beta Let_def gently_def I intro!: A R lone_del U intro: S(1,2) split: option.split)
qed

lemma udp_reply_pool: "ens (udp_reply val cfd addr w) (\<lambda>(r, w'). same_pool w w')"
  unfolding udp_reply_def
  by (auto simp: split_beta Let_def intro!: v_read v_pool [OF _ mod_etype_pool] ensI [of "s5_set_addr _ _ _ _ _"])

text \<open>The cycle is closed.\<close>

lemma udp_cycle:
  assumes x: "lone offs val p x" and c: "lone offs val c y" "c \<notin> live x" "live y = insert c (live x)"
      "v_type (items y ! c) = EV_UDP_TUNNEL" "\<forall>i\<in>live x. pr y i = pr x i" "v_type (items y ! p) = EV_UDP_TUNNEL"
    and u: "upd val (\<lambda>e. e\<lparr>v_type := EV_IGNORE, v_pair := Some c\<rparr>) y = Some y1"
      "upd c (\<lambda>e. e\<lparr>v_pair := Some p\<rparr>) y1 = Some y2" "upd p (\<lambda>e. e\<lparr>v_pair := Some val\<rparr>) y2 = Some y3"
  shows "Inv offs y3 \<and> live y3 = live y"
proof -
  note uf = upd_facts [OF u(1)] upd_facts [OF u(2)] upd_facts [OF u(3)]
  have n: "c \<noteq> val" "c \<noteq> p" "p \<noteq> val" "0 < val" "0 < c" "0 < p" "p \<in> live y" "val \<in> live y" "c \<in> live y"
    using x c(1-3) by (auto simp: lone_def)
  have iy: "Inv offs y" using c(1) by (simp add: lone_def)
  have no: "pr y val = None" "pr y c = None" "pr y p = None"
    using x c(1,5) by (simp_all add: lone_def)
  have b1: "base_ok offs y1" using base_upd [OF u(1) Inv_base [OF iy] n(4)] by (simp add: gently_def)
  have b2: "base_ok offs y2" using base_upd [OF u(2) b1 n(5)] by (simp add: gently_def)
  have b3: "base_ok offs y3" using base_upd [OF u(3) b2 n(6)] by (simp add: gently_def)
  let ?f = "(\<lambda>i. i)(val := c, c := p, p := val)"
  have pr3: "pr y3 = (\<lambda>i. if i \<in> {val, c, p} then Some (?f i) else pr y i)"
    using n(1-3) by (auto simp: pr_def uf)
  have "pairs_on (live y) (pr y3)" unfolding pr3
    by (rule pairs_on_cycle) (use iy n no in \<open>auto simp: Inv_def pool_inv_def pairs_ok_on\<close>)
  then have "pool_inv y3" using b3 by (simp add: pool_inv_def base_ok_def pairs_ok_on uf)
  moreover have "role_ok y3 j" if j: "j \<in> live y" for j
  proof (cases "j \<in> {val, c, p}")
    case True
    then have "v_type (items y3 ! j) = EV_IGNORE \<or> v_type (items y3 ! j) = EV_UDP_TUNNEL"
      using n(1-3) c(4,6) by (auto simp: uf)
    then show ?thesis by (auto simp: role_ok_def)
  next
    case False
    have "mutual y3 j" if m: "mutual y j"
    proof -
      obtain q where q: "q \<noteq> j" "pr y j = Some q" "pr y q = Some j" using m by (auto simp: mutual_def)
      then have "q \<notin> {val, c, p}" using no by auto
      with q False show ?thesis unfolding mutual_def pr3 by (intro exI [of _ q]) simp
    qed
    moreover have "role_ok y j" using iy j by (simp add: Inv_def)
    moreover have "items y3 ! j = items y ! j" using False by (simp add: uf)
    moreover have "pr y3 j = pr y j" using False by (simp add: pr3)
    ultimately show ?thesis by (auto simp: role_ok_def split: eid.splits)
  qed
  ultimately show ?thesis using b3 by (simp add: Inv_def base_ok_def uf)
qed

lemma udp_link_Inv:
  assumes x: "lone offs val p x" and c: "lone offs val c y" "c \<notin> live x" "live y = insert c (live x)"
      "\<forall>i\<in>live x. pr y i = pr x i" "\<forall>i\<in>live x. items y ! i = items x ! i"
  shows "ens (do {
            w \<leftarrow> upd val (\<lambda>e. e\<lparr>v_type := EV_IGNORE, v_pair := Some c\<rparr>) y;
            w \<leftarrow> upd c (\<lambda>e. e\<lparr>v_pair := Some p\<rparr>) w;
            w \<leftarrow> upd p (\<lambda>e. e\<lparr>v_pair := Some val\<rparr>) w;
            e \<leftarrow> ev w val;
            w \<leftarrow> upd c (\<lambda>c. c\<lparr>v_flag := FLAG_CONN, v_addr := (v_addr e)\<lparr>sa_port := 0\<rparr>\<rparr>) w;
            udp_reply val cfd addr w }) (\<lambda>(r, w'). Inv offs w' \<and> val \<in> live w')"
proof (rule ensI, clarsimp simp: bind_eq_Some_conv)
  fix r w' y1 y2 y3 e y4
  assume u: "upd val (\<lambda>e. e\<lparr>v_type := EV_IGNORE, v_pair := Some c\<rparr>) y = Some y1"
      "upd c (v_pair_update (\<lambda>_. Some p)) y1 = Some y2" "upd p (v_pair_update (\<lambda>_. Some val)) y2 = Some y3"
    and e: "ev y3 val = Some e"
    and u4: "upd c (\<lambda>c. c\<lparr>v_flag := FLAG_CONN, v_addr := (v_addr e)\<lparr>sa_port := 0\<rparr>\<rparr>) y3 = Some y4"
    and r: "udp_reply val cfd addr y4 = Some (r, w')"
  have t: "v_type (items y ! p) = EV_UDP_TUNNEL" "v_type (items y ! c) = EV_UDP_TUNNEL" "0 < c" "val \<in> live y"
    using x c by (auto simp: lone_def)
  from udp_cycle [OF x c(1-3) t(2) c(4) t(1) u] have y3: "Inv offs y3" "live y3 = live y" by simp_all
  have "calm offs y3 y4" by (rule calm_upd [OF u4]) (use t(3) in \<open>auto simp: gently_def\<close>)
  with y3 have "Inv offs y4" "live y4 = live y" by (simp_all add: calm_def)
  moreover have "same_pool y4 w'" using ensD [OF udp_reply_pool r] by simp
  ultimately show "Inv offs w' \<and> val \<in> live w'" using Inv_same [of w' y4] t(4) by (simp add: same_pool_def)
qed

lemma udp_associate_Inv:
  assumes i: "Inv offs w" "val \<in> live w" "0 < val" "pr w val = None"
  shows "ens (udp_associate val dst w) (\<lambda>(r, w'). Inv offs w' \<and> val \<in> live w')"
proof -
  have L: "Inv offs x" "val \<in> live x" if "lone offs val p x" for p x using that by (simp_all add: lone_def)
  have D: "ens (del_event p x) Q" if l: "lone offs val p x" and Q: "\<And>w'. Inv offs w' \<Longrightarrow> val \<in> live w' \<Longrightarrow> Q w'" for p x Q
    by (rule ens_mono [OF lone_del [OF l]]) (use Q in blast)
  have I: "Inv offs (close_fd fd x) = Inv offs x" "live (close_fd fd x) = live x"
      "Inv offs (snd (sys c x)) = Inv offs x" "live (snd (sys c x)) = live x" for c fd x
    using Inv_same [of "close_fd fd x" x] Inv_same [of "snd (sys c x)" x] by simp_all
  have A: "ens (add_event EV_UDP_TUNNEL fd POLLIN x \<bind> (\<lambda>(client, w). client \<bind> (\<lambda>client. do {
            w \<leftarrow> upd val (\<lambda>e. e\<lparr>v_type := EV_IGNORE, v_pair := Some client\<rparr>) w;
            w \<leftarrow> upd client (\<lambda>e. e\<lparr>v_pair := Some p\<rparr>) w;
            w \<leftarrow> upd p (\<lambda>e. e\<lparr>v_pair := Some val\<rparr>) w;
            e \<leftarrow> ev w val;
            w \<leftarrow> upd client (\<lambda>c. c\<lparr>v_flag := FLAG_CONN, v_addr := (v_addr e)\<lparr>sa_port := 0\<rparr>\<rparr>) w;
            udp_reply val fd addr w }))) (\<lambda>(r, w'). Inv offs w' \<and> val \<in> live w')"
    if l: "lone offs val p x" for fd x p addr
    unfolding ens_bind
  proof (rule lone_add [of offs x val], goal_cases)
    case (6 v w')
    from udp_link_Inv [OF l this(1-3,5,6), of fd addr] show ?case by simp
  qed (use l in \<open>auto simp: lone_def\<close>)
  have R: "ens (udp_remote dst w) Q"
    if "\<And>w'. Inv offs w' \<Longrightarrow> val \<in> live w' \<Longrightarrow> Q (None, w')" "\<And>p a w'. lone offs val p w' \<Longrightarrow> Q (Some (p, a), w')" for Q
  proof (rule ens_mono [OF udp_remote_Inv [OF i]], clarify)
    fix r :: "(nat \<times> sockaddr_ina) option" and w' assume "case r of None \<Rightarrow> Inv offs w' \<and> val \<in> live w' | Some (p, a) \<Rightarrow> lone offs val p w'"
    then show "Q (r, w')" using that by (cases r) auto
  qed
  show ?thesis
    unfolding udp_associate_def fail_close_def
    by (auto simp: split_beta Let_def I ens_bind [where m = "udp_remote x y" for x y] ens_bind [where m = "ev x y" for x y]
        ens_bind [where m = "del_event x y" for x y] simp del: ens_bind
        intro!: v_read R A D intro: L)
qed

lemma s5_command_Inv:
  assumes i: "Inv offs w" "val \<in> live w" "0 < val" "pr w val = None"
  shows "ens (s5_command val n w) (\<lambda>(s5e, e, w'). Inv offs w' \<and> val \<in> live w')"
proof -
  have C: "Inv offs x" "val \<in> live x" "pr x val = None" if "calm offs w x" for x
    using that i by (simp_all add: calm_def)
  have H: "ens (connect_hook val dst EV_CONNECT x) Q"
    if c: "calm offs w x" and Q: "\<And>r w'. Inv offs w' \<Longrightarrow> val \<in> live w' \<Longrightarrow> Q (r, w')" for dst x Q
    by (rule ens_mono [OF connect_hook_Inv [OF C(1,2) [OF c] i(3) C(3) [OF c]]]) (use Q in auto)
  have U: "ens (udp_associate val dst x) Q"
    if c: "calm offs w x" and Q: "\<And>r w'. Inv offs w' \<Longrightarrow> val \<in> live w' \<Longrightarrow> Q (r, w')" for dst x Q
    by (rule ens_mono [OF udp_associate_Inv [OF C(1,2) [OF c] i(3) C(3) [OF c]]]) (use Q in auto)
  show ?thesis
    unfolding s5_command_def using i
    by (auto intro!: v_read vcg [of offs w] H U dest: C)
qed

lemma on_request_handled:
  assumes i: "Inv offs w" "val \<in> live w" "0 < val" "pr w val = None"
  shows "handled offs val (on_request val bfsize w)"
proof -
  have C: "Inv offs x" "val \<in> live x" "pr x val = None" if "calm offs w x" for x
    using that i by (simp_all add: calm_def)
  have H: "ens (connect_hook val dst EV_CONNECT x) Q"
    if c: "calm offs w x" and Q: "\<And>r w'. Inv offs w' \<Longrightarrow> val \<in> live w' \<Longrightarrow> Q (r, w')" for dst x Q
    by (rule ens_mono [OF connect_hook_Inv [OF C(1,2) [OF c] i(3) C(3) [OF c]]]) (use Q in auto)
  have S: "ens (s5_command val n x) Q"
    if c: "calm offs w x" and Q: "\<And>r e w'. Inv offs w' \<Longrightarrow> val \<in> live w' \<Longrightarrow> Q (r, e, w')" for n x Q
    by (rule ens_mono [OF s5_command_Inv [OF C(1,2) [OF c] i(3) C(3) [OF c]]]) (use Q in auto)
  have I: "Inv offs (snd (resp_error fd e f x)) = Inv offs x" "live (snd (resp_error fd e f x)) = live x"
      "Inv offs (snd (resp_s5_error fd e x)) = Inv offs x" "live (snd (resp_s5_error fd e x)) = live x" for fd e f x
    using Inv_same [of "snd (resp_error fd e f x)" x] Inv_same [of "snd (resp_s5_error fd e x)" x] by (simp_all add: frame)
  have 5: "ens (s5_request val n x) (\<lambda>(r, w'). Inv offs w' \<and> val \<in> live w')" if "calm offs w x" for n x
    unfolding s5_request_def
    using i(3) that by (auto simp: split_beta Let_def gently_def I intro!: v_read vcg [of offs w] S intro: C)
  have 4: "ens (s4_request val n x) (\<lambda>(r, w'). Inv offs w' \<and> val \<in> live w')" if "calm offs w x" for n x
    unfolding s4_request_def
    using i(3) that by (auto simp: split_beta Let_def gently_def I intro!: v_read vcg [of offs w] H intro: C)
  have F5: "ens (s5_request val n x) Q"
    if c: "calm offs w x" and Q: "\<And>r w'. Inv offs w' \<Longrightarrow> val \<in> live w' \<Longrightarrow> Q (r, w')" for n x Q
    by (rule ens_mono [OF 5 [OF c]]) (use Q in auto)
  have F4: "ens (s4_request val n x) Q"
    if c: "calm offs w x" and Q: "\<And>r w'. Inv offs w' \<Longrightarrow> val \<in> live w' \<Longrightarrow> Q (r, w')" for n x Q
    by (rule ens_mono [OF 4 [OF c]]) (use Q in auto)
  show ?thesis
    unfolding handled_def on_request_def
    by (auto simp: split_beta Let_def I intro!: v_read vcg [of offs w] F5 F4 ensI [of "ev _ _"] intro: C split: sum.split)
qed

subsection \<open>The loop\<close>

lemma role_mutual:
  assumes "Inv offs w" "v \<in> live w" "v_type (items w ! v) \<in> {EV_CONNECT, EV_TUNNEL, EV_PRE_TUNNEL, EV_DESYNC}"
  shows "mutual w v"
  using Inv_live(3) [OF assms(1,2)] assms(3) by (auto simp: role_ok_def)

lemma or_close_Inv:
  assumes "handled offs val m" "0 < val"
  shows "ens (or_close val m) (Inv offs)"
proof -
  have "ens (del_event val x) (Inv offs)" if "Inv offs x" "val \<in> live x" for x
    using Inv_del [OF that] assms(2) by (auto intro: ensI)
  then show ?thesis
    unfolding or_close_def close_conn_def ens_bind
    by (intro ens_mono [OF assms(1) [unfolded handled_def]]) auto
qed

lemma dispatch_Inv:
  assumes i: "Inv offs w" and v: "val \<in> live w"
  shows "ens (dispatch val bfsize etype w) (Inv offs)"
proof -
  have e: "ev w val = Some (items w ! val)" using Inv_live(1) [OF i v] .
  have minus: "handled offs val (Some (- 1, w))" using i v by (simp add: handled_def)
  have h: "handled offs val m \<Longrightarrow> handled offs val (if b then Some (- 1, w) else m)" for m b using minus by simp
  show ?thesis
  proof (cases "val = 0")
    case True
    then have t: "v_type (items w ! val) = EV_ACCEPT" using Inv_live(2) [OF i v] by simp
    have I: "Inv offs (w_not_exit_update f x) = Inv offs x" for f x using Inv_same [of "w_not_exit_update f x" x] by simp
    show ?thesis
      unfolding dispatch_def
      using i by (auto simp: e t I intro!: ens_mono [OF on_accept_Inv [OF i v]])
  next
    case False
    then have v0: "0 < val" "v_type (items w ! val) \<noteq> EV_ACCEPT" using Inv_live(2) [OF i v] by simp_all
    have c: "ens (close_conn val w) (Inv offs)"
      using Inv_del [OF i v] False by (auto simp: close_conn_def intro: ensI)
    show ?thesis
    proof (cases "v_type (items w ! val)")
      case EV_REQUEST
      then have "pr w val = None" using Inv_live(3) [OF i v] by (simp add: role_ok_def)
      from or_close_Inv [OF h [OF on_request_handled [OF i v v0(1) this]] v0(1)] show ?thesis
        by (simp add: dispatch_def e EV_REQUEST del: ens_if)
    next
      case EV_CONNECT
      with role_mutual [OF i v] have "mutual w val" by simp
      from or_close_Inv [OF handled_calm [OF on_connect_calm [OF i v v0(1) this] i v] v0(1)] show ?thesis
        by (simp add: dispatch_def e EV_CONNECT)
    next
      case EV_IGNORE
      with c i show ?thesis by (simp add: dispatch_def e)
    next
      case EV_TUNNEL
      from or_close_Inv [OF handled_calm [OF on_tunnel_calm [OF i v v0(1)] i v] v0(1)] show ?thesis
        by (simp add: dispatch_def e EV_TUNNEL)
    next
      case EV_PRE_TUNNEL
      with role_mutual [OF i v] have "mutual w val" by simp
      from or_close_Inv [OF on_tunnel_check_handled [OF i v v0(1) this] v0(1)] show ?thesis
        by (simp add: dispatch_def e EV_PRE_TUNNEL)
    next
      case EV_UDP_TUNNEL
      from or_close_Inv [OF handled_calm [OF on_udp_tunnel_calm [OF i v v0(1)] i v] v0(1)] show ?thesis
        by (simp add: dispatch_def e EV_UDP_TUNNEL)
    next
      case EV_DESYNC
      with role_mutual [OF i v] have "mutual w val" by simp
      from or_close_Inv [OF handled_calm [OF on_desync_calm [OF i v v0(1) this] i v] v0(1)] show ?thesis
        by (simp add: dispatch_def e EV_DESYNC)
    qed (use v0 in simp)
  qed
qed

end
