(* ===== verification/Tunnel.thy ===== *)
theory Tunnel
  imports Proxy
begin

text \<open>
  What a tunnel does with the bytes that pass through it: \<open>on_tunnel\<close> neither loses nor repeats nor
  reorders any of them. Bytes received from one side are sent to the other or, when a send is short,
  kept in the buffer of the receiving connection and sent before anything else is received.
\<close>

section \<open>Definitions\<close>

text \<open>The bytes that were received on a socket.\<close>

fun received :: "int \<Rightarrow> history \<Rightarrow> byte list" where
  "received fd [] = []"
| "received fd ((c, r) # h) =
     (case c of Recv s n \<Rightarrow> (if s = fd \<and> 0 \<le> r_ret r then r_data r else []) | _ \<Rightarrow> []) @ received fd h"

text \<open>The bytes a connection holds back.\<close>

definition backlog :: "eval \<Rightarrow> byte list" where
  "backlog e = drop (nat (b_offset (v_buff e))) (buf_data e)"

definition buff_ok :: "eval \<Rightarrow> bool" where
  "buff_ok e \<longleftrightarrow>
     (case b_data (v_buff e) of
        None \<Rightarrow> b_size (v_buff e) = 0 \<and> b_offset (v_buff e) = 0
      | Some d \<Rightarrow> 0 \<le> b_offset (v_buff e) \<and> b_offset (v_buff e) < b_size (v_buff e) \<and>
          b_size (v_buff e) = int (length d))"

text \<open>From \<open>w\<close> to \<open>w'\<close> the bytes \<open>x\<close> are received on \<open>fs\<close> and \<open>d\<close> delivered on \<open>ft\<close>.\<close>

definition flow :: "int \<Rightarrow> int \<Rightarrow> world \<Rightarrow> byte list \<Rightarrow> byte list \<Rightarrow> world \<Rightarrow> bool" where
  "flow fs ft w x d w' \<longleftrightarrow>
     (\<exists>h. w_hist w' = w_hist w @ h \<and> settled h \<and> received fs h = x \<and> delivered ft h = d)"

text \<open>The two ends of a tunnel, seen from its source, and what stays as it is.\<close>

definition ends :: "nat \<Rightarrow> nat \<Rightarrow> world \<Rightarrow> world \<Rightarrow> bool" where
  "ends s t w w' \<longleftrightarrow> s \<noteq> t \<and> s < length (items w') \<and> t < length (items w') \<and>
     v_fd (items w' ! s) = v_fd (items w ! s) \<and> (\<forall>i. i \<noteq> s \<longrightarrow> items w' ! i = items w ! i)"

text \<open>Where the bytes of an event come from and where they go.\<close>

definition tunnel_ends :: "nat \<Rightarrow> 32 word \<Rightarrow> world \<Rightarrow> (nat \<times> nat) option" where
  "tunnel_ends val etype w = do {
     e \<leftarrow> ev w val;
     p \<leftarrow> v_pair e;
     if etype AND POLLOUT \<noteq> 0 then do { q \<leftarrow> ev w p; t \<leftarrow> v_pair q; Some (p, t) } else Some (val, p) }"

section \<open>Lemmas\<close>

lemma received_append [simp]: "received fd (h @ h') = received fd h @ received fd h'"
  by (induction h) auto

lemma flow_refl [simp]: "flow fs ft w [] [] w"
  by (simp add: flow_def)

lemma flow_trans: "flow fs ft w x d w' \<Longrightarrow> flow fs ft w' y e w'' \<Longrightarrow> flow fs ft w (x @ y) (d @ e) w''"
  by (auto simp: flow_def)

lemma flow_then: "flow fs ft w x d w' \<Longrightarrow> flow fs ft w' [] [] w'' \<Longrightarrow> flow fs ft w x d w''"
  using flow_trans [of fs ft w x d w' "[]" "[]" w''] by simp

lemma flow_upd: "upd v f w = Some w' \<Longrightarrow> flow fs ft w [] [] w'"
  by (auto simp: flow_def upd_def split: if_splits)

lemma flow_call: "settled [(c, r)] \<Longrightarrow> r = comply c (w_os w (w_hist w) c) \<Longrightarrow>
    flow fs ft w (received fs [(c, r)]) (delivered ft [(c, r)]) (snd (call c w))"
  by (simp add: flow_def call_def split_beta)

lemma flow_quiet: "quiet_call c \<Longrightarrow> (\<And>s n. c \<noteq> Recv s n) \<Longrightarrow> flow fs ft w [] [] (snd (call c w))"
  using flow_call [of c _ w fs ft] by (cases c) auto

lemma flow_mod: "mod_etype v k w = Some (r, w') \<Longrightarrow> flow fs ft w [] [] w' \<and> w_pool w' = w_pool w"
proof -
  assume "mod_etype v k w = Some (r, w')"
  then obtain a b c d where "call (Epoll_ctl a b c d v) w = (r, w')"
    by (auto simp: mod_etype_def bind_eq_Some_conv split: if_splits)
  then have "w' = snd (call (Epoll_ctl a b c d v) w)" by simp
  then show ?thesis by (simp add: flow_quiet)
qed

lemma flow_mods: "mod_etypes v k v' k' w = Some (r, w') \<Longrightarrow> flow fs ft w [] [] w' \<and> w_pool w' = w_pool w"
  by (auto simp: mod_etypes_def bind_eq_Some_conv split: if_splits dest!: flow_mod [of _ _ _ _ _ fs ft]
      dest: flow_trans)

lemma flow_send:
  assumes "call (Send ft bs False) w = (sn, w')"
  shows "flow fs ft w [] (take (nat sn) bs) w' \<and> w_pool w' = w_pool w \<and> w_buffer w' = w_buffer w \<and> sn \<le> int (length bs)"
proof -
  let ?c = "Send ft bs False"
  let ?r = "comply ?c (w_os w (w_hist w) ?c)"
  have "sn = r_ret ?r" "w' = snd (call ?c w)"
    using assms by (auto simp: call_def sys_def Let_def)
  moreover have "r_ret ?r \<le> int (length bs)"
    by (auto simp: comply_write_def)
  ultimately show ?thesis
    using flow_call [of ?c ?r w fs ft] by (cases "0 \<le> sn") (auto simp: call_def sys_def Let_def)
qed

lemma flow_recv:
  assumes "recv_buf fs k w = Some (n, w')"
  shows "\<exists>x. flow fs ft w x [] w' \<and> w_pool w' = w_pool w \<and> (n < 0 \<longrightarrow> x = []) \<and>
      (0 \<le> n \<longrightarrow> int (length x) = n \<and> mem_read (w_buffer w') 0 (nat n) = Some x)"
proof -
  let ?c = "Recv fs k"
  let ?r = "comply ?c (w_os w (w_hist w) ?c)"
  let ?w = "snd (sys ?c w)"
  have f: "flow fs ft w (received fs [(?c, ?r)]) [] ?w"
    using flow_call [of ?c ?r w fs ft] by (simp add: call_def split_beta)
  have l: "0 \<le> r_ret ?r \<longrightarrow> int (length (r_data ?r)) = r_ret ?r"
    by (auto simp: comply_read_def)
  show ?thesis
  proof (cases "r_ret ?r < 0")
    case True
    then have "n = r_ret ?r" "w' = ?w"
      using assms by (auto simp: recv_buf_def recv_at_def bind_eq_Some_conv sys_def Let_def split: if_splits)
    with True f show ?thesis by (intro exI [of _ "[]"]) (simp del: comply.simps)
  next
    case False
    then obtain b where b: "mem_write (w_buffer w) 0 (r_data ?r) = Some b" "n = r_ret ?r" "w' = ?w\<lparr>w_buffer := b\<rparr>"
      using assms by (auto simp: recv_buf_def recv_at_def bind_eq_Some_conv sys_def Let_def split: if_splits)
    then have "mem_read (w_buffer w') 0 (nat n) = Some (r_data ?r)"
      using l False by (auto simp: mem_write_def mem_read_def split: if_splits simp del: comply.simps)
    moreover have "flow fs ft w (r_data ?r) [] w'"
      using f False b(3) by (simp add: flow_def not_less del: comply.simps)
    ultimately show ?thesis
      using l False b(2,3) by (intro exI [of _ "r_data ?r"]) (simp del: comply.simps)
  qed
qed

text \<open>One pass of a tunnel from \<open>s\<close> to \<open>t\<close>: of the bytes held back and the bytes received, a prefix was
  delivered, and if the pass was a success the rest is held back.\<close>

definition passed :: "nat \<Rightarrow> nat \<Rightarrow> world \<Rightarrow> int \<Rightarrow> world \<Rightarrow> bool" where
  "passed s t w r w' \<longleftrightarrow>
     (\<exists>x d rest. flow (v_fd (items w ! s)) (v_fd (items w ! t)) w x d w' \<and>
        backlog (items w ! s) @ x = d @ rest \<and>
        (r = 0 \<longrightarrow> rest = backlog (items w' ! s) \<and> buff_ok (items w' ! s)))"

lemma endsD:
  assumes "ends s t w w'"
  shows "s < length (items w')" "t < length (items w')" "v_fd (items w' ! s) = v_fd (items w ! s)"
    "v_fd (items w' ! t) = v_fd (items w ! t)" "s \<noteq> t"
  using assms by (auto simp: ends_def)

lemma ends_trans: "ends s t w w' \<Longrightarrow> ends s t w' w'' \<Longrightarrow> ends s t w w''"
  by (simp add: ends_def)

lemma ends_pool: "ends s t w w' \<Longrightarrow> w_pool w'' = w_pool w' \<Longrightarrow> ends s t w w''"
  by (simp add: ends_def)

lemma ends_refl: "s \<noteq> t \<Longrightarrow> s < length (items w) \<Longrightarrow> t < length (items w) \<Longrightarrow> ends s t w w"
  by (simp add: ends_def)

lemma ends_upd:
  assumes "ends s t w w'" "upd s f w' = Some w''" "\<And>e. v_fd (f e) = v_fd e"
  shows "ends s t w w'' \<and> items w'' ! s = f (items w' ! s) \<and> w_buffer w'' = w_buffer w'"
  using assms by (auto simp: ends_def upd_def split: if_splits)

lemma passedI:
  "flow (v_fd (items w ! s)) (v_fd (items w ! t)) w x d w' \<Longrightarrow> backlog (items w ! s) @ x = d @ rest \<Longrightarrow>
    (r = 0 \<Longrightarrow> rest = backlog (items w' ! s) \<and> buff_ok (items w' ! s)) \<Longrightarrow> passed s t w r w'"
  unfolding passed_def by blast

lemma no_buffer_ok: "v_buff e = no_buffer \<Longrightarrow> backlog e = [] \<and> buff_ok e \<and> buf_data e = []"
  by (simp add: no_buffer_def backlog_def buff_ok_def buf_data_def)

text \<open>The backlog was sent as a whole, or a part of it.\<close>

lemma flushed_all:
  assumes e: "ends s t w w"
    and c: "call (Send (v_fd (items w ! t)) (backlog (items w ! s)) False) w = (int (length (backlog (items w ! s))), w1)"
    and u: "upd s (\<lambda>e. e\<lparr>v_buff := no_buffer\<rparr>) w1 = Some w2" and m: "mod_etypes s k (Some t) l w2 = Some (bad, w')"
  shows "ends s t w w' \<and> v_buff (items w' ! s) = no_buffer \<and> passed s t w r w'"
proof -
  let ?e = "items w ! s" let ?fs = "v_fd ?e" let ?ft = "v_fd (items w ! t)"
  note f = flow_send [OF c, of ?fs]
  then have "ends s t w w1" using e ends_pool by auto
  from ends_upd [OF this u] have "ends s t w w'" "v_buff (items w' ! s) = no_buffer"
    using ends_pool flow_mods [OF m] by auto
  moreover have "flow ?fs ?ft w [] (backlog ?e) w'"
    using f flow_upd [OF u, of ?fs ?ft] flow_mods [OF m, of ?fs ?ft] by (auto intro: flow_then)
  ultimately show ?thesis
    using no_buffer_ok [of "items w' ! s"] by (auto intro!: passedI [of w s t "[]" "backlog ?e" _ "[]"])
qed

lemma flushed_part:
  assumes e: "ends s t w w" "buff_ok (items w ! s)" "b_data (v_buff (items w ! s)) = Some data"
    and c: "call (Send (v_fd (items w ! t)) (backlog (items w ! s)) False) w = (sn, w1)" "0 < sn"
      "sn < int (length (backlog (items w ! s)))"
    and u: "upd s (\<lambda>e. e\<lparr>v_buff := (v_buff e)\<lparr>b_offset := b_offset (v_buff e) + sn\<rparr>\<rparr>) w1 = Some w'"
  shows "ends s t w w' \<and> passed s t w 0 w'"
proof -
  let ?e = "items w ! s" let ?fs = "v_fd ?e" let ?ft = "v_fd (items w ! t)"
  note f = flow_send [OF c(1), of ?fs]
  then have e1: "ends s t w w1" "items w1 = items w" using e(1) ends_pool by auto
  note u' = ends_upd [OF e1(1) u]
  have o: "0 \<le> b_offset (v_buff ?e)" "sn < b_size (v_buff ?e) - b_offset (v_buff ?e)"
      "b_size (v_buff ?e) = int (length data)"
    using e(2,3) c(3) by (auto simp: buff_ok_def backlog_def buf_data_def)
  have "flow ?fs ?ft w [] (take (nat sn) (backlog ?e)) w'"
    using f flow_upd [OF u, of ?fs ?ft] by (auto intro: flow_then)
  moreover have "backlog (items w' ! s) = drop (nat sn) (backlog ?e)"
    using u' e1(2) c(2) o(1) e(3) by (simp add: backlog_def buf_data_def nat_add_distrib add.commute)
  moreover have "buff_ok (items w' ! s)" using u' e1(2) c(2) o e(3) by (simp add: buff_ok_def)
  ultimately have "passed s t w 0 w'"
    by (auto intro!: passedI [of w s t "[]" "take (nat sn) (backlog ?e)" _ "drop (nat sn) (backlog ?e)"])
  with u' show ?thesis by simp
qed

lemma tunnel_flush_passed:
  assumes "tunnel_flush s (Some t) etype w = Some (res, w')" "ends s t w w" "buff_ok (items w ! s)"
  shows "ends s t w w' \<and> (case res of Inl r \<Rightarrow> passed s t w r w'
      | Inr _ \<Rightarrow> passed s t w 0 w' \<and> v_buff (items w' ! s) = no_buffer)"
proof -
  let ?e = "items w ! s" and ?ft = "v_fd (items w ! t)"
  let ?o = "b_offset (v_buff ?e)"
  note l = endsD [OF assms(2)]
  have ev: "ev w s = Some ?e" "ev w t = Some (items w ! t)"
    using l by (simp_all add: ev_def)
  have same: "passed s t w r w1" if "flow (v_fd ?e) ?ft w [] [] w1" "items w1 = items w" for r w1
    using that assms(3) by (auto intro!: passedI [of w s t "[]" "[]" _ "backlog ?e"])
  show ?thesis
  proof (cases "b_data (v_buff ?e)")
    case None
    with assms ev have "res = Inr ()" "w' = w" by (auto simp: tunnel_flush_def)
    moreover have "v_buff ?e = no_buffer" using None assms(3) by (simp add: buff_ok_def no_buffer_def)
    ultimately show ?thesis using assms(2) same by simp
  next
    case (Some data)
    show ?thesis
    proof (cases "etype AND POLLHUP \<noteq> 0")
      case True
      with assms ev Some have "res = Inl (- 1)" "w' = w" by (auto simp: tunnel_flush_def)
      with assms(2) same show ?thesis by simp
    next
      case up: False
      obtain n where o: "0 \<le> ?o" "n = b_size (v_buff ?e) - ?o" "0 < n" "n = int (length data) - ?o"
        using assms(3) Some by (auto simp: buff_ok_def)
      have bl: "backlog ?e = drop (nat ?o) data" "int (length (backlog ?e)) = n"
        using Some o by (auto simp: backlog_def buf_data_def)
      have rd: "mem_read data (nat ?o) (nat n) = Some (backlog ?e)"
        using o bl by (auto simp: mem_read_def)
      obtain sn w1 where send: "call (Send ?ft (backlog ?e) False) w = (sn, w1)" by fastforce
      note f = flow_send [OF send, of "v_fd ?e"]
      consider "sn = n" | "0 < sn" "sn < n" | "sn \<le> 0" "sn \<noteq> n" using f bl(2) o(3) by fastforce
      then show ?thesis
      proof cases
        case 1
        with assms(1) ev Some up o rd send obtain w2 bad where
          "upd s (\<lambda>e. e\<lparr>v_buff := no_buffer\<rparr>) w1 = Some w2" "mod_etypes s POLLIN (Some t) POLLIN w2 = Some (bad, w')"
          "res = (if bad then Inl (- 1) else Inr ())"
          by (auto simp: tunnel_flush_def bind_eq_Some_conv)
        with flushed_all [OF assms(2) send [unfolded 1, folded bl(2)]] show ?thesis by auto
      next
        case 2
        with assms(1) ev Some up o rd send have
          "upd s (\<lambda>e. e\<lparr>v_buff := (v_buff e)\<lparr>b_offset := b_offset (v_buff e) + sn\<rparr>\<rparr>) w1 = Some w'" "res = Inl 0"
          by (auto simp: tunnel_flush_def bind_eq_Some_conv)
        with flushed_part [OF assms(2,3) Some send 2(1)] 2(2) bl(2) show ?thesis by simp
      next
        case 3
        with assms(1) ev Some up o rd send have "w' = w1" "res = Inl 0 \<or> res = Inl (- 1)"
          by (auto simp: tunnel_flush_def bind_eq_Some_conv split: if_splits)
        with same [of w1] f 3 ends_pool [OF assms(2)] show ?thesis by auto
      qed
    qed
  qed
qed

lemma tunnel_keep_passed:
  assumes "tunnel_keep s (Some t) m n w = Some (r, w')" "ends s t w w" "m < n"
    "mem_read (w_buffer w) 0 n = Some x"
  shows "ends s t w w' \<and> flow fs ft w [] [] w' \<and>
      (r = 0 \<longrightarrow> backlog (items w' ! s) = drop m x \<and> buff_ok (items w' ! s))"
proof -
  let ?e = "items w ! s"
  have ev: "ev w s = Some ?e" using endsD [OF assms(2)] by (simp add: ev_def)
  obtain c w1 where c: "call (Malloc (n - m)) w = (c, w1)" by fastforce
  then have w1: "w_pool w1 = w_pool w" "w_buffer w1 = w_buffer w" "flow fs ft w [] [] w1"
    using flow_quiet [of "Malloc (n - m)" fs ft w] by (auto simp: call_def sys_def Let_def)
  have x: "mem_read (w_buffer w1) m (n - m) = Some (drop m x)" "length x = n"
    using assms(3,4) w1 by (auto simp: mem_read_def drop_take split: if_splits)
  let ?f = "\<lambda>e. e\<lparr>v_buff := (v_buff e)\<lparr>b_size := int (n - m), b_data := (if c < 0 then None else Some (drop m x))\<rparr>\<rparr>"
  obtain w2 where u: "upd s ?f w1 = Some w2"
    using endsD(1) [OF assms(2)] w1 by (simp add: upd_def)
  have z: "b_size (v_buff ?e) = 0 \<and> b_offset (v_buff ?e) = 0"
    using assms(1) ev by (auto simp: tunnel_keep_def split: if_splits)
  have r: "(if c < 0 then Some (- 1, w2) else do {
         (bad, w) \<leftarrow> mod_etypes s 0 (Some t) POLLOUT w2; Some (if bad then - 1 else 0, w) }) = Some (r, w')"
    using assms(1) ev c x z u by (simp add: tunnel_keep_def)
  have e1: "ends s t w w1" using assms(2) w1 ends_pool by blast
  note e2 = ends_upd [OF e1 u]
  have f: "flow fs ft w [] [] w2" using w1(3) flow_upd [OF u] by (rule flow_then)
  show ?thesis
  proof (cases "c < 0")
    case False
    then obtain bad where m: "mod_etypes s 0 (Some t) POLLOUT w2 = Some (bad, w')" using r by (auto simp: bind_eq_Some_conv)
    have b: "v_buff (items w2 ! s) = \<lparr>b_size = int (n - m), b_offset = 0, b_data = Some (drop m x)\<rparr>"
      using e2 w1 z False by simp
    show ?thesis
      using flow_mods [OF m, of fs ft] b f e2 ends_pool [of s t w w2 w'] x(2) assms(3)
      by (auto simp: backlog_def buff_ok_def buf_data_def intro: flow_then)
  qed (use r e2 f in auto)
qed

lemma passed_trans:
  assumes "passed s t w 0 w'" "ends s t w w'" "v_buff (items w' ! s) = no_buffer" "passed s t w' r w''"
  shows "passed s t w r w''"
proof -
  let ?fs = "v_fd (items w ! s)" let ?ft = "v_fd (items w ! t)"
  obtain x d where 1: "flow ?fs ?ft w x d w'" "backlog (items w ! s) @ x = d"
    using assms(1) no_buffer_ok [OF assms(3)] by (auto simp: passed_def)
  obtain y e rest where 2: "flow ?fs ?ft w' y e w''" "y = e @ rest"
      "r = 0 \<longrightarrow> rest = backlog (items w'' ! s) \<and> buff_ok (items w'' ! s)"
    using assms(4) endsD [OF assms(2)] no_buffer_ok [OF assms(3)] by (auto simp: passed_def)
  show ?thesis
    using flow_trans [OF 1(1) 2(1)] 1(2) 2(2,3) by (auto intro: passedI [of w s t "x @ y" "d @ e" _ rest])
qed

text \<open>Bytes that were received: they are in the scratch buffer, and nothing else has changed.\<close>

lemma tunnel_recv:
  assumes "recv_buf (v_fd (items w ! s)) k w = Some (n, w1)" "ends s t w w" "v_buff (items w ! s) = no_buffer" "\<not> n < 1"
    "upd s (\<lambda>e. e\<lparr>v_recv_count := v_recv_count e + n\<rparr>) w1 = Some w2"
  shows "\<exists>x. flow (v_fd (items w ! s)) ft w x [] w2 \<and> ends s t w w2 \<and> v_buff (items w2 ! s) = no_buffer \<and>
      int (length x) = n \<and> mem_read (w_buffer w2) 0 (nat n) = Some x"
proof -
  let ?fs = "v_fd (items w ! s)"
  obtain x where x: "flow ?fs ft w x [] w1" "w_pool w1 = w_pool w"
    "int (length x) = n" "mem_read (w_buffer w1) 0 (nat n) = Some x"
    using flow_recv [OF assms(1), of ft] assms(4) by auto
  have e1: "ends s t w w1" using assms(2) x(2) ends_pool by blast
  note e2 = ends_upd [OF e1 assms(5)]
  then have "flow ?fs ft w x [] w2 \<and> ends s t w w2 \<and> v_buff (items w2 ! s) = no_buffer \<and>
      int (length x) = n \<and> mem_read (w_buffer w2) 0 (nat n) = Some x"
    using x assms(3) flow_then [OF x(1) flow_upd [OF assms(5)]] by simp
  then show ?thesis by blast
qed

text \<open>What happens to them: they are sent, or a part is and the rest is kept, or the pass fails.\<close>

lemma tunnel_sent:
  assumes "call (Send (v_fd (items w ! t)) x False) w2 = (sn, w3)" "int (length x) = n" "0 < n"
    and f: "flow (v_fd (items w ! s)) (v_fd (items w ! t)) w x [] w2"
    and e: "ends s t w w2" "v_buff (items w ! s) = no_buffer" "v_buff (items w2 ! s) = no_buffer"
    "mem_read (w_buffer w2) 0 (nat n) = Some x"
  shows "ends s t w w3 \<and> v_buff (items w3 ! s) = no_buffer \<and> (sn = n \<longrightarrow> passed s t w 0 w3) \<and> passed s t w (- 1) w3 \<and>
      (sn \<noteq> n \<longrightarrow> tunnel_keep s (Some t) (nat sn) (nat n) w3 = Some (r, w') \<longrightarrow> ends s t w w' \<and> passed s t w r w')"
proof -
  let ?fs = "v_fd (items w ! s)" let ?ft = "v_fd (items w ! t)"
  note s = flow_send [OF assms(1), of ?fs]
  have e3: "ends s t w w3" "v_buff (items w3 ! s) = no_buffer"
    using e s ends_pool by auto
  have g: "flow ?fs ?ft w x (take (nat sn) x) w3"
    using flow_trans [OF f, of "[]" _ w3] s by simp
  note nb = no_buffer_ok [OF e(2)] no_buffer_ok [OF e3(2)]
  have "ends s t w w' \<and> passed s t w r w'"
    if "tunnel_keep s (Some t) (nat sn) (nat n) w3 = Some (r, w')" "sn \<noteq> n"
  proof -
    have "nat sn < nat n" using s that(2) assms(2,3) by linarith
    moreover have "ends s t w3 w3" using endsD [OF e3(1)] by (auto intro: ends_refl)
    moreover have "mem_read (w_buffer w3) 0 (nat n) = Some x" using e(4) s by simp
    ultimately have k: "ends s t w3 w'" "flow ?fs ?ft w3 [] [] w'"
        "r = 0 \<longrightarrow> backlog (items w' ! s) = drop (nat sn) x \<and> buff_ok (items w' ! s)"
      using tunnel_keep_passed [OF that(1)] by auto
    then have "passed s t w r w'"
      using flow_then [OF g k(2)] nb
      by (auto intro!: passedI [of w s t x "take (nat sn) x" _ "drop (nat sn) x"])
    with k(1) e3(1) ends_trans show ?thesis by blast
  qed
  moreover have "passed s t w (- 1) w3"
    using g nb by (auto intro!: passedI [of w s t x "take (nat sn) x" _ "drop (nat sn) x"])
  moreover have "passed s t w 0 w3" if "sn = n"
    using g nb that assms(2) by (auto intro!: passedI [of w s t x x _ "[]"])
  ultimately show ?thesis using e3 by blast
qed

lemma tunnel_loop_passed:
  assumes "tunnel_loop s (Some t) k w = Some (r, w')" "ends s t w w" "v_buff (items w ! s) = no_buffer"
  shows "ends s t w w' \<and> passed s t w r w'"
proof -
  define P where "P = (\<lambda>s p (k :: nat) w rw. \<forall>t. p = Some t \<longrightarrow> ends s t w w \<longrightarrow> v_buff (items w ! s) = no_buffer \<longrightarrow>
    ends s t w (snd rw) \<and> passed s t w (fst rw) (snd rw))"
  have "P s (Some t) k w (r, w')"
  proof (rule tunnel_loop.raw_induct [of P, OF _ assms(1)], unfold P_def, intro allI impI, goal_cases)
    case (1 loop s p k w rw t)
    let ?e = "items w ! s" let ?fs = "v_fd ?e" let ?ft = "v_fd (items w ! t)"
    obtain r w' where rw: "rw = (r, w')" by fastforce
    have ev: "ev w s = Some ?e" using endsD [OF 1(4)] by (simp add: ev_def)
    obtain n w1 where rcv: "recv_buf ?fs k w = Some (n, w1)"
      using 1(2) ev by (auto simp: bind_eq_Some_conv)
    obtain x where x: "flow ?fs ?ft w x [] w1" "w_pool w1 = w_pool w" "n < 1 \<longrightarrow> x = []"
      using flow_recv [OF rcv, of ?ft] by auto
    show ?case
    proof (cases "n < 1")
      case True
      then have "x = []" "w' = w1"
        using x(3) 1(2) ev rcv rw by (auto simp: bind_eq_Some_conv split: if_splits)
      then show ?thesis
        using 1(4) ends_pool x(1,2) no_buffer_ok [OF 1(5)] rw by (auto intro!: passedI [of w s t "[]" "[]" _ "[]"])
    next
      case False
      obtain w2 where u: "upd s (\<lambda>e. e\<lparr>v_recv_count := v_recv_count e + n\<rparr>) w1 = Some w2"
        using endsD(1) [OF 1(4)] x(2) by (simp add: upd_def)
      obtain x where x: "flow ?fs ?ft w x [] w2" "ends s t w w2" "v_buff (items w2 ! s) = no_buffer"
          "int (length x) = n" "mem_read (w_buffer w2) 0 (nat n) = Some x"
        using tunnel_recv [OF rcv 1(4,5) False u] by blast
      obtain sn w3 where snd: "call (Send ?ft x False) w2 = (sn, w3)" by fastforce
      have t: "ev w2 t = Some (items w2 ! t)" "v_fd (items w2 ! t) = ?ft"
        using endsD [OF x(2)] by (simp_all add: ev_def)
      have go: "(if sn \<noteq> n
            then if sn < 0 \<and> w_errno w3 \<noteq> EAGAIN then Some (- 1, w3)
              else tunnel_keep s (Some t) (if sn < 0 then 0 else nat sn) (nat n) w3
            else if n = int k then loop s (Some t) k w3 else Some (0, w3)) = Some (r, w')"
        using 1(2) ev rcv rw False u snd t x unfolding 1(3) by (simp split del: if_split)
      have S: "ends s t w w3" "v_buff (items w3 ! s) = no_buffer" "passed s t w (- 1) w3" "sn = n \<longrightarrow> passed s t w 0 w3"
          "sn \<noteq> n \<longrightarrow> tunnel_keep s (Some t) (nat sn) (nat n) w3 = Some (r, w') \<longrightarrow> ends s t w w' \<and> passed s t w r w'"
        using tunnel_sent [OF snd x(4) _ x(1,2) 1(5) x(3,5), of r w'] False by auto
      show ?thesis
      proof (cases "sn = n \<and> n = int k")
        case True
        with go have "loop s (Some t) k w3 = Some (r, w')" by simp
        moreover have "ends s t w3 w3" using endsD [OF S(1)] by (auto intro: ends_refl)
        ultimately have "ends s t w3 w'" "passed s t w3 r w'" using 1(1) S(2) by force+
        then show ?thesis using S True rw passed_trans ends_trans by auto
      next
        case False
        with go show ?thesis using S rw by (auto split: if_splits)
      qed
    qed
  qed
  with assms(2,3) show ?thesis by (simp add: P_def)
qed

section \<open>Properties\<close>

text \<open>C1: for every event of a tunnel, with \<open>s\<close> the side the bytes come from and \<open>t\<close> the side they go to
  (exchanged when the event says that there is room to send): the bytes held back for \<open>s\<close> followed by
  the bytes received from \<open>s\<close> are the bytes that were delivered to \<open>t\<close> followed by a rest, whatever
  the sizes of the receives and short sends. When \<open>on_tunnel\<close> reports success, that rest is what
  \<open>s\<close> now holds back: nothing is lost, repeated or reordered. No other connection is changed.\<close>

theorem on_tunnel_forwards:
  assumes "on_tunnel val bfsize etype w = Some (r, w')" "tunnel_ends val etype w = Some (s, t)"
    "s \<noteq> t" "t < length (items w)" "buff_ok (items w ! s)"
  shows "\<exists>h rest. w_hist w' = w_hist w @ h \<and>
      backlog (items w ! s) @ received (v_fd (items w ! s)) h = delivered (v_fd (items w ! t)) h @ rest \<and>
      (r = 0 \<longrightarrow> rest = backlog (items w' ! s) \<and> buff_ok (items w' ! s)) \<and>
      (\<forall>i. i \<noteq> s \<longrightarrow> items w' ! i = items w ! i)"
proof -
  obtain res w1 where f: "tunnel_flush s (Some t) etype w = Some (res, w1)"
      and g: "(case res of Inl r \<Rightarrow> Some (r, w1) | Inr _ \<Rightarrow> tunnel_loop s (Some t) bfsize w1) = Some (r, w')"
      and s: "s < length (items w)"
    using assms(1,2)
    by (auto simp: on_tunnel_def tunnel_ends_def bind_eq_Some_conv ev_def split: if_splits)
  have e: "ends s t w w" using assms(3,4) s by (intro ends_refl)
  note F = tunnel_flush_passed [OF f e assms(5)]
  have "ends s t w w' \<and> passed s t w r w'"
  proof (cases res)
    case (Inl a)
    then show ?thesis using F g by simp
  next
    case (Inr a)
    have "ends s t w1 w1" using F endsD [of s t w w1] by (auto intro: ends_refl)
    moreover have "tunnel_loop s (Some t) bfsize w1 = Some (r, w')" using g Inr by simp
    ultimately have "ends s t w1 w'" "passed s t w1 r w'"
      using tunnel_loop_passed F Inr by auto
    then show ?thesis using F Inr passed_trans ends_trans by auto
  qed
  then show ?thesis by (auto simp: passed_def flow_def ends_def)
qed

subsection \<open>A concrete tunnel\<close>

text \<open>The connection in slot 1 sends \<open>[1, 2, 3]\<close>, its partner takes one byte at a time.\<close>

definition tunnel_os :: "history \<Rightarrow> syscall \<Rightarrow> sysret" where
  "tunnel_os h c = (case c of
     Recv fd n \<Rightarrow> (ok_ret 3)\<lparr>r_data := [1, 2, 3]\<rparr>
   | Send fd bs oob \<Rightarrow> ok_ret 1
   | _ \<Rightarrow> ok_ret 0)"

definition tunnel_world :: world where
  "tunnel_world = sample_world\<lparr>w_os := tunnel_os, w_buffer := replicate 8 0\<rparr>"

theorem on_tunnel_forwards_witness:
  "\<exists>w'. on_tunnel 1 8 POLLIN tunnel_world = Some (0, w') \<and> [1, 2, 3] = [1] @ backlog (items w' ! 1) \<and>
     buff_ok (items w' ! 1)"
proof -
  let ?w = tunnel_world
  note W = tunnel_world_def tunnel_os_def sample_world_def sample_pool_def zero_eval_def ok_ret_def on_tunnel_def
    tunnel_flush_def recv_buf_def recv_at_def tunnel_keep_def mod_etypes_def mod_etype_def ev_def upd_def call_def
    sys_def comply_read_def comply_write_def POLLIN_def POLLOUT_def POLLHUP_def tunnel_ends_def buff_ok_def
    backlog_def buf_data_def mem_read_def mem_write_def
  have "\<exists>w'. on_tunnel 1 8 POLLIN ?w = Some (0, w') \<and> received (v_fd (items ?w ! 1)) (w_hist w') = [1, 2, 3] \<and>
      delivered (v_fd (items ?w ! 2)) (w_hist w') = [1]"
    by (simp add: W Let_def tunnel_loop.simps [of "Suc 0"])
  then obtain w' where w': "on_tunnel 1 8 POLLIN ?w = Some (0, w')"
      "received (v_fd (items ?w ! 1)) (w_hist w') = [1, 2, 3]" "delivered (v_fd (items ?w ! 2)) (w_hist w') = [1]"
    by blast
  have "tunnel_ends 1 POLLIN ?w = Some (1, 2)" "2 < length (items ?w)" "buff_ok (items ?w ! 1)"
      "w_hist ?w = []" "backlog (items ?w ! 1) = []"
    by (simp_all add: W)
  then show ?thesis
    using on_tunnel_forwards [OF w'(1), of 1 2] w' by auto
qed

end
