(* ===== verification/Account.thy ===== *)
theory Account
  imports Handlers
begin

text \<open>
  Every handler keeps the account of who owns which descriptor and which connections are registered at
  \<open>epoll\<close>. For the handlers that neither add nor delete connections this is a part of \<open>calm\<close>; here
  are the others, and \<open>dispatch\<close>.
\<close>

section \<open>Lemmas\<close>

subsection \<open>Reconnecting\<close>

lemma reconnect_hand:
  assumes i: "Inv offs w" "val \<in> live w" "0 < val" "mutual w val" and h: "hand {} w0 w"
  shows "ens (reconnect val m w) (\<lambda>(r, w'). hand {} w0 w')"
proof -
  obtain client where m: "pr w val = Some client" "pr w client = Some val" "client \<noteq> val"
    using i(4) by (auto simp: mutual_def)
  have cl: "client \<in> live w" "0 < client" using Inv_pair [OF i(1,2) m(1)] by simp_all
  have e: "ev w val = Some (items w ! val)" "v_pair (items w ! val) = Some client"
    using Inv_live(1) [OF i(1,2)] m(1) by (simp_all add: pr_def)
  have "EV_DESYNC \<noteq> EV_ACCEPT" by simp
  note C = create_conn_shape [OF i(1) cl this] and H = create_conn_handy [OF Inv_handy [OF i(1) h]]
  have D: "ens (del_event val x1) Q"
    if l: "linked offs EV_DESYNC client w x" and u: "upd val (\<lambda>e. e\<lparr>v_pair := None\<rparr>) x = Some x1"
      and x1: "hand {} w0 x1" and Q: "\<And>w'. hand {} w0 w' \<Longrightarrow> Q w'" for x x1 Q
  proof (rule ensI, rule Q)
    fix x2 assume d: "del_event val x1 = Some x2"
    have "pool_inv x1" "val \<in> live x1" using reconnect_unlinked [OF i(1-3) m l u] by simp_all
    from hand_del [OF this _ d x1] i(3) show "hand {} w0 x2" by simp
  qed
  have "ens (create_conn client dst EV_DESYNC w) (\<lambda>(r, x). (r = 0 \<longrightarrow> linked offs EV_DESYNC client w x) \<and> hand {} w0 x)" for dst
    by (rule ens_mono [OF ens_conj [OF C H]]) auto
  then show ?thesis
    unfolding reconnect_def e ens_bind ens_Some
    by (rule ens_mono) (auto intro!: hcg [of "{}" w0] D)
qed

definition coupled :: "int \<Rightarrow> nat \<Rightarrow> world \<Rightarrow> world \<Rightarrow> bool" where
  "coupled offs val w0 w \<longleftrightarrow> Inv offs w \<and> val \<in> live w \<and> 0 < val \<and> mutual w val \<and> hand {} w0 w"

lemma coupled_same:
  assumes "coupled offs val w0 w" "ens m (\<lambda>(r, w'). same_pool w w')" "ens m (\<lambda>(r, w'). balanced w w')"
    "\<And>r w'. coupled offs val w0 w' \<Longrightarrow> Q (r, w')"
  shows "ens m Q"
proof (rule ensI, clarify)
  fix r w' assume m: "m = Some (r, w')"
  have s: "same_pool w w'" "balanced w w'" using ensD [OF assms(2) m] ensD [OF assms(3) m] by simp_all
  then have "coupled offs val w0 w'"
    using assms(1) hand_frame [OF _ s] Inv_same [of w' w] by (auto simp: coupled_def same_pool_def)
  then show "Q (r, w')" by (rule assms(4))
qed

lemma coupled_hand: "coupled offs val w0 w \<Longrightarrow> hand {} w0 w"
  by (simp add: coupled_def)

lemma reactions_hand:
  assumes c: "coupled offs val w0 w"
  shows "ens (on_torst val w) (\<lambda>(r, w'). hand {} w0 w')" "ens (on_fin val w) (\<lambda>(r, w'). hand {} w0 w')"
    "ens (on_response val n w) (\<lambda>(r, w'). hand {} w0 w')"
proof -
  have R: "ens (reconnect val m w) (\<lambda>(r, w'). hand {} w0 w')" for m
    using reconnect_hand [of offs w val w0 m] c by (simp add: coupled_def)
  note h = coupled_hand [OF c]
  show "ens (on_torst val w) (\<lambda>(r, w'). hand {} w0 w')"
    unfolding on_torst_def by (auto intro!: v_read hcg [of "{}" w0] h R split: option.split)
  show "ens (on_fin val w) (\<lambda>(r, w'). hand {} w0 w')"
    unfolding on_fin_def by (auto intro!: v_read h R ensI [of "fin_search _ _ _ _"] split: option.split)
  show "ens (on_response val n w) (\<lambda>(r, w'). hand {} w0 w')"
    unfolding on_response_def by (auto intro!: v_read h R ensI [of "response_search _ _ _ _ _ _"] split: option.split)
qed

lemma on_tunnel_check_hand:
  assumes i: "Inv offs w" "val \<in> live w" "0 < val" "mutual w val"
  shows "ens (on_tunnel_check val bfsize out w) (\<lambda>(r, w'). hand {} w w')"
proof -
  have c: "coupled offs val w x" if "calm offs w x" for x
    using that i calm_mutual [OF that i(1,2)] by (simp add: coupled_def calm_def)
  have R: "ens (on_response val n x) Q"
    if "calm offs w x" "\<And>r w'. hand {} w w' \<Longrightarrow> (r \<noteq> 0 \<longrightarrow> calm offs w w') \<Longrightarrow> Q (r, w')" for n x Q
    by (rule ens_mono [OF ens_conj [OF reactions_hand(3) [OF c [OF that(1)]] on_response_Inv [OF i that(1)]]])
      (use that(2) in auto)
  have A: "ens (accept_response val n x) (\<lambda>(r, w'). hand {} w w')" if "calm offs w x" for n x
    by (rule ens_mono [OF accept_response_calm [OF i that]]) (auto simp: calm_def)
  show ?thesis
    unfolding on_tunnel_check_def
    by (auto intro!: v_read vcg [of offs w] R A reactions_hand [of offs val w] c)
qed

subsection \<open>Requests\<close>

lemma hand_mod_etype:
  assumes "hand F w0 w" "v \<in> live w" "\<And>r w'. hand F w0 w' \<Longrightarrow> Q (r, w')"
  shows "ens (mod_etype v k w) Q"
  using hand_mod [OF _ assms(1,2)] assms(3) by (auto intro!: ensI)

lemma live_frame [simp]: "live (snd (sys c w)) = live w" "live (snd (call c w)) = live w"
  by (simp_all add: live_def frame)

lemma udp_reply_hand: "hand F w0 w \<Longrightarrow> val \<in> live w \<Longrightarrow> ens (udp_reply val cfd addr w) (\<lambda>(r, w'). hand F w0 w')"
  unfolding udp_reply_def
  by (auto simp: split_beta Let_def intro!: v_read hand_mod_etype [of F w0] ensI [of "s5_set_addr _ _ _ _ _"])

text \<open>The account, and a connection that is in use.\<close>

definition there :: "nat \<Rightarrow> world \<Rightarrow> world \<Rightarrow> bool" where
  "there val w0 w \<longleftrightarrow> hand {} w0 w \<and> val \<in> live w"

lemma there_upd:
  assumes "there val w0 w" "\<And>e. v_fd (f e) = v_fd e" "\<And>w'. there val w0 w' \<Longrightarrow> Q w'"
  shows "ens (upd v f w) Q"
proof (rule ensI)
  fix w' assume u: "upd v f w = Some w'"
  with hand_upd [OF u, of "{}" w0] assms(1,2) upd_facts [OF u] show "Q w'"
    by (intro assms(3)) (simp add: there_def)
qed

lemma there_reply: "there val w0 w \<Longrightarrow> ens (udp_reply val cfd addr w) (\<lambda>(r, w'). hand {} w0 w')"
  by (simp add: there_def udp_reply_hand)

text \<open>A new connection without a partner that may be deleted again.\<close>

definition alone :: "int \<Rightarrow> nat \<Rightarrow> nat \<Rightarrow> int set \<Rightarrow> world \<Rightarrow> world \<Rightarrow> bool" where
  "alone offs val p F w0 w \<longleftrightarrow> lone offs val p w \<and> hand F w0 w"

lemma alone_frame [simp]:
  "neutral c \<Longrightarrow> alone offs val p F w0 (snd (call c w)) = alone offs val p F w0 w"
  "neutral c \<Longrightarrow> alone offs val p F w0 (snd (sys c w)) = alone offs val p F w0 w"
  by (simp_all only: alone_def hand_simps lone_simps)

lemma alone_hand: "alone offs val p F w0 w \<Longrightarrow> hand F w0 w"
  by (simp add: alone_def)

lemma alone_del:
  assumes "alone offs val p F w0 w" "\<And>w'. hand F w0 w' \<Longrightarrow> Q w'"
  shows "ens (del_event p w) Q"
proof (rule ensI)
  fix w' assume d: "del_event p w = Some w'"
  have "pool_inv w" "p \<in> live w" "p \<noteq> 0" "hand F w0 w" using assms(1) by (auto simp: alone_def lone_def Inv_def)
  from hand_del [OF this(1-3) d this(4)] show "Q w'" by (rule assms(2))
qed

lemma alone_upd:
  assumes "alone offs val p F w0 w" "0 < q" "\<And>e. gently e (f e)" "\<And>e. v_type (f e) = v_type e"
    "\<And>w'. alone offs val p F w0 w' \<Longrightarrow> Q w'"
  shows "ens (upd q f w) Q"
proof (rule ensI)
  fix w' assume u: "upd q f w = Some w'"
  have "v_fd (f e) = v_fd e" for e using assms(3) [of e] by (simp add: gently_def)
  with lone_upd [OF _ u assms(2-4), of offs val p] hand_upd [OF u, of F w0] assms(1,5) show "Q w'"
    by (simp add: alone_def)
qed

lemma alone_socket_mod:
  assumes "alone offs val p F w0 w" "\<And>r w'. alone offs val p F w0 w' \<Longrightarrow> Q (r, w')"
  shows "ens (socket_mod fd a w) Q"
proof (rule ensI, clarify)
  fix r w' assume m: "socket_mod fd a w = Some (r, w')"
  have s: "same_pool w w'" "balanced w w'" using ensD [OF socket_mod_pool m] ensD [OF socket_mod_balanced m] by simp_all
  have "alone offs val p F w0 w'"
    using assms(1) hand_frame [OF _ s] lone_same [of w' w] s(1) by (simp add: alone_def same_pool_def)
  then show "Q (r, w')" by (rule assms(2))
qed

lemma alone_new:
  "alone offs val p {} w0 w \<Longrightarrow> fst (nb_socket d t w) < 0 \<Longrightarrow> alone offs val p {} w0 (snd (nb_socket d t w))"
  "alone offs val p {} w0 w \<Longrightarrow> \<not> fst (nb_socket d t w) < 0 \<Longrightarrow>
    alone offs val p {fst (nb_socket d t w)} w0 (snd (nb_socket d t w))"
  using hand_new(1,2) by (simp_all add: alone_def)

text \<open>A client that waits for an answer to its request.\<close>

definition asking :: "int \<Rightarrow> nat \<Rightarrow> int set \<Rightarrow> world \<Rightarrow> world \<Rightarrow> bool" where
  "asking offs val F w0 w \<longleftrightarrow> Inv offs w \<and> val \<in> live w \<and> 0 < val \<and> pr w val = None \<and> hand F w0 w"

lemma asking_same:
  assumes "asking offs val F w0 w" "hand F' w0 w'" "w_pool w' = w_pool w"
  shows "asking offs val F' w0 w'"
  using assms Inv_same [OF assms(3)] by (simp add: asking_def)

lemma alone_add:
  assumes "asking offs val {fd} w0 w" "\<And>w'. hand {fd} w0 w' \<Longrightarrow> Q (None, w')"
    "\<And>v w'. alone offs val v {} w0 w' \<Longrightarrow> Q (Some v, w')"
  shows "ens (add_event EV_UDP_TUNNEL fd e w) Q"
proof -
  have a: "Inv offs w" "val \<in> live w" "0 < val" "pr w val = None" "hand {fd} w0 w" using assms(1) by (simp_all add: asking_def)
  then have s: "slots_ok w" by (simp add: Inv_def pool_inv_def)
  have "ens (add_event EV_UDP_TUNNEL fd e w) (\<lambda>(r, w'). case r of None \<Rightarrow> True | Some v \<Rightarrow> lone offs val v w')"
    by (rule lone_add [OF a(1-4)]) simp_all
  moreover have "ens (add_event EV_UDP_TUNNEL fd e w) (\<lambda>(r, w'). case r of None \<Rightarrow> hand {fd} w0 w' | Some v \<Rightarrow> hand {} w0 w')"
    by (rule ensI) (use hand_add [OF s a(5)] in auto)
  ultimately have "ens (add_event EV_UDP_TUNNEL fd e w) (\<lambda>(r, w'). case r of None \<Rightarrow> hand {fd} w0 w' | Some v \<Rightarrow> alone offs val v {} w0 w')"
    by (rule ens_mono [OF ens_conj]) (auto simp: alone_def split: option.splits)
  then show ?thesis
  proof (rule ens_mono, clarify)
    fix r w' assume "case r of None \<Rightarrow> hand {fd} w0 w' | Some v \<Rightarrow> alone offs val v {} w0 w'"
    then show "Q (r, w')" using assms(2,3) by (cases r) auto
  qed
qed

lemma udp_remote_hand:
  assumes a: "asking offs val {} w0 w"
  shows "ens (udp_remote dst w) (\<lambda>(r, w'). case r of None \<Rightarrow> hand {} w0 w' | Some (p, a) \<Rightarrow> alone offs val p {} w0 w')"
proof -
  have h: "hand {} w0 w" using a by (simp add: asking_def)
  note N = hand_new(1,2) [OF h]
  have P: "0 < p" if "alone offs val p F w0 x" for p F x using that by (simp add: alone_def lone_def)
  show ?thesis
    unfolding udp_remote_def
    by (auto simp: split_beta Let_def gently_def frame split: option.split
        intro!: alone_add alone_del alone_upd alone_socket_mod asking_same [OF a] hand_close N intro: alone_hand P)
qed

lemma there_add:
  assumes "alone offs val p {fd} w0 w" "\<And>v w'. there val w0 w' \<Longrightarrow> Q (Some v, w')" "\<And>w'. Q (None, w')"
  shows "ens (add_event t fd e w) Q"
proof (rule ensI, clarify)
  fix r w' assume a: "add_event t fd e w = Some (r, w')"
  have s: "slots_ok w" "hand {fd} w0 w" "val \<in> live w"
    using assms(1) by (auto simp: alone_def lone_def Inv_def pool_inv_def)
  from hand_add [OF s(1,2) a] add_event_fds [OF s(1) a] s(3) show "Q (r, w')"
    using assms(2,3) by (cases r) (auto simp: there_def)
qed

lemma alone_handy: "alone offs val p F w0 w \<Longrightarrow> handy F w0 w"
  by (auto simp: alone_def lone_def intro: Inv_handy)

lemma udp_associate_hand:
  assumes a: "asking offs val {} w0 w"
  shows "ens (udp_associate val dst w) (\<lambda>(r, w'). hand {} w0 w')"
proof -
  have R: "ens (udp_remote dst w) Q"
    if "\<And>w'. hand {} w0 w' \<Longrightarrow> Q (None, w')"
      "\<And>p a w'. alone offs val p {} w0 w' \<Longrightarrow> hand {} w0 w' \<Longrightarrow> handy {} w0 w' \<Longrightarrow> Q (Some (p, a), w')" for Q
  proof (rule ens_mono [OF udp_remote_hand [OF a]], clarify)
    fix r :: "(nat \<times> sockaddr_ina) option" and w'
    assume "case r of None \<Rightarrow> hand {} w0 w' | Some (p, a) \<Rightarrow> alone offs val p {} w0 w'"
    then show "Q (r, w')" using that alone_hand alone_handy by (cases r) auto
  qed
  show ?thesis
    unfolding udp_associate_def fail_close_def
    by (auto simp: split_beta Let_def
        intro!: R v_read alone_del [of offs val] alone_new handy_new there_add there_upd [of _ w0] there_reply hand_close
        ensI [of "x :: nat option" for x]) (simp_all add: alone_new)
qed

lemma s5_command_hand:
  assumes a: "asking offs val {} w0 w"
  shows "ens (s5_command val n w) (\<lambda>(s5e, e, w'). hand {} w0 w')"
proof -
  have F: "ens (s5_get_addr b off n addr type w) Q" if "\<And>r x w'. asking offs val {} w0 w' \<Longrightarrow> Q (r, x, w')" for b off addr type Q
  proof (rule ensI, clarify)
    fix r x w' assume m: "s5_get_addr b off n addr type w = Some (r, x, w')"
    have s: "same_pool w w'" "balanced w w'" using ensD [OF s5_get_addr_pool m] ensD [OF s5_get_addr_balanced m] by simp_all
    have "hand {} w0 w'" using hand_frame [OF _ s] a by (simp add: asking_def)
    then have "asking offs val {} w0 w'" using asking_same [OF a] s(1) by (simp add: same_pool_def)
    then show "Q (r, x, w')" by (rule that)
  qed
  have H: "asking offs val {} w0 x \<Longrightarrow> hand {} w0 x" "asking offs val {} w0 x \<Longrightarrow> handy {} w0 x" for x
    by (auto simp: asking_def intro: Inv_handy)
  have C: "ens (connect_hook val dst EV_CONNECT x) Q" if "asking offs val {} w0 x" "\<And>r w'. hand {} w0 w' \<Longrightarrow> Q (r, w')" for dst x Q
    by (rule ens_mono [OF connect_hook_handy [OF H(2) [OF that(1)]]]) (use that(2) in \<open>auto simp: handy_def\<close>)
  have U: "ens (udp_associate val dst x) Q" if "asking offs val {} w0 x" "\<And>r w'. hand {} w0 w' \<Longrightarrow> Q (r, w')" for dst x Q
    by (rule ens_mono [OF udp_associate_hand [OF that(1)]]) (use that(2) in auto)
  show ?thesis
    unfolding s5_command_def
    by (auto intro!: v_read F C U H(1) a)
qed

lemma on_request_hand:
  assumes a: "asking offs val {} w0 w"
  shows "ens (on_request val bfsize w) (\<lambda>(r, w'). hand {} w0 w')"
proof -
  have H: "asking offs val {} w0 x \<Longrightarrow> hand {} w0 x" "asking offs val {} w0 x \<Longrightarrow> handy {} w0 x" for x
    by (auto simp: asking_def intro: Inv_handy)
  have C: "ens (s5_command val n x) Q" if "asking offs val {} w0 x" "\<And>r e w'. hand {} w0 w' \<Longrightarrow> Q (r, e, w')" for n x Q
    by (rule ens_mono [OF s5_command_hand [OF that(1)]]) (use that(2) in auto)
  have 5: "ens (s5_request val n x) (\<lambda>(r, w'). hand {} w0 w')" if "asking offs val {} w0 x" for n x
    unfolding s5_request_def
    using H(1) [OF that] that by (auto simp: split_beta Let_def intro!: v_read hcg [of "{}" w0] C)
  have 4: "ens (s4_request val n x) (\<lambda>(r, w'). hand {} w0 w')" if x: "asking offs val {} w0 x" for n x
  proof -
    have F: "ens (s4_get_addr b n dst y) Q" if "handy {} w0 y" "\<And>r z w'. handy {} w0 w' \<Longrightarrow> Q (r, z, w')" for b dst y Q
    proof (rule ensI, clarify)
      fix r z w' assume m: "s4_get_addr b n dst y = Some (r, z, w')"
      have s: "same_pool y w'" "balanced y w'" using ensD [OF s4_get_addr_pool m] ensD [OF s4_get_addr_balanced m] by simp_all
      have "handy {} w0 w'"
        using hand_frame [OF _ s] that(1) slots_ok_pool [of w' y] s(1) by (auto simp: handy_def same_pool_def)
      then show "Q (r, z, w')" by (rule that(2))
    qed
    have K: "ens (connect_hook val dst EV_CONNECT y) Q" if "handy {} w0 y" "\<And>r w'. hand {} w0 w' \<Longrightarrow> Q (r, w')" for dst y Q
      by (rule ens_mono [OF connect_hook_handy [OF that(1)]]) (use that(2) in \<open>auto simp: handy_def\<close>)
    show ?thesis
      unfolding s4_request_def
      using H(2) [OF x] by (auto simp: split_beta Let_def slot_ok_def intro!: v_read y_upd [of "{}" w0] F K intro: handy_hand)
  qed
  have F5: "ens (s5_request val n x) Q" if "asking offs val {} w0 x" "\<And>r w'. hand {} w0 w' \<Longrightarrow> Q (r, w')" for n x Q
    by (rule ens_mono [OF 5 [OF that(1)]]) (use that(2) in auto)
  have F4: "ens (s4_request val n x) Q" if "asking offs val {} w0 x" "\<And>r w'. hand {} w0 w' \<Longrightarrow> Q (r, w')" for n x Q
    by (rule ens_mono [OF 4 [OF that(1)]]) (use that(2) in auto)
  have R: "ens (recv_buf fd bfsize w) Q" if "\<And>r w'. asking offs val {} w0 w' \<Longrightarrow> Q (r, w')" for fd Q
  proof (rule ensI, clarify)
    fix r w' assume m: "recv_buf fd bfsize w = Some (r, w')"
    have s: "same_pool w w'" "balanced w w'" using ensD [OF recv_buf_pool m] ensD [OF recv_buf_balanced m] by simp_all
    have "hand {} w0 w'" using hand_frame [OF _ s] a by (simp add: asking_def)
    then have "asking offs val {} w0 w'" using asking_same [OF a] s(1) by (simp add: same_pool_def)
    then show "Q (r, w')" by (rule that)
  qed
  show ?thesis
    unfolding on_request_def
    by (auto simp: split_beta Let_def intro!: v_read R F5 F4 intro: H(1) split: sum.split)
qed

subsection \<open>The loop\<close>

lemma or_close_hand:
  assumes "handled offs val m" "ens m (\<lambda>(r, w'). hand {} w0 w')" "0 < val"
  shows "ens (or_close val m) (hand {} w0)"
proof -
  have D: "ens (del_event val x) (hand {} w0)" if "Inv offs x" "val \<in> live x" "hand {} w0 x" for x
    by (rule ensI) (use hand_del [of x val _ "{}" w0] that assms(3) in \<open>auto simp: Inv_def\<close>)
  show ?thesis
    unfolding or_close_def close_conn_def ens_bind
    by (intro ens_mono [OF ens_conj [OF assms(1) [unfolded handled_def] assms(2)]]) (auto intro: D)
qed

lemma dispatch_hand:
  assumes i: "Inv offs w" and v: "val \<in> live w"
  shows "ens (dispatch val bfsize etype w) (hand {} w)"
proof -
  have e: "ev w val = Some (items w ! val)" using Inv_live(1) [OF i v] .
  have handled_if: "handled offs val (if b then Some (- 1, w) else m)" if "handled offs val m" for m b
    using that i v by (simp add: handled_def)
  have C: "ens (or_close val m) (hand {} w)" if "ens m (\<lambda>(r, w'). calm offs w w')" "0 < val" for m
    by (rule or_close_hand [OF handled_calm [OF that(1) i v] _ that(2)])
      (rule ens_mono [OF that(1)], auto simp: calm_def)
  show ?thesis
  proof (cases "val = 0")
    case True
    then have t: "v_type (items w ! val) = EV_ACCEPT" using Inv_live(2) [OF i v] by simp
    show ?thesis
      unfolding dispatch_def
      by (auto simp: e t intro!: ens_mono [OF on_accept_hand [OF Inv_handy [OF i hand_refl]]])
  next
    case False
    then have v0: "0 < val" "v_type (items w ! val) \<noteq> EV_ACCEPT" using Inv_live(2) [OF i v] by simp_all
    have close: "ens (close_conn val w) (hand {} w)"
      unfolding close_conn_def
      by (rule ensI) (use hand_del [of w val _ "{}" w] i v False in \<open>auto simp: Inv_def\<close>)
    note m = role_mutual [OF i v]
    show ?thesis
    proof (cases "v_type (items w ! val)")
      case EV_REQUEST
      then have p: "pr w val = None" using Inv_live(3) [OF i v] by (simp add: role_ok_def)
      with i v v0(1) have "asking offs val {} w w" by (simp add: asking_def)
      note H = on_request_hand [OF this]
      have "ens (if etype AND POLLHUP \<noteq> 0 then Some (- 1, w) else on_request val bfsize w) (\<lambda>(r, w'). hand {} w w')"
        using H by simp
      from or_close_hand [OF handled_if [OF on_request_handled [OF i v v0(1) p]] this v0(1)] show ?thesis
        by (simp add: dispatch_def e EV_REQUEST del: ens_if)
    next
      case EV_CONNECT
      with C [OF on_connect_calm [OF i v v0(1)] v0(1)] m show ?thesis by (simp add: dispatch_def e)
    next
      case EV_IGNORE
      with close show ?thesis by (simp add: dispatch_def e)
    next
      case EV_TUNNEL
      with C [OF on_tunnel_calm [OF i v v0(1)] v0(1)] show ?thesis by (simp add: dispatch_def e)
    next
      case EV_PRE_TUNNEL
      with or_close_hand [OF on_tunnel_check_handled [OF i v v0(1)] on_tunnel_check_hand [OF i v v0(1)] v0(1)] m
      show ?thesis by (simp add: dispatch_def e)
    next
      case EV_UDP_TUNNEL
      with C [OF on_udp_tunnel_calm [OF i v v0(1)] v0(1)] show ?thesis by (simp add: dispatch_def e)
    next
      case EV_DESYNC
      with C [OF on_desync_calm [OF i v v0(1)] v0(1)] m show ?thesis by (simp add: dispatch_def e)
    qed (use v0 in simp)
  qed
qed

end
