(* ===== verification/Loop.thy ===== *)
theory Loop
  imports Account
begin

text \<open>
  The event loop as a transition system. A state is the position in the batch of reported events with
  the world; a step is one round of \<open>main_loop\<close> that goes on. Two things hold in every state that is
  reached from the state in which \<open>event_loop\<close> enters the loop, whatever the kernel answers, as long as
  it keeps its promises on new descriptors and on events: the invariant of the connections, and the
  account of the descriptors.
\<close>

section \<open>Definitions\<close>

text \<open>The conditions under which a round is taken: the process is not to exit, and the counter of
  batches has not gone through all its values.\<close>

definition round_ok :: "world \<Rightarrow> bool" where
  "round_ok w \<longleftrightarrow> w_not_exit w \<and> p_iters (w_pool w) \<noteq> - 1"

inductive turn :: "nat \<Rightarrow> int \<times> world \<Rightarrow> int \<times> world \<Rightarrow> bool" for b where
  turn: "round_ok (poll_signals w) \<Longrightarrow> loop_step b i (poll_signals w) = Some (True, i', w') \<Longrightarrow>
    turn b (i, w) (i', w')"

inductive_cases turnE: "turn b (i, w) s'"

text \<open>The state in which \<open>event_loop\<close> enters the loop, and the states that it reaches from there.\<close>

inductive enters :: "(nat \<Rightarrow> eval) \<Rightarrow> (nat \<Rightarrow> byte list) \<Rightarrow> int \<Rightarrow> world \<Rightarrow> world \<Rightarrow> bool"
  for junk jbuf srvfd w0 where
  enters: "init_pool junk (pr_max_open (w_params w0) * 2 + 1) w0 = Some (True, w1) \<Longrightarrow>
    add_event EV_ACCEPT srvfd POLLIN w1 = Some (Some v, w2) \<Longrightarrow>
    call (Malloc (pr_bfsize (w_params w2))) w2 = (r, w3) \<Longrightarrow> 0 \<le> r \<Longrightarrow>
    enters junk jbuf srvfd w0 (w3\<lparr>w_buffer := jbuf (pr_bfsize (w_params w2))\<rparr>)"

inductive_cases entersE: "enters junk jbuf srvfd w0 w"

definition reached :: "(nat \<Rightarrow> eval) \<Rightarrow> (nat \<Rightarrow> byte list) \<Rightarrow> int \<Rightarrow> world \<Rightarrow> int \<Rightarrow> world \<Rightarrow> bool" where
  "reached junk jbuf srvfd w0 i w \<longleftrightarrow>
     (\<exists>w1. enters junk jbuf srvfd w0 w1 \<and> rtranclp (turn (pr_bfsize (w_params w0))) (- 1, w1) (i, w))"

text \<open>What a client needs of a step relation to rely on an invariant of it: that a step keeps it.\<close>

locale safe_steps =
  fixes step :: "'s \<Rightarrow> 's \<Rightarrow> bool" and inv :: "'s \<Rightarrow> bool"
  assumes step_inv: "inv s \<Longrightarrow> step s s' \<Longrightarrow> inv s'"
begin

lemma reachable_inv: "rtranclp step s s' \<Longrightarrow> inv s \<Longrightarrow> inv s'"
  by (induction rule: rtranclp_induct) (auto intro: step_inv)

end

text \<open>The invariant of the loop, when the descriptors \<open>B\<close> were open before: every other one that is open
  is that of \<open>epoll\<close> or belongs to exactly one connection in use.\<close>

definition steady :: "int set \<Rightarrow> int \<times> world \<Rightarrow> bool" where
  "steady B = (\<lambda>(i, w). Inv i w \<and> fresh_fds (w_os w) \<and> reports_registered (w_os w) \<and> regs_ok w \<and>
     2 < p_efd (w_pool w) \<and> owner (insert (p_efd (w_pool w)) B) w \<and> p_efd (w_pool w) \<notin> B)"

section \<open>Lemmas\<close>

subsection \<open>One round\<close>

lemma poll_signals_pool [simp]: "w_pool (poll_signals w) = w_pool w"
  by (simp add: poll_signals_def split_beta)

lemma poll_signals_hand: "hand {} w (poll_signals w)"
proof -
  have "hand {} w (snd (call Signals w))" by simp
  then show ?thesis by (simp add: poll_signals_def split_beta)
qed

lemma Inv_keeps_items:
  assumes "Inv i w" "pool_inv w'" "batch_ok i' w'" "live w' = live w" "items w' = items w"
  shows "Inv i' w'"
  using assms by (auto simp: Inv_def role_ok_def mutual_def pr_def split: eid.splits)

text \<open>Waiting for events opens, closes and registers nothing.\<close>

definition undisturbed :: "world \<Rightarrow> world \<Rightarrow> bool" where
  "undisturbed w w' \<longleftrightarrow> held w' = held w \<and> w_os w' = w_os w \<and> p_efd (w_pool w') = p_efd (w_pool w) \<and> regs w' = regs w"

lemma epoll_step_undisturbed: "undisturbed w (snd (epoll_step offs w))"
  by (simp add: undisturbed_def epoll_step_def split_beta Let_def held_def regs_def in_pool_def fds_snoc registered_snoc)

lemma next_event_undisturbed:
  assumes "next_event offs w = Some (r, i, w')"
  shows "undisturbed w w'"
proof -
  have "undisturbed w (snd (snd x))" if "next_event offs w = Some x" for x
  proof (rule next_event.raw_induct [of "\<lambda>offs w x. undisturbed w (snd (snd x))", OF _ that], goal_cases)
    case (1 loop offs w x)
    have s: "undisturbed w (snd (epoll_step offs w))" by (rule epoll_step_undisturbed)
    have L: "loop k (snd (epoll_step offs w)) = Some x \<Longrightarrow> undisturbed w (snd (snd x))" for k
      using 1(1) [of k "snd (epoll_step offs w)" x] s by (simp add: undisturbed_def)
    from 1(2) s show ?case
      by (auto simp: split_beta bind_eq_Some_conv split: if_splits dest: L)
  qed
  from this [OF assms] show ?thesis by simp
qed

lemma steady_hand:
  assumes "steady B (i, w)" "hand {} w w'" "Inv i' w'"
  shows "steady B (i', w')"
  using assms by (auto simp: steady_def hand_def)

text \<open>Only connections in use are registered, so the kernel reports no others.\<close>

lemma steady_reports: "steady B (i, w) \<Longrightarrow> reports_live w"
  unfolding steady_def regs_ok_def regs_def reports_registered_def reports_live_def ran_def
  by fastforce

lemma loop_step_steady:
  assumes s: "steady B (i, w)" and r: "round_ok w"
  shows "ens (loop_step b i w) (\<lambda>(go, i', w'). steady B (i', w'))"
proof -
  have I: "Inv i w" using s by (simp add: steady_def)
  obtain e i' w' where n: "next_event i w = Some (e, i', w')" "pool_inv w'" "batch_ok i' w'"
      "live w' = live w" "items w' = items w" "case e of None \<Rightarrow> True | Some (v, t) \<Rightarrow> v \<in> live w'"
    using next_event_inv [of w i] I steady_reports [OF s] r by (auto simp: Inv_def round_ok_def)
  then have I': "Inv i' w'" using I Inv_keeps_items by blast
  have "hand {} w w'"
    by (rule hand_cong [OF hand_refl [of w]]) (use next_event_undisturbed [OF n(1)] n(4,5) in \<open>simp_all add: undisturbed_def\<close>)
  from steady_hand [OF s this I'] have s': "steady B (i', w')" .
  have "ens (dispatch v b t w') (\<lambda>x. steady B (i', x))" if "v \<in> live w'" for v t
    by (rule ens_mono [OF ens_conj [OF dispatch_hand [OF I' that] dispatch_Inv [OF I' that]]])
      (auto intro: steady_hand [OF s'])
  with n s' show ?thesis by (auto simp: loop_step_def split: option.split)
qed

lemma steady_poll_signals: "steady B (i, w) \<Longrightarrow> steady B (i, poll_signals w)"
  using steady_hand [OF _ poll_signals_hand, of B i w i] Inv_same [of "poll_signals w" w] by (simp add: steady_def)

lemma turn_steady: "steady B (i, w) \<Longrightarrow> turn b (i, w) (i', w') \<Longrightarrow> steady B (i', w')"
  by (erule turnE) (use ensD [OF loop_step_steady [OF steady_poll_signals [of B i w]]] in fastforce)

interpretation turns: safe_steps "turn b" "steady B" for b B
  by unfold_locales (auto intro: turn_steady)

subsection \<open>The start\<close>

lemma init_pool_opens:
  assumes "fresh_fds (w_os w)" "init_pool junk n w = Some (True, w1)"
  obtains "p_efd (w_pool w1) \<notin> held w" "held w1 = insert (p_efd (w_pool w1)) (held w)" "2 < p_efd (w_pool w1)"
    "w_os w1 = w_os w" "regs w1 = Map.empty" "live w1 = {}" "slots_ok w1"
proof -
  obtain r1 x1 where 1: "call (Malloc 48) w = (r1, x1)" by fastforce
  obtain efd x2 where 2: "call (Epoll_create n) x1 = (efd, x2)" by fastforce
  obtain r3 x3 where 3: "call (Malloc (16 * n)) x2 = (r3, x3)" by fastforce
  obtain r4 x4 where 4: "call (Malloc (8 * n)) x3 = (r4, x4)" by fastforce
  obtain r5 x5 where 5: "call (Malloc (96 * n)) x4 = (r5, x5)" by fastforce
  have o: "opened {} w x1" "opened {} x2 x5"
    using opened_call_eq [OF 1, of "{}" w] opened_call_eq [OF 3, of "{}" x2] opened_call_eq [OF 4, of "{}" x2]
      opened_call_eq [OF 5, of "{}" x2] by simp_all
  have w1: "0 \<le> efd" "w1 = x5\<lparr>w_pool := \<lparr>p_max = n, p_count = 0, p_efd = efd, p_links = [0..<n],
      p_items = (map junk [0..<n])[0 := zero_eval], p_pevents = [], p_iters = 0\<rparr>\<rparr>"
    using assms(2) by (auto simp: init_pool_def 1 2 3 4 5 Let_def bind_eq_Some_conv split: if_splits)
  have e: "efd = r_ret (w_os x1 (w_hist x1) (Epoll_create n))" "w_os x2 = w_os x1"
      "held x2 = insert efd (held x1)" "registered efd (w_hist x2) = Map.empty"
    using 2 w1(1) by (auto simp: call_def sys_def Let_def held_def fds_snoc registered_snoc)
  then have "2 < efd" "efd \<notin> held x1"
    using assms(1) [unfolded fresh_fds_def, rule_format, of "Epoll_create n" "w_hist x1"] o(1) w1(1)
    by (auto simp: opened_def held_def)
  moreover have "registered efd (w_hist x5) = Map.empty"
    using o(2) e(4) by (metis map_le_def map_le_antisym map_le_empty opened_def)
  ultimately show ?thesis
    using that o e by (simp add: w1(2) opened_def held_def regs_def live_def slots_ok_def atLeast0LessThan)
qed

lemma start_steady:
  assumes "fresh_fds (w_os w0)" "reports_registered (w_os w0)" "srvfd \<in> held w0"
    "init_pool junk n w0 = Some (True, w1)" "add_event EV_ACCEPT srvfd POLLIN w1 = Some (Some v, w2)"
  shows "steady (held w0 - {srvfd}) (- 1, w2)"
proof -
  let ?e = "p_efd (w_pool w1)"
  obtain 1: "?e \<notin> held w0" "held w1 = insert ?e (held w0)" "w_os w1 = w_os w0" "regs w1 = Map.empty" "live w1 = {}"
    "slots_ok w1" "2 < ?e"
    by (rule init_pool_opens [OF assms(1,4)])
  have 2: "pool_inv w2" "live w2 = {0}" "batch_ok (- 1) w2" "v_fd (items w2 ! 0) = srvfd"
    using init_pool_inv [OF assms(4,5)] by blast+
  then have "v_type (items w2 ! 0) = EV_ACCEPT" by (simp add: pool_inv_def listener_def)
  with 2 have I: "Inv (- 1) w2" by (simp add: Inv_def role_ok_def)
  note a = add_event_fds [OF 1(6) assms(5)]
  have v: "v = 0" using a 1(5) 2(2) by simp
  show ?thesis
    using a 1 2 I v assms(1-3) by (auto simp: steady_def regs_ok_def owner_def slot_fds_def)
qed

lemma steady_buffer [simp]: "steady B (i, w\<lparr>w_buffer := b\<rparr>) = steady B (i, w)"
proof -
  have "Inv i (w\<lparr>w_buffer := b\<rparr>) = Inv i w" using Inv_same [of "w\<lparr>w_buffer := b\<rparr>" w] by simp
  then show ?thesis
    by (simp add: steady_def regs_ok_def owner_def slot_fds_def held_def live_def regs_def)
qed

lemma steady_call:
  assumes "steady B (i, w)" "call c w = (r, w')" "neutral c"
  shows "steady B (i, w')"
proof -
  have h: "hand {} w w'" using assms(2,3) hand_simps(1) [of c "{}" w w] by simp
  have "Inv i w'" using assms(1,2) Inv_same [of w' w] call_pool [of c w] by (simp add: steady_def)
  with steady_hand [OF assms(1) h] show ?thesis .
qed

lemma enters_steady:
  assumes "fresh_fds (w_os w0)" "reports_registered (w_os w0)" "srvfd \<in> held w0" "enters junk jbuf srvfd w0 w"
  shows "steady (held w0 - {srvfd}) (- 1, w)"
  using assms(4) by (rule entersE) (auto intro: steady_call [OF start_steady [OF assms(1-3)]])

lemma reached_steady:
  assumes "fresh_fds (w_os w0)" "reports_registered (w_os w0)" "srvfd \<in> held w0" "reached junk jbuf srvfd w0 i w"
  shows "steady (held w0 - {srvfd}) (i, w)"
  using assms turns.reachable_inv enters_steady by (auto simp: reached_def)

subsection \<open>The end\<close>

text \<open>The loop ends in a state in which the invariant holds, if each round was in order.\<close>

lemma main_loop_steady:
  assumes "main_loop b i w = Some w'" "steady B (i, w)"
    "\<And>j x. rtranclp (turn b) (i, w) (j, x) \<Longrightarrow> p_iters (w_pool x) \<noteq> - 1"
  shows "\<exists>j. steady B (j, w')"
proof -
  have "steady B (i, w) \<longrightarrow> (\<forall>j x. rtranclp (turn b) (i, w) (j, x) \<longrightarrow> p_iters (w_pool x) \<noteq> - 1) \<longrightarrow> (\<exists>j. steady B (j, w'))"
  proof (rule main_loop.raw_induct [of "\<lambda>b i w w'. steady B (i, w) \<longrightarrow> (\<forall>j x. rtranclp (turn b) (i, w) (j, x) \<longrightarrow>
      p_iters (w_pool x) \<noteq> - 1) \<longrightarrow> (\<exists>j. steady B (j, w'))", OF _ assms(1)], intro impI, goal_cases)
    case (1 loop b i w w')
    let ?p = "poll_signals w"
    have p: "steady B (i, ?p)" "p_iters (w_pool ?p) \<noteq> - 1" using steady_poll_signals [OF 1(3)] 1(4) by auto
    show ?case
    proof (cases "w_not_exit ?p")
      case False
      with 1(2) p(1) show ?thesis by auto
    next
      case True
      then have r: "round_ok ?p" using p(2) by (simp add: round_ok_def)
      obtain go i1 w1 where s: "loop_step b i ?p = Some (go, i1, w1)" "(if go then loop b i1 w1 else Some w1) = Some w'"
        using 1(2) True by (auto simp: bind_eq_Some_conv)
      have s1: "steady B (i1, w1)" using ensD [OF loop_step_steady [OF p(1) r] s(1)] by simp
      show ?thesis
      proof (cases go)
        case True
        then have "turn b (i, w) (i1, w1)" using turn [OF r] s(1) by simp
        then have "rtranclp (turn b) (i1, w1) (j, x) \<Longrightarrow> p_iters (w_pool x) \<noteq> - 1" for j x
          using 1(4) by (meson converse_rtranclp_into_rtranclp)
        with 1(1) s(2) s1 True show ?thesis by simp
      qed (use s s1 in auto)
    qed
  qed
  with assms(2,3) show ?thesis by blast
qed

section \<open>Properties\<close>

text \<open>C2: whatever the kernel answers, as long as the descriptors that it gives out are new and it reports events
  only for what is registered, in every state that the event loop reaches from its start, after any number
  of rounds: the slots of the pool are well formed, slot 0 is the listening
  socket, the pairs of the connections are consistent (no two share a partner, and a connection with a
  partner is itself the partner of a connection in use), every event that is still to be handed out
  belongs to a slot in use or to one that was changed since, and every connection that is connecting, desynchronising or forwarding has a partner of which it is the
  partner.\<close>

theorem event_loop_invariant:
  assumes "fresh_fds (w_os w0)" "reports_registered (w_os w0)" "srvfd \<in> fds (w_hist w0)"
    "reached junk jbuf srvfd w0 i w"
  shows "pool_inv w \<and> batch_ok i w \<and> (\<forall>v\<in>live w. role_ok w v)"
  using reached_steady [OF assms(1,2) _ assms(4)] assms(3) by (simp add: steady_def Inv_def held_def)

text \<open>C4: no path through the event loop leaves a descriptor open that nothing owns. In every state that the
  loop reaches, a descriptor is open exactly if it was open before the loop was entered, is the one of \<open>epoll\<close>, or is the
  one of a connection in use; and these do not overlap: no two connections share a descriptor.\<close>

theorem event_loop_descriptors:
  assumes "fresh_fds (w_os w0)" "reports_registered (w_os w0)" "srvfd \<in> fds (w_hist w0)"
    "reached junk jbuf srvfd w0 i w"
  shows "fds (w_hist w) = (fds (w_hist w0) - {srvfd}) \<union> {p_efd (w_pool w)} \<union> slot_fds w \<and>
    p_efd (w_pool w) \<notin> fds (w_hist w0) - {srvfd} \<and> slot_fds w \<inter> (fds (w_hist w0) \<union> {p_efd (w_pool w)}) \<subseteq> {srvfd} \<and>
    inj_on (\<lambda>v. v_fd (items w ! v)) (live w)"
  using reached_steady [OF assms(1,2) _ assms(4)] assms(3) unfolding steady_def owner_def held_def by auto

end
