(* ===== verification/Descriptors.thy ===== *)
theory Descriptors
  imports Balance
begin

text \<open>
  Which descriptors the functions that open connections leave open: a connection that is not
  established leaves none behind, on any of its error paths.
\<close>

section \<open>Lemmas\<close>

text \<open>From \<open>w0\<close> to \<open>w\<close> the descriptors \<open>D\<close> were opened; all others are as they were.\<close>

definition took :: "int set \<Rightarrow> world \<Rightarrow> world \<Rightarrow> bool" where
  "took D w0 w \<longleftrightarrow> (fresh_fds (w_os w0) \<longrightarrow> w_os w = w_os w0 \<and> held w = held w0 \<union> D \<and> held w0 \<inter> D = {})"

lemma took_refl [simp]: "took {} w w"
  by (simp add: took_def)

lemma took_frame [simp]:
  "neutral c \<Longrightarrow> took D w0 (snd (call c w)) = took D w0 w" "neutral c \<Longrightarrow> took D w0 (snd (call_if b c w)) = took D w0 w"
  by (auto simp: took_def call_if_def call_def split_beta held_def fds_snoc)

lemma took_balanced:
  assumes "took D w0 w" "ens m (\<lambda>(r, w'). balanced w w')" "\<And>r w'. took D w0 w' \<Longrightarrow> Q (r, w')"
  shows "ens m Q"
proof (rule ensI, clarify)
  fix r w' assume "m = Some (r, w')"
  then have "balanced w w'" using ensD [OF assms(2)] by simp
  then have "took D w0 w'" using assms(1) by (auto simp: took_def balanced_def opened_def)
  then show "Q (r, w')" by (rule assms(3))
qed

lemma took_socket:
  assumes "took {} w0 w" "call (Socket d t nb) w = (fd, w')"
  shows "if fd < 0 then took {} w0 w' else took {fd} w0 w'"
proof (cases "fresh_fds (w_os w0)")
  case True
  then have "w_os w = w_os w0" "held w = held w0" using assms(1) by (simp_all add: took_def)
  moreover from this True have "if fd < 0 then opened {} w w' else opened {fd} w w'"
    using opened_socket [OF _ opened_refl refl assms(2)] by simp
  ultimately show ?thesis by (auto simp: took_def opened_def split: if_splits)
qed (simp add: took_def)

lemma took_new:
  "took {} w0 w \<Longrightarrow> fst (nb_socket d t w) < 0 \<Longrightarrow> took {} w0 (snd (nb_socket d t w))"
  "took {} w0 w \<Longrightarrow> \<not> fst (nb_socket d t w) < 0 \<Longrightarrow> took {fst (nb_socket d t w)} w0 (snd (nb_socket d t w))"
  using took_socket [OF _ prod.collapse [symmetric], of w0 w d t True] by (simp_all add: nb_socket_def split_beta split: if_splits)

lemma took_close: "took {fd} w0 w \<Longrightarrow> took {} w0 (close_fd fd w)"
  by (auto simp: took_def held_def close_fd_def fds_snoc)

lemma took_add:
  assumes "took D w0 w" "\<And>r w'. took D w0 w' \<Longrightarrow> Q (r, w')"
  shows "ens (add_event t fd e w) Q"
proof (rule ensI, clarify)
  fix r w' assume a: "add_event t fd e w = Some (r, w')"
  then have "w_os w' = w_os w"
    by (auto simp: add_event_def bind_eq_Some_conv split_beta Let_def upd_def in_pool_def call_def split: if_splits)
  with add_event_held [OF a] assms show "Q (r, w')" by (simp add: took_def)
qed

lemma took_upd: "took D w0 w \<Longrightarrow> (\<And>w'. took D w0 w' \<Longrightarrow> Q w') \<Longrightarrow> ens (upd v f w) Q"
  by (rule ensI) (auto simp: took_def upd_def held_def split: if_splits)

lemmas tcg = took_balanced [OF _ sock_opts_balanced] took_add took_upd

lemma create_conn_took:
  "ens (create_conn val dst ty w) (\<lambda>(r, w'). if r = 0 then \<exists>fd. took {fd} w w' else took {} w w')"
  unfolding create_conn_def fail_close_def
  by (auto simp: split_beta Let_def split: option.split intro!: tcg [of _ w] took_new took_close)

section \<open>Properties\<close>

text \<open>C10: \<open>create_conn\<close> does not leak descriptors. If it reports an error, on whichever of its many error
  paths, the process holds exactly the descriptors it held before; if it succeeds, it holds exactly one
  more.\<close>

theorem create_conn_closes:
  assumes "fresh_fds (w_os w)" "create_conn val dst ty w = Some (r, w')"
  shows "if r = 0 then \<exists>fd. fd \<notin> fds (w_hist w) \<and> fds (w_hist w') = insert fd (fds (w_hist w))
         else fds (w_hist w') = fds (w_hist w)"
  using ensD [OF create_conn_took assms(2)] assms(1) by (auto simp: took_def held_def split: if_splits)

subsection \<open>Concrete runs\<close>

lemma finite_fds [simp]: "finite (fds h)"
proof (induction h rule: rev_induct)
  case (snoc cr h)
  then show ?case by (cases "(cr, fds h)" rule: fds_step.cases) (simp_all add: fds_snoc)
qed (simp add: fds_def)

text \<open>A kernel that gives out descriptors that are not in use and refuses every connection.\<close>

definition next_fd :: "history \<Rightarrow> int" where
  "next_fd h = Max (insert 2 (fds h)) + 1"

definition refusing_os :: "history \<Rightarrow> syscall \<Rightarrow> sysret" where
  "refusing_os h c = (case c of
     Socket d t nb \<Rightarrow> ok_ret (next_fd h)
   | Accept4 fd \<Rightarrow> ok_ret (next_fd h)
   | Memfd_create \<Rightarrow> ok_ret (next_fd h)
   | Epoll_create n \<Rightarrow> ok_ret (next_fd h)
   | Connect fd a \<Rightarrow> err_ret ECONNREFUSED
   | _ \<Rightarrow> ok_ret 0)"

lemma next_fd: "2 < next_fd h" "next_fd h \<notin> fds h"
proof -
  have "x \<le> Max (insert 2 (fds h))" if "x = 2 \<or> x \<in> fds h" for x
    using that by (intro Max_ge) auto
  from this [of 2] this [of "next_fd h"] show "2 < next_fd h" "next_fd h \<notin> fds h"
    by (auto simp: next_fd_def)
qed

lemma refusing_fresh: "fresh_fds refusing_os"
  using next_fd by (auto simp: fresh_fds_def refusing_os_def ok_ret_def)

theorem create_conn_closes_witness:
  "\<exists>w'. create_conn 1 (zero_addr\<lparr>sa_family := AF_INET6\<rparr>) EV_CONNECT (sample_world\<lparr>w_os := refusing_os\<rparr>) = Some (- 1, w') \<and>
     fds (w_hist w') = {}"
proof -
  let ?w = "sample_world\<lparr>w_os := refusing_os\<rparr>"
  obtain w' where w': "create_conn 1 (zero_addr\<lparr>sa_family := AF_INET6\<rparr>) EV_CONNECT ?w = Some (- 1, w')"
    by (simp add: create_conn_def sock_opts_def socket_mod_def nb_socket_def sample_world_def sample_params_def
        map_fix_def call_def sys_def call_if_def Let_def refusing_os_def ok_ret_def err_ret_def fail_close_def
        next_fd_def fds_def ECONNREFUSED_def EINPROGRESS_def EAGAIN_def AF_INET_def AF_INET6_def)
  have "fresh_fds (w_os ?w)" "fds (w_hist ?w) = {}"
    using refusing_fresh by (simp_all add: fds_def sample_world_def)
  with create_conn_closes [OF _ w'] w' show ?thesis by simp
qed

end
