(* ===== verification/Teardown.thy ===== *)
theory Teardown
  imports Loop Descriptors
begin

text \<open>
  The end of the loop: what \<open>destroy_pool\<close> closes, and with it the account of the descriptors of
  \<open>event_loop\<close> and \<open>run\<close> as a whole: they give back what they took.
\<close>

section \<open>Lemmas\<close>

lemma fds_closes: "map fst h = map Close l \<Longrightarrow> fds (h0 @ h) = fds h0 - set l"
proof (induction l arbitrary: h0 h)
  case (Cons x l)
  then obtain r h' where h: "h = (Close x, r) # h'" "map fst h' = map Close l"
    by (cases h) auto
  from Cons.IH [OF h(2), of "h0 @ [(Close x, r)]"] show ?case by (auto simp: h(1) fds_snoc)
qed simp

lemma destroy_links_closes:
  assumes "distinct vs" "\<forall>v\<in>set vs. v < length (items w) \<and> v_fd (items w ! v) \<noteq> 0"
  shows "\<exists>w' h. destroy_links vs w = Some w' \<and> p_efd (w_pool w') = p_efd (w_pool w) \<and> w_os w' = w_os w \<and>
    w_hist w' = w_hist w @ h \<and> map fst h = map Close (map (\<lambda>v. v_fd (items w ! v)) vs)"
  using assms
proof (induction vs arbitrary: w)
  case (Cons v vs)
  define w1 where "w1 = close_fd (v_fd (items w ! v)) w"
  obtain r where w1: "w_pool w1 = w_pool w" "w_hist w1 = w_hist w @ [(Close (v_fd (items w ! v)), r)]" "w_os w1 = w_os w"
    by (simp add: w1_def close_fd_def sys_def Let_def)
  obtain w2 where w2: "upd v (\<lambda>e. e\<lparr>v_fd := 0, v_buff := (v_buff e)\<lparr>b_data := None\<rparr>\<rparr>) w1 = Some w2"
    using Cons.prems w1 by (simp add: upd_def)
  have w2': "w_hist w2 = w_hist w1" "p_efd (w_pool w2) = p_efd (w_pool w)" "length (items w2) = length (items w)"
      "\<And>u. u \<noteq> v \<Longrightarrow> items w2 ! u = items w ! u" "w_os w2 = w_os w"
    using w2 w1(1,3) by (auto simp: upd_def split: if_splits)
  have n: "\<forall>u\<in>set vs. u \<noteq> v" using Cons.prems(1) by auto
  then obtain w' h where "destroy_links vs w2 = Some w'" "p_efd (w_pool w') = p_efd (w_pool w2)" "w_os w' = w_os w2"
      "w_hist w' = w_hist w2 @ h" "map fst h = map Close (map (\<lambda>v. v_fd (items w2 ! v)) vs)"
    using Cons.IH [of w2] Cons.prems w2' by auto
  moreover have "map (\<lambda>u. v_fd (items w2 ! u)) vs = map (\<lambda>u. v_fd (items w ! u)) vs"
    using w2'(4) n by simp
  moreover have "destroy_links (v # vs) w = destroy_links vs w2"
    using Cons.prems w2 by (simp add: ev_def w1_def)
  ultimately show ?case using w1(2) w2' by simp
qed simp

text \<open>Destroying a pool whose slots are well formed closes what the connections in use own, and \<open>epoll\<close>.\<close>

lemma destroy_pool_hist:
  assumes "slots_ok w" "p_efd (w_pool w) \<noteq> 0"
  obtains w' h where "destroy_pool w = Some w'" "w_os w' = w_os w" "w_hist w' = w_hist w @ h"
    "map fst h = map Close (map (\<lambda>v. v_fd (items w ! v)) (take (p_count (w_pool w)) (p_links (w_pool w))) @ [p_efd (w_pool w)])"
proof -
  let ?vs = "take (p_count (w_pool w)) (p_links (w_pool w))"
  have "distinct ?vs" using assms(1) by (simp add: slots_ok_def Let_def)
  moreover have "v < length (items w) \<and> v_fd (items w ! v) \<noteq> 0" if "v \<in> set ?vs" for v
  proof -
    have "v \<in> live w" using that by (simp add: live_def)
    from live_index(3,4) [OF assms(1) this] show ?thesis using assms(1) by (simp add: slots_ok_def Let_def)
  qed
  ultimately obtain w1 h where w1: "destroy_links ?vs w = Some w1" "p_efd (w_pool w1) = p_efd (w_pool w)" "w_os w1 = w_os w"
    "w_hist w1 = w_hist w @ h" "map fst h = map Close (map (\<lambda>v. v_fd (items w ! v)) ?vs)"
    using destroy_links_closes by blast
  with assms have d: "destroy_pool w = Some ((close_fd (p_efd (w_pool w)) w1)\<lparr>w_pool := zero_pool\<rparr>)"
    by (simp add: destroy_pool_def slots_ok_def Let_def)
  show ?thesis
    by (rule that [OF d, of "h @ [(Close (p_efd (w_pool w)), w_os w (w_hist w @ h) (Close (p_efd (w_pool w))))]"]) (use w1 in \<open>simp_all add: close_fd_def sys_def Let_def\<close>)
qed

lemma destroy_pool_held:
  assumes "slots_ok w" "p_efd (w_pool w) \<noteq> 0" "destroy_pool w = Some w'"
  shows "held w' = held w - slot_fds w - {p_efd (w_pool w)}"
proof -
  obtain w'' h where "destroy_pool w = Some w''" "w_hist w'' = w_hist w @ h"
    "map fst h = map Close (map (\<lambda>v. v_fd (items w ! v)) (take (p_count (w_pool w)) (p_links (w_pool w))) @ [p_efd (w_pool w)])"
    by (rule destroy_pool_hist [OF assms(1,2)])
  with assms(3) fds_closes [OF this(3), of "w_hist w"] show ?thesis
    by (auto simp: held_def slot_fds_def live_def)
qed

lemma steady_destroyed:
  assumes "steady B (i, w)" "destroy_pool w = Some w'"
  shows "held w' = B"
proof -
  have s: "slots_ok w" "p_efd (w_pool w) \<noteq> 0" using assms(1) by (auto simp: steady_def Inv_def pool_inv_def)
  from destroy_pool_held [OF s assms(2)] assms(1) show ?thesis by (auto simp: steady_def owner_def)
qed

lemma held_close [simp]: "held (close_fd fd w) = held w - {fd}"
  by (simp add: held_def close_fd_def fds_snoc)

lemma held_buffer [simp]: "held (w\<lparr>w_buffer := b\<rparr>) = held w"
  by (simp add: held_def)

lemma init_pool_fails:
  assumes "fresh_fds (w_os w)" "init_pool junk n w = Some (False, w1)"
  shows "held w1 = held w"
proof -
  obtain r1 x1 where 1: "call (Malloc 48) w = (r1, x1)" by fastforce
  obtain efd x2 where 2: "call (Epoll_create n) x1 = (efd, x2)" by fastforce
  obtain r3 x3 where 3: "call (Malloc (16 * n)) x2 = (r3, x3)" by fastforce
  obtain r4 x4 where 4: "call (Malloc (8 * n)) x3 = (r4, x4)" by fastforce
  obtain r5 x5 where 5: "call (Malloc (96 * n)) x4 = (r5, x5)" by fastforce
  have o: "opened {} w x1" "opened {} x2 x5"
    using opened_call_eq [OF 1, of "{}" w] opened_call_eq [OF 3, of "{}" x2] opened_call_eq [OF 4, of "{}" x2]
      opened_call_eq [OF 5, of "{}" x2] by simp_all
  show ?thesis
  proof (cases "efd < 0")
    case True
    then have "held x2 = held x1" using 2 by (auto simp: call_def sys_def Let_def held_def fds_snoc)
    with assms(2) o(1) True show ?thesis
      by (auto simp: init_pool_def 1 2 3 4 5 Let_def bind_eq_Some_conv opened_def split: if_splits)
  next
    case False
    then have e: "efd = r_ret (w_os x1 (w_hist x1) (Epoll_create n))" "held x2 = insert efd (held x1)"
      using 2 by (auto simp: call_def sys_def Let_def held_def fds_snoc)
    then have n: "2 < efd" "efd \<notin> held x1"
      using assms(1) [unfolded fresh_fds_def, rule_format, of "Epoll_create n" "w_hist x1"] o(1) False
      by (auto simp: opened_def held_def)
    let ?x = "x5\<lparr>w_pool := zero_pool\<lparr>p_max := n, p_efd := efd\<rparr>\<rparr>"
    have "destroy_pool ?x = Some w1 \<Longrightarrow> held w1 = held x5 - {efd}"
      using n(1) by (auto simp: destroy_pool_def zero_pool_def held_def close_fd_def fds_snoc)
    with assms(2) o e n False show ?thesis
      by (auto simp: init_pool_def 1 2 3 4 5 Let_def bind_eq_Some_conv opened_def split: if_splits)
  qed
qed

text \<open>Every way out of \<open>event_loop\<close> gives back what was opened, and the listening socket.\<close>

lemma served_held:
  assumes "fresh_fds (w_os w)" "reports_registered (w_os w)" "srvfd \<in> held w"
    and i: "init_pool junk (pr_max_open (w_params w) * 2 + 1) w = Some (True, w1)"
    and a: "add_event EV_ACCEPT srvfd POLLIN w1 = Some (Some v, w2)"
    and m: "call (Malloc (pr_bfsize (w_params w2))) w2 = (m, w3)" "\<not> m < 0"
    and l: "main_loop (pr_bfsize (w_params w2)) (- 1) (w3\<lparr>w_buffer := jbuf (pr_bfsize (w_params w2))\<rparr>) = Some w4"
      "destroy_pool (w4\<lparr>w_buffer := []\<rparr>) = Some w'"
    and it: "\<And>i x. reached junk jbuf srvfd w i x \<Longrightarrow> p_iters (w_pool x) \<noteq> - 1"
  shows "held w' = held w - {srvfd}"
proof -
  let ?b = "pr_bfsize (w_params w2)" and ?w3 = "w3\<lparr>w_buffer := jbuf (pr_bfsize (w_params w2))\<rparr>"
    and ?B = "held w - {srvfd}"
  have e: "enters junk jbuf srvfd w ?w3" using enters [OF i a m(1)] m(2) by simp
  have "w_params w2 = w_params w" using init_pool_inv [OF i a] by (simp add: keeps_def)
  then have n: "rtranclp (turn ?b) (- 1, ?w3) (j, x) \<Longrightarrow> p_iters (w_pool x) \<noteq> - 1" for j x
    using it e by (auto simp: reached_def)
  have "steady ?B (- 1, ?w3)" using steady_call [OF start_steady [OF assms(1-3) i a] m(1)] by simp
  then obtain j where "steady ?B (j, w4)"
    using main_loop_steady [of ?b "- 1" ?w3 w4 ?B] l(1) n by blast
  then have "steady ?B (j, w4\<lparr>w_buffer := []\<rparr>)" by (simp add: steady_buffer)
  with steady_destroyed l(2) show ?thesis by blast
qed

lemma event_loop_held:
  assumes "fresh_fds (w_os w)" "reports_registered (w_os w)" "srvfd \<in> held w"
    "event_loop junk jbuf srvfd w = Some (r, w')" "\<And>i x. reached junk jbuf srvfd w i x \<Longrightarrow> p_iters (w_pool x) \<noteq> - 1"
  shows "held w' = held w - {srvfd}"
proof -
  let ?n = "pr_max_open (w_params w) * 2 + 1" and ?B = "held w - {srvfd}"
  obtain ok w1 where 1: "init_pool junk ?n w = Some (ok, w1)"
    using assms(4) by (auto simp: event_loop_def bind_eq_Some_conv)
  show ?thesis
  proof (cases ok)
    case False
    with init_pool_fails [OF assms(1)] 1 assms(4) show ?thesis by (auto simp: event_loop_def)
  next
    case True
    then have i: "init_pool junk ?n w = Some (True, w1)" using 1 by simp
    obtain v w2 where a: "add_event EV_ACCEPT srvfd POLLIN w1 = Some (v, w2)"
      using assms(4) i by (auto simp: event_loop_def bind_eq_Some_conv)
    let ?e = "p_efd (w_pool w1)"
    obtain o: "?e \<notin> held w" "held w1 = insert ?e (held w)" "w_os w1 = w_os w" "regs w1 = Map.empty" "live w1 = {}"
      "slots_ok w1" "2 < ?e"
      by (rule init_pool_opens [OF assms(1) i])
    note f = add_event_fds [OF o(6) a]
    show ?thesis
    proof (cases v)
      case None
      then obtain w3 where d: "destroy_pool w2 = Some w3" "w' = close_fd srvfd w3"
        using assms(4) i a by (auto simp: event_loop_def bind_eq_Some_conv)
      have "held w3 = held w2 - slot_fds w2 - {p_efd (w_pool w2)}"
        using destroy_pool_held [OF _ _ d(1)] f o(7) by simp
      with f o None show ?thesis by (auto simp: d(2) slot_fds_def)
    next
      case (Some v0)
      note s = start_steady [OF assms(1-3) i a [unfolded Some]]
      obtain m w3 where m: "call (Malloc (pr_bfsize (w_params w2))) w2 = (m, w3)" by fastforce
      show ?thesis
      proof (cases "m < 0")
        case True
        then have "destroy_pool w3 = Some w'" using assms(4) i a Some m by (auto simp: event_loop_def bind_eq_Some_conv)
        with steady_destroyed [OF steady_call [OF s m]] show ?thesis by simp
      next
        case False
        then show ?thesis
          using served_held [OF assms(1-3) i a [unfolded Some] m _ _ _ assms(5)] assms(4) i a Some m False
          by (auto simp: event_loop_def bind_eq_Some_conv Let_def)
      qed
    qed
  qed
qed

lemma listen_socket_opens:
  assumes "fresh_fds (w_os w)" "listen_socket srv w = (fd, w')"
  shows "w_os w' = w_os w \<and> (if fd < 0 then held w' = held w else fd \<notin> held w \<and> held w' = insert fd (held w))"
proof -
  obtain s w1 where 1: "call (Socket (sa_family srv) SOCK_STREAM True) w = (s, w1)" by fastforce
  note o = opened_socket [OF assms(1) opened_refl refl 1]
  show ?thesis
  proof (cases "s < 0")
    case True
    with o(1) 1 assms(2) show ?thesis by (auto simp: listen_socket_def nb_socket_def opened_def)
  next
    case False
    have C: "opened {s} w x \<Longrightarrow> opened {} w (close_fd s x)" for x by (rule opened_close)
    from o(2) False have "opened {s} w w1" by simp
    then have "opened (if fd < 0 then {} else {s}) w w' \<and> (0 \<le> fd \<longrightarrow> fd = s)"
      using 1 False assms(2) by (auto simp: listen_socket_def nb_socket_def Let_def split_beta split: if_splits intro!: C)
    then show ?thesis by (auto simp: opened_def split: if_splits)
  qed
qed

section \<open>Properties\<close>

text \<open>Destroying a well-formed pool reads no slot outside the pool and closes the descriptors of the
  connections in use, each once and in the order of \<open>links\<close>, and then the descriptor of \<open>epoll\<close>; it makes
  no other call.\<close>

theorem destroy_pool_closes:
  assumes "pool_inv w" "p_efd (w_pool w) \<noteq> 0"
  shows "\<exists>w'. destroy_pool w = Some w' \<and>
    map fst (w_hist w') = map fst (w_hist w) @
      map (\<lambda>v. Close (v_fd (items w ! v))) (take (p_count (w_pool w)) (p_links (w_pool w))) @ [Close (p_efd (w_pool w))]"
proof -
  have "slots_ok w" using assms(1) by (simp add: pool_inv_def)
  then obtain w' h where "destroy_pool w = Some w'" "w_hist w' = w_hist w @ h"
    "map fst h = map Close (map (\<lambda>v. v_fd (items w ! v)) (take (p_count (w_pool w)) (p_links (w_pool w))) @ [p_efd (w_pool w)])"
    by (rule destroy_pool_hist [OF _ assms(2)])
  then show ?thesis by simp
qed

theorem destroy_pool_closes_witness:
  "\<exists>w'. destroy_pool sample_world = Some w' \<and> map fst (w_hist w') = [Close 4, Close 5, Close 6, Close 3]"
proof -
  have "p_efd (w_pool sample_world) \<noteq> 0" by (simp add: sample_world_def sample_pool_def)
  from destroy_pool_closes [OF sample_inv this] show ?thesis
    by (simp add: sample_world_def sample_pool_def zero_eval_def take_Cons')
qed

text \<open>C3: the proxy gives back every descriptor it took. When \<open>run\<close> returns, with whatever result and after
  whatever the kernel answered to its calls, the process holds exactly the descriptors that it held
  before: the listening socket, the one of \<open>epoll\<close> and those of all connections are closed, on the error paths of the
  start as at the end of the loop. (The counter of batches must not have gone through all its values.)\<close>

theorem run_closes:
  assumes "fresh_fds (w_os w)" "reports_registered (w_os w)" "run junk jbuf srv w = Some (r, w')"
    "\<And>fd x i y. listen_socket srv w = (fd, x) \<Longrightarrow> reached junk jbuf fd x i y \<Longrightarrow> p_iters (w_pool y) \<noteq> - 1"
  shows "fds (w_hist w') = fds (w_hist w)"
proof -
  obtain fd x where l: "listen_socket srv w = (fd, x)" by fastforce
  note o = listen_socket_opens [OF assms(1) l]
  have "held w' = held w"
  proof (cases "fd < 0")
    case True
    with o l assms(3) show ?thesis by (auto simp: run_def)
  next
    case False
    then have "event_loop junk jbuf fd x = Some (r, w')" using l assms(3) by (simp add: run_def)
    from event_loop_held [OF _ _ _ this assms(4) [OF l]] assms(1,2) o False show ?thesis by auto
  qed
  then show ?thesis by (simp add: held_def)
qed

section \<open>A concrete run\<close>

text \<open>A kernel that keeps its promises: one client comes, then nobody, and then the process is told to
  exit.\<close>

definition came :: "history \<Rightarrow> bool" where
  "came h \<longleftrightarrow> (\<exists>(c, r)\<in>set h. c = Accept4 3)"

definition door_os :: "history \<Rightarrow> syscall \<Rightarrow> sysret" where
  "door_os h c = (case c of
     Socket d t nb \<Rightarrow> ok_ret (next_fd h)
   | Accept4 fd \<Rightarrow> if came h then err_ret EAGAIN else ok_ret (next_fd h)
   | Memfd_create \<Rightarrow> ok_ret (next_fd h)
   | Epoll_create n \<Rightarrow> ok_ret (next_fd h)
   | Epoll_wait e n \<Rightarrow> (ok_ret 1)\<lparr>r_events := if 0 \<in> ran (registered e h) then [(0, POLLIN)] else []\<rparr>
   | Signals \<Rightarrow> ok_ret (if came h then 1 else 0)
   | _ \<Rightarrow> ok_ret 0)"

definition door_world :: world where
  "door_world = sample_world\<lparr>w_os := door_os, w_params := sample_params\<lparr>pr_max_open := 2, pr_bfsize := 8\<rparr>\<rparr>"

lemma door_fresh: "fresh_fds door_os"
  using next_fd by (auto simp: fresh_fds_def door_os_def ok_ret_def err_ret_def)

lemma door_reports: "reports_registered door_os"
  by (auto simp: reports_registered_def door_os_def ok_ret_def)

lemmas door_eval = door_os_def ok_ret_def err_ret_def call_def sys_def Let_def


definition door_listen :: world where
  "door_listen = snd (listen_socket zero_addr door_world)"

definition door_start :: world where
  "door_start = door_listen\<lparr>w_hist := [(Socket 0 SOCK_STREAM True, ok_ret 3), (Setsockopt 3 (So_reuseaddr 1), ok_ret 0),
      (Bind 3 zero_addr, ok_ret 0), (Listen 3 10, ok_ret 0), (Malloc 48, ok_ret 0), (Epoll_create 5, ok_ret 4),
      (Malloc 80, ok_ret 0), (Malloc 40, ok_ret 0), (Malloc 480, ok_ret 0),
      (Epoll_ctl 4 EPOLL_CTL_ADD 3 (POLLRDHUP OR POLLIN) 0, ok_ret 0), (Malloc 8, ok_ret 0)],
     w_pool := \<lparr>p_max = 5, p_count = 1, p_efd = 4, p_links = [0, 1, 2, 3, 4],
       p_items = [zero_eval\<lparr>v_fd := 3\<rparr>, zero_eval, zero_eval, zero_eval, zero_eval], p_pevents = [], p_iters = 0\<rparr>,
     w_buffer := replicate 8 0\<rparr>"

definition door_next :: world where
  "door_next = snd (snd (the (loop_step 8 (- 1) (poll_signals door_start))))"

lemmas door_defs = door_world_def sample_world_def sample_params_def door_listen_def

lemma zero_addr_family [simp]: "sa_family zero_addr = 0"
  by (simp add: zero_addr_def)

lemma door_listens: "listen_socket zero_addr door_world = (3, door_listen)"
  by (simp add: door_defs listen_socket_def nb_socket_def door_eval next_fd_def fds_def)

lemma door_params: "pr_max_open (w_params door_listen) = 2" "pr_bfsize (w_params door_listen) = 8"
  by (simp_all add: door_defs listen_socket_def nb_socket_def door_eval)

lemma door_opens:
  obtains w1 w2 w3 where "init_pool (\<lambda>_. zero_eval) 5 door_listen = Some (True, w1)"
    "add_event EV_ACCEPT 3 POLLIN w1 = Some (Some 0, w2)" "pr_bfsize (w_params w2) = 8"
    "call (Malloc 8) w2 = (0, w3)" "w3\<lparr>w_buffer := replicate 8 0\<rparr> = door_start"
  by (simp add: door_start_def door_defs listen_socket_def nb_socket_def door_eval next_fd_def fds_def init_pool_def
      add_event_def nth_link_def upd_def in_pool_def upt_conv_Cons zero_eval_def)

lemma door_enters: "enters (\<lambda>_. zero_eval) (\<lambda>n. replicate n 0) 3 door_listen w \<longleftrightarrow> w = door_start"
proof -
  obtain w1 w2 w3 where i: "init_pool (\<lambda>_. zero_eval) 5 door_listen = Some (True, w1)"
    "add_event EV_ACCEPT 3 POLLIN w1 = Some (Some 0, w2)" "pr_bfsize (w_params w2) = 8"
    "call (Malloc 8) w2 = (0, w3)" "w3\<lparr>w_buffer := replicate 8 0\<rparr> = door_start" by (rule door_opens)
  have n: "pr_max_open (w_params door_listen) * 2 + 1 = (5::nat)" by (simp add: door_params)
  have "enters (\<lambda>_. zero_eval) (\<lambda>n. replicate n 0) 3 door_listen door_start"
    using enters [of "\<lambda>_. zero_eval" door_listen, unfolded n, OF i(1,2), unfolded i(3), OF i(4), of "\<lambda>n. replicate n 0"] i(5)
    by simp
  moreover have "w = door_start" if "enters (\<lambda>_. zero_eval) (\<lambda>n. replicate n 0) 3 door_listen w"
    using that by (rule entersE) (use i in \<open>auto simp: n door_params\<close>)
  ultimately show ?thesis by blast
qed

lemma door_round:
  "loop_step 8 (- 1) (poll_signals door_start) = Some (True, - 1, door_next)"
  "p_iters (w_pool door_next) = 1" "slot_fds door_next = {3, 5}" "p_efd (w_pool door_next) = 4" "w_os door_next = door_os"
  "came (w_hist door_next)" "p_iters (w_pool door_start) = 0"
  apply (simp_all add: door_next_def door_start_def door_defs listen_socket_def nb_socket_def door_eval next_fd_def fds_def
    loop_step_def next_event.simps [of "- 1"] epoll_step_def nth_event_def poll_signals_def 
        in_pool_def ev_def dispatch_def on_accept.simps [of 0]
        zero_eval_def POLLIN_def POLLHUP_def POLLERR_def EAGAIN_def comply_read_def came_def registered_def add_event_def nth_link_def upd_def)
  apply (auto simp: slot_fds_def live_def)
  done


lemma door_turn: "turn 8 (- 1, door_start) s \<longleftrightarrow> s = (- 1, door_next)"
proof -
  have "round_ok (poll_signals door_start)"
    by (simp add: round_ok_def poll_signals_def door_start_def door_defs listen_socket_def nb_socket_def door_eval came_def)
  with door_round(1) turn [of door_start 8 "- 1" "- 1" door_next] show ?thesis by (cases s) (auto simp: turn.simps)
qed

lemma door_exits: "\<not> w_not_exit (poll_signals door_next)"
  by (simp add: poll_signals_def door_round door_eval)

lemma door_done: "\<not> turn 8 (- 1, door_next) s"
  by (cases s) (simp add: turn.simps round_ok_def door_exits)

lemma door_reached: "reached (\<lambda>_. zero_eval) (\<lambda>n. replicate n 0) 3 door_listen i w \<longleftrightarrow>
    i = - 1 \<and> (w = door_start \<or> w = door_next)"
proof -
  have "rtranclp (turn 8) (- 1, door_next) s \<longleftrightarrow> s = (- 1, door_next)" for s
    by (metis converse_rtranclpE door_done rtranclp.rtrancl_refl)
  then have "rtranclp (turn 8) (- 1, door_start) s \<longleftrightarrow> s = (- 1, door_start) \<or> s = (- 1, door_next)" for s
    by (metis converse_rtranclpE converse_rtranclp_into_rtranclp door_turn rtranclp.rtrancl_refl)
  then show ?thesis by (auto simp: reached_def door_enters door_params)
qed

lemma door_kernel: "w_os door_listen = door_os" "fds (w_hist door_listen) = {3}" "w_os door_world = door_os"
  "fds (w_hist door_world) = {}"
  by (simp_all add: door_defs listen_socket_def nb_socket_def door_eval next_fd_def fds_def)

theorem event_loop_invariant_witness:
  "reached (\<lambda>_. zero_eval) (\<lambda>n. replicate n 0) 3 door_listen (- 1) door_next \<and> pool_inv door_next"
proof -
  have r: "reached (\<lambda>_. zero_eval) (\<lambda>n. replicate n 0) 3 door_listen (- 1) door_next" by (simp add: door_reached)
  have "pool_inv door_next \<and> batch_ok (- 1) door_next \<and> (\<forall>v\<in>live door_next. role_ok door_next v)"
    by (rule event_loop_invariant [OF _ _ _ r]) (simp_all add: door_kernel door_fresh door_reports)
  with r show ?thesis by simp
qed

theorem event_loop_descriptors_witness:
  "fds (w_hist door_next) = {3, 4, 5} \<and> slot_fds door_next = {3, 5}"
proof -
  have r: "reached (\<lambda>_. zero_eval) (\<lambda>n. replicate n 0) 3 door_listen (- 1) door_next" by (simp add: door_reached)
  have "fds (w_hist door_next) = (fds (w_hist door_listen) - {3}) \<union> {p_efd (w_pool door_next)} \<union> slot_fds door_next"
    using event_loop_descriptors [OF _ _ _ r] by (simp add: door_kernel door_fresh door_reports)
  with door_round show ?thesis by (auto simp: door_kernel)
qed

lemma door_runs:
  obtains w where "run (\<lambda>_. zero_eval) (\<lambda>n. replicate n 0) zero_addr door_world = Some (0, w)"
proof -
  obtain w1 w2 w3 where i: "init_pool (\<lambda>_. zero_eval) 5 door_listen = Some (True, w1)"
    "add_event EV_ACCEPT 3 POLLIN w1 = Some (Some 0, w2)" "pr_bfsize (w_params w2) = 8"
    "call (Malloc 8) w2 = (0, w3)" "w3\<lparr>w_buffer := replicate 8 0\<rparr> = door_start" by (rule door_opens)
  let ?w = "(poll_signals door_next)\<lparr>w_buffer := []\<rparr>"
  have "main_loop 8 (- 1) door_start = main_loop 8 (- 1) door_next"
    using door_turn [of "(- 1, door_next)"] by (simp add: main_loop.simps [of 8 "- 1" door_start] turn.simps round_ok_def)
  also have "\<dots> = Some (poll_signals door_next)"
    by (simp add: main_loop.simps [of 8 "- 1" door_next] door_exits)
  finally have m: "main_loop 8 (- 1) door_start = Some (poll_signals door_next)" .
  have "steady (held door_listen - {3}) (- 1, door_next)"
    by (rule reached_steady [of _ _ "\<lambda>_. zero_eval" "\<lambda>n. replicate n 0"])
      (simp_all add: door_kernel door_fresh door_reports door_reached held_def)
  then have "steady (held door_listen - {3}) (- 1, ?w)" using steady_poll_signals by simp
  then have "slots_ok ?w" "p_efd (w_pool ?w) \<noteq> 0" by (auto simp: steady_def Inv_def pool_inv_def)
  then obtain w' where "destroy_pool ?w = Some w'" by (rule destroy_pool_hist)
  with i m show ?thesis
    by (intro that [of w']) (simp add: run_def door_listens event_loop_def door_params)
qed

theorem run_closes_witness:
  "\<exists>w. run (\<lambda>_. zero_eval) (\<lambda>n. replicate n 0) zero_addr door_world = Some (0, w) \<and> fds (w_hist w) = {}"
proof -
  obtain w where w: "run (\<lambda>_. zero_eval) (\<lambda>n. replicate n 0) zero_addr door_world = Some (0, w)" by (rule door_runs)
  have "fds (w_hist w) = fds (w_hist door_world)"
    by (rule run_closes [OF _ _ w]) (auto simp: door_kernel door_fresh door_reports door_listens door_reached door_round)
  with w show ?thesis by (simp add: door_kernel)
qed

end
