(* ===== verification/Lifecycle.thy ===== *)
theory Lifecycle
  imports Native Teardown
begin

text \<open>
  The entry points for Java while the proxy runs. \<open>jniStartProxy\<close> stays in the event loop; other
  threads call \<open>jniStopProxy\<close> and \<open>jniForceClose\<close> meanwhile. These share with the loop the kernel, and
  \<open>server_fd\<close>, a variable that nothing sets to a descriptor of the proxy. Calls between the rounds of the loop
  keep its invariant and its account of the descriptors; so does a second start, which is refused.
\<close>

section \<open>Definitions\<close>

text \<open>A step while the thread of \<open>jniStartProxy\<close> is in the loop: a round of the loop, or a call of an
  entry point from another thread.\<close>

inductive life :: "nat \<Rightarrow> int \<times> native \<Rightarrow> int \<times> native \<Rightarrow> bool" for b where
  round: "turn b (i, n_world s) (i', w') \<Longrightarrow> life b (i, s) (i', s\<lparr>n_world := w'\<rparr>)"
| stop: "jniStopProxy s = (r, s') \<Longrightarrow> life b (i, s) (i, s')"
| force: "n_server_fd s \<notin> fds (w_hist (n_world s)) \<Longrightarrow> jniForceClose s = (r, s') \<Longrightarrow> life b (i, s) (i, s')"
| start: "n_running s \<Longrightarrow> jniStartProxy getopt msec junk jbuf args s = Some (r, s') \<Longrightarrow> life b (i, s) (i, s')"

inductive_cases lifeE: "life b (i, s) t"

section \<open>Lemmas\<close>

lemma steady_close:
  assumes "steady B (i, w)" "fd \<notin> held w" "call (Close fd) w = (r, w')"
  shows "steady B (i, w')"
proof -
  have w': "w_pool w' = w_pool w" "w_os w' = w_os w" "held w' = held w" "regs w' \<subseteq>\<^sub>m regs w"
    using assms(2,3) by (auto simp: call_def sys_def Let_def held_def fds_snoc regs_def registered_snoc map_le_def split: if_splits)
  have "hand {} w w'"
    by (rule hand_cong [OF hand_refl [of w]]) (simp_all add: w' live_def)
  moreover have "Inv i w'" using assms(1) Inv_same [OF w'(1)] by (simp add: steady_def)
  ultimately show ?thesis using steady_hand [OF assms(1)] by blast
qed

lemma life_steady: "steady B (i, n_world s) \<Longrightarrow> life b (i, s) (i', s') \<Longrightarrow> steady B (i', n_world s')"
proof (erule lifeE, goal_cases)
  case (1 i'' w')
  then show ?case using turn_steady by simp
next
  case (2 r s'')
  show ?case
  proof (cases "n_running s")
    case True
    with 2 steady_call [OF 2(1) prod.collapse [symmetric], of "Shutdown (n_server_fd s)"] show ?thesis
      by (auto simp: jniStopProxy_def)
  qed (use 2 in \<open>simp add: jniStopProxy_def\<close>)
next
  case (3 r s'')
  obtain c w where c: "call (Close (n_server_fd s)) (n_world s) = (c, w)" by fastforce
  have "steady B (i, w)" by (rule steady_close [OF 3(1) _ c]) (use 3(3) in \<open>simp add: held_def\<close>)
  with 3 c show ?case by (auto simp: jniForceClose_def split: if_splits)
qed (simp add: jniStartProxy_def)

interpretation lives: safe_steps "life b" "\<lambda>(i, s). steady B (i, n_world s)" for b B
  by unfold_locales (auto intro: life_steady)

section \<open>Properties\<close>



end
