(* ===== verification/Cache.thy ===== *)
theory Cache
  imports Frames
begin

text \<open>
  The cache of strategies per address, as a finite map: \<open>mode_add_get\<close> refines lookup, insertion and
  deletion on a map from keys to a strategy with the time of the choice, whatever tree it works on. And
  what the key is: all of an IPv4 address, but not all of an IPv6 address.
\<close>

section \<open>Definitions\<close>

text \<open>The abstract cache, and the three operations on it: \<open>now\<close> is the time that the kernel tells, \<open>ok\<close>
  whether the allocations succeed.\<close>

type_synonym cache = "byte list \<Rightarrow> (int \<times> int) option"

definition cache_of :: "mphdr \<Rightarrow> cache" where
  "cache_of hdr k = map_option (\<lambda>e. (elem_m e, elem_time e)) (entries hdr k)"

definition cache_spec :: "int \<Rightarrow> byte list \<Rightarrow> int \<Rightarrow> int \<Rightarrow> bool \<Rightarrow> cache \<Rightarrow> int \<times> cache" where
  "cache_spec m k now ttl ok c =
     (if m = 0 then (0, c(k := None))
      else if m > 0 then (if ok then (0, c(k \<mapsto> (m, now))) else (- 1, c))
      else (case c k of None \<Rightarrow> (- 1, c) | Some (s, t) \<Rightarrow> (if now > t + ttl then 0 else s, c)))"

text \<open>The time that the next call of \<open>time\<close> tells.\<close>

definition clock :: "world \<Rightarrow> int" where
  "clock w = r_ret (w_os w (w_hist w) Time)"

definition cache_w :: "world \<Rightarrow> cache" where
  "cache_w w = (case pr_mempool (w_params w) of None \<Rightarrow> Map.empty | Some hdr \<Rightarrow> cache_of hdr)"

text \<open>The cache in a state where \<open>main\<close> has made it, and the same with room for one more address.\<close>

definition cache_wf :: "world \<Rightarrow> bool" where
  "cache_wf w \<longleftrightarrow> (\<exists>hdr. pr_mempool (w_params w) = Some hdr \<and> pool_ok hdr)"

definition cache_ok :: "world \<Rightarrow> bool" where
  "cache_ok w \<longleftrightarrow> (\<exists>hdr. pr_mempool (w_params w) = Some hdr \<and> pool_ok hdr \<and> room hdr)"

section \<open>Lemmas\<close>

lemma cache_of_upd:
  "entries hdr' = (entries hdr)(k := v) \<Longrightarrow>
     cache_of hdr' = (cache_of hdr)(k := map_option (\<lambda>e. (elem_m e, elem_time e)) v)"
  by (auto simp: cache_of_def fun_eq_iff)

lemma cache_w_set [simp]: "cache_w (set_mempool hdr w) = cache_of hdr"
  by (simp add: cache_w_def set_mempool_def)

lemma set_mempool_keeps [simp]:
  "w_pool (set_mempool hdr w) = w_pool w" "w_os (set_mempool hdr w) = w_os w"
  "w_params (set_mempool hdr w) = (w_params w)\<lparr>pr_mempool := Some hdr\<rparr>"
  by (simp_all add: set_mempool_def)

lemma call_params [simp]: "w_params (snd (call c w)) = w_params w"
  by (simp add: call_def split_beta)

lemma call_Time: "call Time w = (clock w, snd (call Time w))"
  by (simp add: call_def sys_def clock_def Let_def)

lemma Malloc_facts:
  "call (Malloc n) w = (r, w') \<Longrightarrow> w_pool w' = w_pool w \<and> w_params w' = w_params w \<and> w_os w' = w_os w \<and>
     r = r_ret (w_os w (w_hist w) (Malloc n))"
  by (auto simp: call_def sys_def Let_def)

lemma pool_mem_add_cache:
  assumes "pool_ok hdr" "room hdr"
  shows "\<exists>v hdr' w' c ml. pool_mem_add hdr s w = Some (v, hdr', w') \<and> mem_add c ml hdr s = Some (v, hdr') \<and>
    w_pool w' = w_pool w \<and> w_params w' = w_params w \<and> ((\<forall>h n. 0 \<le> r_ret (w_os w h (Malloc n))) \<longrightarrow> v \<noteq> None)"
proof -
  obtain c w1 where c: "call (Malloc 56) w = (c, w1)" by fastforce
  obtain m w2 where m: "(if 0 \<le> c \<and> \<not> stat hdr then call (Malloc (length s)) w1 else (0, w1)) = (m, w2)"
    by fastforce
  note f = Malloc_facts [OF c]
  have g: "w_pool w2 = w_pool w1" "w_params w2 = w_params w1"
      "0 \<le> c \<and> \<not> stat hdr \<Longrightarrow> m = r_ret (w_os w1 (w_hist w1) (Malloc (length s)))"
    using m Malloc_facts [of "length s" w1 m w2] by (simp_all split: if_splits)
  have w: "w_pool w2 = w_pool w" "w_params w2 = w_params w" using f g by simp_all
  have ok: "0 \<le> c \<and> (stat hdr \<or> 0 \<le> m)" if "\<forall>h n. 0 \<le> r_ret (w_os w h (Malloc n))"
    using f g(3) that by auto
  obtain v hdr' where a: "mem_add (0 \<le> c) (0 \<le> m) hdr s = Some (v, hdr')" "v \<noteq> None \<longleftrightarrow> 0 \<le> c \<and> (stat hdr \<or> 0 \<le> m)"
    using pool_map.put_total [OF assms, of "0 \<le> c" "0 \<le> m" s] by (elim exE conjE) (rule that)
  show ?thesis
    using a w ok
    by (intro exI [of _ v] exI [of _ hdr'] exI [of _ w2] exI [of _ "0 \<le> c"] exI [of _ "0 \<le> m"])
      (simp add: pool_mem_add_def c m)
qed

text \<open>A call of \<open>mode_add_get\<close> returns, does what the abstract cache does, and changes nothing but the cache.\<close>

definition serves :: "sockaddr_ina \<Rightarrow> int \<Rightarrow> world \<Rightarrow> bool" where
  "serves dst m w \<longleftrightarrow> (\<exists>r w' ok. mode_add_get dst m w = Some (r, w') \<and>
    (r, cache_w w') = cache_spec m (cache_key dst) (clock w) (pr_cache_ttl (w_params w)) ok (cache_w w) \<and>
    ((\<forall>h n. 0 \<le> r_ret (w_os w h (Malloc n))) \<longrightarrow> ok) \<and> w_pool w' = w_pool w \<and>
    cache_wf w' \<and> w_params w' = (w_params w)\<lparr>pr_mempool := pr_mempool (w_params w')\<rparr>)"

lemma serves_forget:
  assumes "cache_ok w" "0 < int (length (pr_dp (w_params w)))"
  shows "serves dst 0 w"
proof -
  let ?k = "cache_key dst"
  obtain hdr where hdr: "pr_mempool (w_params w) = Some hdr" "pool_ok hdr" "room hdr"
    using assms(1) by (auto simp: cache_ok_def)
  have c: "cache_w w = cache_of hdr" by (simp add: cache_w_def hdr)
  obtain hdr' where d: "mem_delete hdr ?k = Some hdr'" "pool_ok hdr'" "entries hdr' = (entries hdr)(?k := None)"
    using pool_map.del_law [OF hdr(2,3)] by blast
  then show ?thesis
    using assms(2) hdr c cache_of_upd [OF d(3)]
    unfolding serves_def by (intro exI [of _ 0] exI [of _ "set_mempool hdr' w"] exI [of _ True])
      (simp add: mode_add_get_def cache_spec_def cache_wf_def)
qed

lemma serves_store:
  assumes "cache_ok w" "m < int (length (pr_dp (w_params w)))" "m > 0"
  shows "serves dst m w"
proof -
  let ?k = "cache_key dst"
  obtain hdr where hdr: "pr_mempool (w_params w) = Some hdr" "pool_ok hdr" "room hdr"
    using assms(1) by (auto simp: cache_ok_def)
  have c: "cache_w w = cache_of hdr" by (simp add: cache_w_def hdr)
  define w1 where "w1 = snd (call Time w)"
  have w1: "call Time w = (clock w, w1)" "w_os w1 = w_os w" "w_pool w1 = w_pool w" "w_params w1 = w_params w"
    using call_Time [of w] by (simp_all add: w1_def) (simp_all add: call_def split_beta)
  obtain v hdr' w' ca ml where a: "pool_mem_add hdr ?k w1 = Some (v, hdr', w')" "mem_add ca ml hdr ?k = Some (v, hdr')"
      "w_pool w' = w_pool w1" "w_params w' = w_params w1" "(\<forall>h n. 0 \<le> r_ret (w_os w1 h (Malloc n))) \<longrightarrow> v \<noteq> None"
    using pool_mem_add_cache [OF hdr(2,3)] by blast
  show ?thesis
  proof (cases v)
    case None
    have "hdr' = hdr" using pool_map.put_failed [OF hdr(2,3)] a(2) None by simp
    with a w1 assms(2,3) hdr c None show ?thesis
      unfolding serves_def by (intro exI [of _ "- 1"] exI [of _ "set_mempool hdr w'"] exI [of _ False])
        (simp add: mode_add_get_def cache_spec_def cache_wf_def)
  next
    case (Some e0)
    obtain e where e: "pool_ok (mem_set hdr' ?k m (clock w))"
        "entries (mem_set hdr' ?k m (clock w)) = (entries hdr)(?k \<mapsto> e\<lparr>elem_m := m, elem_time := clock w\<rparr>)"
      using pool_map.remember [OF hdr(2,3) a(2) [unfolded Some]] by blast
    from cache_of_upd [OF e(2)] e(1) a w1 assms(2,3) hdr c Some show ?thesis
      unfolding serves_def by (intro exI [of _ 0] exI [of _ "set_mempool (mem_set hdr' ?k m (clock w)) w'"] exI [of _ True])
        (simp add: mode_add_get_def cache_spec_def cache_wf_def)
  qed
qed

lemma serves_ask:
  assumes "cache_ok w" "- 1 < int (length (pr_dp (w_params w)))"
  shows "serves dst (- 1) w"
proof -
  let ?k = "cache_key dst"
  obtain hdr where hdr: "pr_mempool (w_params w) = Some hdr" "pool_ok hdr" "room hdr"
    using assms(1) by (auto simp: cache_ok_def)
  have c: "cache_w w = cache_of hdr" by (simp add: cache_w_def hdr)
  obtain w1 where w1: "call Time w = (clock w, w1)" "w_params w1 = w_params w" "w_pool w1 = w_pool w"
    using call_Time [of w] by (metis call_params call_pool surjective_pairing)
  have wf: "cache_wf w" "cache_wf w1" "cache_w w1 = cache_w w"
    using hdr w1 by (simp_all add: cache_wf_def cache_w_def)
  show ?thesis
  proof (cases "entries hdr ?k")
    case None
    with assms(2) hdr c wf show ?thesis
      unfolding serves_def by (intro exI [of _ "- 1"] exI [of _ w] exI [of _ True])
        (simp add: mode_add_get_def cache_spec_def mem_get_entries cache_of_def)
  next
    case (Some e)
    with assms(2) hdr c wf w1 show ?thesis
      unfolding serves_def by (intro exI [of _ "if elem_time e + pr_cache_ttl (w_params w) < clock w then 0 else elem_m e"]
          exI [of _ w1] exI [of _ True])
        (simp add: mode_add_get_def cache_spec_def mem_get_entries cache_of_def)
  qed
qed

lemma mode_add_get_contract:
  assumes "cache_ok w" "- 1 \<le> m" "m < int (length (pr_dp (w_params w)))"
  shows "serves dst m w"
proof -
  consider "m = 0" | "m > 0" | "m = - 1" using assms(2) by linarith
  then show ?thesis using serves_forget serves_store serves_ask assms by cases auto
qed

section \<open>Properties\<close>


lemma sample_cache_ok: "cache_ok sample_world"
  by (simp add: cache_ok_def sample_world_def sample_params_def pool_ok_def room_def bst_def)


lemma le16_inj: "x < 65536 \<Longrightarrow> y < 65536 \<Longrightarrow> le16 x = le16 y \<Longrightarrow> x = y"
  by (metis be16_value le16_def list.inject)

text \<open>The key of the cache tells IPv4 endpoints apart: two addresses with the same key have the same
  address and port.\<close>

lemma cache_key_ipv4:
  assumes "addr_ok a" "addr_ok b" "sa_family a = AF_INET" "sa_family b = AF_INET" "cache_key a = cache_key b"
  shows "sa_port a = sa_port b \<and> sa_word4 a = sa_word4 b"
proof -
  have k: "\<exists>zs. cache_key x = le16 AF_INET @ le16 (sa_port x) @ sa_word4 x @ zs" if "addr_ok x" "sa_family x = AF_INET" for x
    using that by (auto simp: cache_key_def sa_bytes_def addr_ok_def le16_def)
  obtain ys zs where "le16 (sa_port a) @ sa_word4 a @ ys = le16 (sa_port b) @ sa_word4 b @ zs"
    using k [OF assms(1,3)] k [OF assms(2,4)] assms(5) by (metis same_append_eq)
  then have "le16 (sa_port a) = le16 (sa_port b) \<and> sa_word4 a = sa_word4 b"
    using assms(1,2) by (simp add: addr_ok_def le16_def)
  then show ?thesis using assms(1,2) le16_inj [of "sa_port a" "sa_port b"] by (simp add: addr_ok_def)
qed

lemma mode_get:
  assumes "cache_wf w" "pr_dp (w_params w) \<noteq> []" "cache_w w (cache_key dst) = Some (m, t)"
    "clock w \<le> t + pr_cache_ttl (w_params w)"
  shows "mode_add_get dst (- 1) w = Some (m, snd (call Time w))"
  using assms arg_cong [OF call_Time [of w], of fst]
  by (auto simp: split_beta cache_wf_def mode_add_get_def mem_get_entries cache_w_def cache_of_def)

text \<open>C34: the key of the cache does not tell IPv6 endpoints apart: it ends two bytes before the end of the address, so
  that a strategy that was stored for one address is also the answer for every other address that
  differs from it in these two bytes only.\<close>

theorem cache_ipv6_confuses:
  assumes "cache_ok w" "0 < m" "m < int (length (pr_dp (w_params w)))"
    "sa_family a = AF_INET6" "length (sa_word4 a) = 4" "sa_addr16 a = xs @ [x, y]" "length xs = 14"
    "mode_add_get a m w = Some (0, w1)" "clock w1 \<le> clock w + pr_cache_ttl (w_params w)"
  shows "mode_add_get (a\<lparr>sa_addr16 := xs @ [x', y']\<rparr>) (- 1) w1 = Some (m, snd (call Time w1))"
proof -
  let ?b = "a\<lparr>sa_addr16 := xs @ [x', y']\<rparr>"
  have k: "cache_key ?b = cache_key a"
    using assms(4-7) by (simp add: cache_key_def sa_bytes_def le16_def AF_INET_def AF_INET6_def)
  obtain ok where "(0, cache_w w1) = cache_spec m (cache_key a) (clock w) (pr_cache_ttl (w_params w)) ok (cache_w w)"
      and w1: "cache_wf w1" "w_params w1 = (w_params w)\<lparr>pr_mempool := pr_mempool (w_params w1)\<rparr>"
    using mode_add_get_contract [OF assms(1) _ assms(3), of a] assms(2,8) by (auto simp: serves_def)
  then have "cache_w w1 (cache_key ?b) = Some (m, clock w)"
    using assms(2) k by (auto simp: cache_spec_def split: if_splits)
  moreover have "pr_dp (w_params w1) = pr_dp (w_params w)" "pr_cache_ttl (w_params w1) = pr_cache_ttl (w_params w)"
    by (subst w1(2), simp)+
  ultimately show ?thesis
    using mode_get [OF w1(1), of ?b m "clock w"] assms(2,3,9) by fastforce
qed

definition two_strategies :: world where
  "two_strategies = sample_world\<lparr>w_params := sample_params\<lparr>pr_dp := [sample_dp, sample_dp]\<rparr>\<rparr>"

theorem cache_ipv6_confuses_witness:
  "\<exists>w1 w2. let a = zero_addr\<lparr>sa_family := AF_INET6\<rparr>; b = a\<lparr>sa_addr16 := replicate 14 0 @ [1, 2]\<rparr> in
     mode_add_get a 1 two_strategies = Some (0, w1) \<and> a \<noteq> b \<and> mode_add_get b (- 1) w1 = Some (1, w2)"
proof -
  let ?a = "zero_addr\<lparr>sa_family := AF_INET6\<rparr>" let ?w = two_strategies
  have ok: "cache_ok ?w"
    using sample_cache_ok by (simp add: two_strategies_def cache_ok_def sample_world_def)
  obtain w1 where w1: "mode_add_get ?a 1 ?w = Some (0, w1)" "clock w1 = 0"
    by (simp add: mode_add_get_def two_strategies_def sample_world_def sample_params_def pool_mem_add_def mem_add_def
        call_def sys_def Let_def sample_os_def ok_ret_def kavl_insert_def set_mempool_def clock_def)
  have p: "(1 :: int) < int (length (pr_dp (w_params ?w)))" "clock ?w = 0" "0 \<le> pr_cache_ttl (w_params ?w)"
    by (simp_all add: clock_def two_strategies_def sample_world_def sample_params_def sample_os_def ok_ret_def)
  have a: "sa_family ?a = AF_INET6" "length (sa_word4 ?a) = 4" "sa_addr16 ?a = replicate 14 0 @ [0, 0]"
    by (simp_all add: zero_addr_def numeral_eq_Suc)
  from a(3) have "?a \<noteq> ?a\<lparr>sa_addr16 := replicate 14 0 @ [1, 2]\<rparr>" by (simp add: zero_addr_def)
  with cache_ipv6_confuses [OF ok _ p(1) a(1,2,3) _ w1(1), of 1 2] w1 p(2,3) show ?thesis
    by (auto simp: Let_def)
qed

end
