(* ===== verification/Replies.thy ===== *)
theory Replies
  imports Ownership
begin

text \<open>
  What a SOCKS client is told about its request (\<open>on_request\<close> of \<open>proxy.c\<close>): nothing until the
  connection is established, and exactly one reply with an error if it cannot be.
\<close>

section \<open>Definitions\<close>

text \<open>What the process has sent on sockets, in order.\<close>

fun says :: "syscall \<Rightarrow> (int \<times> byte list) list" where
  "says (Send fd bs oob) = [(fd, bs)]"
| "says (Sendto fd bs a) = [(fd, bs)]"
| "says (Sendfile fd ffd n) = [(fd, [])]"
| "says _ = []"

definition said :: "world \<Rightarrow> (int \<times> byte list) list" where
  "said w = concat (map (says \<circ> fst) (w_hist w))"

text \<open>The reply to a version 5 request, with its code.\<close>

definition s5_reply :: "byte \<Rightarrow> byte list" where
  "s5_reply c = [5, c, 0, S_ATP_I4] @ replicate 6 0"

section \<open>Lemmas\<close>

subsection \<open>Functions that send nothing\<close>

lemma said_sys: "said (snd (sys c w)) = said w @ says c"
  by (simp add: said_def)

lemma said_call: "said (snd (call c w)) = said w @ says c"
  by (simp add: call_def split_beta said_sys)

lemma said_silent [simp]:
  "says c = [] \<Longrightarrow> said (snd (call c w)) = said w" "says c = [] \<Longrightarrow> said (snd (sys c w)) = said w"
  "says c = [] \<Longrightarrow> said (snd (call_if b c w)) = said w" "said (close_fd fd w) = said w"
  "said (snd (nb_socket d t w)) = said w" "said (snd (setttl fd k fa w)) = said w"
  by (simp_all add: said_sys said_call call_if_def close_fd_def nb_socket_def setttl_def split_beta)

lemma said_update [simp]:
  "said (w_buffer_update f w) = said w" "said (w_params_update g w) = said w" "said (in_pool h w) = said w"
  "said (w_pool_update k w) = said w"
  by (simp_all add: said_def in_pool_def)

text \<open>The connections and what was said are as before.\<close>

definition discreet :: "world \<Rightarrow> world \<Rightarrow> bool" where
  "discreet w w' \<longleftrightarrow> same_pool w w' \<and> said w' = said w"

lemma discreet_refl [simp]: "discreet w w"
  by (simp add: discreet_def)

lemma discreet_trans: "discreet w w' \<Longrightarrow> discreet w' w'' \<Longrightarrow> discreet w w''"
  by (simp add: discreet_def same_pool_def)

lemma discreet_silent [simp]:
  "says c = [] \<Longrightarrow> discreet w (snd (call c w')) = discreet w w'" "says c = [] \<Longrightarrow> discreet w (snd (sys c w')) = discreet w w'"
  "says c = [] \<Longrightarrow> discreet w (snd (call_if b c w')) = discreet w w'"
  "discreet w (close_fd fd w') = discreet w w'" "discreet w (w_params_update g w') = discreet w w'"
  "discreet w (w_buffer_update f w') = discreet w w'" "discreet w (snd (setttl fd k fa w')) = discreet w w'"
  by (simp_all add: discreet_def same_pool_def frame)

lemma d_step:
  assumes "discreet w0 w" "ens m (\<lambda>(r, w'). discreet w w')" "\<And>r w'. discreet w0 w' \<Longrightarrow> Q (r, w')"
  shows "ens m Q"
  using assms discreet_trans by (force intro!: ensI dest: ensD)

lemma protect_discreet: "ens (protect fd path w) (\<lambda>(r, w'). discreet w w')"
  by (auto simp: protect_def fail_close_def split_beta Let_def)

lemma socket_mod_discreet: "ens (socket_mod fd dst w) (\<lambda>(r, w'). discreet w w')"
  unfolding socket_mod_def
  by (auto simp: split_beta Let_def split: option.split intro!: d_step [OF _ protect_discreet, of w])

lemma sock_opts_discreet: "ens (sock_opts fd addr w) (\<lambda>(r, w'). discreet w w')"
  unfolding sock_opts_def
  by (auto simp: split_beta Let_def intro!: d_step [OF _ socket_mod_discreet, of w])

lemma mode_add_get_discreet: "ens (mode_add_get dst m w) (\<lambda>(r, w'). discreet w w')"
  by (auto simp: mode_add_get_def pool_mem_add_def bind_eq_Some_conv split_beta set_mempool_def Let_def
      intro!: ensI split: option.splits if_splits)

lemma s5_get_addr_discreet: "ens (s5_get_addr b off n addr type w) (\<lambda>(r, a, w'). discreet w w' \<and> w_buffer w' = w_buffer w)"
  by (auto simp: s5_get_addr_def resolve_def bind_eq_Some_conv split_beta Let_def intro!: ensI split: if_splits)

lemma recv_buf_discreet: "ens (recv_buf fd z w) (\<lambda>(r, w'). discreet w w')"
  by (auto simp: recv_buf_def recv_at_def bind_eq_Some_conv split_beta Let_def intro!: ensI split: if_splits)

subsection \<open>Connecting\<close>

text \<open>The client \<open>val\<close> with its descriptor and its flag, when \<open>xs\<close> has been said.\<close>

definition listens :: "nat \<Rightarrow> eval \<Rightarrow> (int \<times> byte list) list \<Rightarrow> world \<Rightarrow> bool" where
  "listens val e xs w \<longleftrightarrow> slots_ok w \<and> val \<in> live w \<and> v_fd (items w ! val) = v_fd e \<and>
     v_flag (items w ! val) = v_flag e \<and> said w = xs"

lemma listens_frame [simp]:
  "says c = [] \<Longrightarrow> listens val e xs (snd (call c w)) = listens val e xs w"
  "listens val e xs (close_fd fd w) = listens val e xs w" "listens val e xs (snd (nb_socket d t w)) = listens val e xs w"
  by (simp_all add: listens_def live_def frame)

lemma l_step:
  assumes "listens val e xs w" "ens m (\<lambda>(r, w'). discreet w w')" "\<And>r w'. listens val e xs w' \<Longrightarrow> Q (r, w')"
  shows "ens m Q"
proof (rule ensI, clarify)
  fix r w' assume "m = Some (r, w')"
  then have "discreet w w'" using ensD [OF assms(2)] by simp
  with assms(1) slots_ok_pool [of w' w] show "Q (r, w')"
    by (intro assms(3)) (auto simp: listens_def discreet_def same_pool_def live_def)
qed

lemma l_upd:
  assumes "listens val e xs w" "\<And>x. v_fd (f x) = v_fd x \<and> v_flag (f x) = v_flag x"
    "\<And>i x k. slot_ok k i x \<Longrightarrow> slot_ok k i (f x)" "\<And>w'. listens val e xs w' \<Longrightarrow> Q w'"
  shows "ens (upd v f w) Q"
proof (rule ensI)
  fix w' assume u: "upd v f w = Some w'"
  have "slots_ok w'" using slots_ok_upd [OF u] assms(1,3) by (simp add: listens_def)
  moreover have "said w' = said w" using u by (auto simp: upd_def said_def split: if_splits)
  ultimately show "Q w'"
    using assms(1,2) by (intro assms(4)) (auto simp: listens_def upd_facts [OF u])
qed

lemma l_add:
  assumes "listens val e xs w" "\<And>w'. listens val e xs w' \<Longrightarrow> Q (None, w')" "\<And>v w'. said w' = xs \<Longrightarrow> Q (Some v, w')"
  shows "ens (add_event t fd k w) Q"
proof (rule ensI, clarify)
  fix r w' assume a: "add_event t fd k w = Some (r, w')"
  have s: "slots_ok w" "val \<in> live w" "said w = xs" using assms(1) by (simp_all add: listens_def)
  have "said w' = said w"
    using a by (auto simp: add_event_def bind_eq_Some_conv split_beta Let_def upd_def split: if_splits)
  with add_event_fds [OF s(1) a] s assms show "Q (r, w')" by (cases r) (auto simp: listens_def)
qed

lemma u_upd: "said w = xs \<Longrightarrow> (\<And>w'. said w' = xs \<Longrightarrow> Q w') \<Longrightarrow> ens (upd v f w) Q"
  by (rule ensI) (auto simp: upd_def said_def split: if_splits)

text \<open>A connection is made without a word; if it is not made, the client is still there.\<close>

lemma create_conn_listens:
  assumes "listens val e xs w"
  shows "ens (create_conn val dst next w) (\<lambda>(r, w'). if r = 0 then said w' = xs else listens val e xs w')"
  unfolding create_conn_def fail_close_def
  by (auto simp: split_beta Let_def assms split: option.split
      intro!: l_step [OF _ sock_opts_discreet, of val e xs] l_add [of val e xs] u_upd)

lemma connect_hook_listens:
  assumes "listens val e xs w"
  shows "ens (connect_hook val dst next w) (\<lambda>(r, w'). if r = 0 then said w' = xs else listens val e xs w')"
  unfolding connect_hook_def
  by (auto simp: slot_ok_def assms
      intro!: l_step [OF _ mode_add_get_discreet, of val e xs] l_upd [of val e xs] create_conn_listens [unfolded if_bool_eq_conj])

subsection \<open>Requests\<close>

lemma s5_get_addr_code:
  "s5_get_addr b off n addr type w = Some (r, a, w') \<Longrightarrow> r < 0 \<Longrightarrow> r \<in> {- S_ER_GEN, - S_ER_HOST, - S_ER_ATP}"
  by (auto simp: s5_get_addr_def bind_eq_Some_conv split_beta Let_def split: if_splits)

lemma l_addr:
  assumes "listens val e xs w" "\<And>r a w'. listens val e xs w' \<Longrightarrow> w_buffer w' = w_buffer w \<Longrightarrow>
      (r < 0 \<longrightarrow> r \<in> {- S_ER_GEN, - S_ER_HOST, - S_ER_ATP}) \<Longrightarrow> Q (r, a, w')"
  shows "ens (s5_get_addr b off n addr type w) Q"
proof (rule ensI, clarify)
  fix r a w' assume m: "s5_get_addr b off n addr type w = Some (r, a, w')"
  have d: "discreet w w'" "w_buffer w' = w_buffer w" using ensD [OF s5_get_addr_discreet m] by simp_all
  then have "listens val e xs w'"
    using assms(1) slots_ok_pool [of w' w] by (auto simp: listens_def discreet_def same_pool_def live_def)
  with d(2) s5_get_addr_code [OF m] show "Q (r, a, w')" by (intro assms(2)) auto
qed

lemma s5_command_listens:
  assumes "listens val e xs w" "w_buffer w ! 1 \<noteq> S_CMD_AUDP"
  shows "ens (s5_command val n w) (\<lambda>(s5e, r, w').
    if s5e < 0 then listens val e xs w' \<and> s5e \<in> {- S_ER_GEN, - S_ER_HOST, - S_ER_ATP, - S_ER_CMD}
    else if r = 0 then said w' = xs else listens val e xs w')"
proof -
  have C: "ens (connect_hook val dst t x) Q"
    if "listens val e xs x" "\<And>r w'. (if r = 0 then said w' = xs else listens val e xs w') \<Longrightarrow> Q (r, w')" for dst t x Q
    by (rule ens_mono [OF connect_hook_listens [OF that(1)]]) (use that(2) in auto)
  show ?thesis
    unfolding s5_command_def
    using assms by (auto simp: rd_def S_ER_CMD_def intro!: v_read l_addr [of val e xs] C)
qed

lemma s5_code_error: "e \<noteq> 0 \<Longrightarrow> of_int (s5_code e) \<noteq> (0::byte)"
  by (simp add: s5_code_def S_ER_CONN_def S_ER_HOST_def S_ER_NET_def S_ER_GEN_def)

lemma resp_s5_said: "said (snd (resp_s5_error fd c w)) = said w @ [(fd, s5_reply (of_int c))]"
  by (simp add: resp_s5_error_def said_call s5_reply_def)

lemma s5_reply_inj [simp]: "s5_reply c = s5_reply c' \<longleftrightarrow> c = c'"
  by (simp add: s5_reply_def)

section \<open>Properties\<close>


text \<open>A client asks for an address that refuses the connection.\<close>

definition asking_os :: "history \<Rightarrow> syscall \<Rightarrow> sysret" where
  "asking_os h c = (case c of
     Recv fd n \<Rightarrow> (ok_ret 10)\<lparr>r_data := [5, 1, 0, 1, 127, 0, 0, 1, 0, 80]\<rparr>
   | Socket d t nb \<Rightarrow> ok_ret 10
   | Connect fd a \<Rightarrow> err_ret ECONNREFUSED
   | _ \<Rightarrow> ok_ret 0)"

definition asking_world :: world where
  "asking_world = sample_world\<lparr>w_os := asking_os, w_buffer := replicate 16 0,
     w_pool := sample_pool\<lparr>p_count := 2, p_items := [zero_eval\<lparr>v_fd := 4\<rparr>,
       zero_eval\<lparr>v_fd := 5, v_index := 1, v_type := EV_REQUEST, v_flag := FLAG_S5\<rparr>, zero_eval, zero_eval, zero_eval]\<rparr>\<rparr>"

lemma asking_pool: "w_pool asking_world = sample_pool\<lparr>p_count := 2, p_items := [zero_eval\<lparr>v_fd := 4\<rparr>,
    zero_eval\<lparr>v_fd := 5, v_index := 1, v_type := EV_REQUEST, v_flag := FLAG_S5\<rparr>, zero_eval, zero_eval, zero_eval]\<rparr>"
  by (simp add: asking_world_def)

lemma asking_slots: "slots_ok asking_world" "1 \<in> live asking_world" "v_flag (items asking_world ! 1) = FLAG_S5"
    "v_fd (items asking_world ! 1) = 5" "said asking_world = []"
proof -
  show "slots_ok asking_world"
    by (auto simp: slots_ok_def asking_pool sample_pool_def slot_ok_def zero_eval_def less_2_cases_iff)
qed (simp_all add: live_def asking_pool sample_pool_def said_def asking_world_def sample_world_def)


end
