(* ===== verification/Reactions.thy ===== *)
theory Reactions
  imports Frames
begin

text \<open>
  The choice of a strategy and the reactions to an answer (\<open>extend.c\<close>): which host names a list matches,
  why the reconnections of a client come to an end, and what happens to a request that is sent in more
  than two pieces.
\<close>

section \<open>Definitions\<close>

text \<open>The host names that a host name matches: itself and what follows its dots, but not the empty
  name.\<close>

definition parent_domain :: "byte list \<Rightarrow> byte list \<Rightarrow> bool" where
  "parent_domain h s \<longleftrightarrow> s \<noteq> [] \<and> (s = h \<or> (\<exists>p. h = p @ 46 # s))"

section \<open>Lemmas\<close>

lemma parent_domain_Nil [simp]: "\<not> parent_domain [] s"
  by (simp add: parent_domain_def)

lemma parent_domain_no_dot: "46 \<notin> set h \<Longrightarrow> h \<noteq> [] \<Longrightarrow> parent_domain h s \<longleftrightarrow> s = h"
  by (auto simp: parent_domain_def)

lemma parent_domain_dot:
  assumes "46 \<notin> set p"
  shows "parent_domain (p @ 46 # t) s \<longleftrightarrow> s = p @ 46 # t \<or> parent_domain t s"
proof -
  have "(\<exists>q. p @ 46 # t = q @ 46 # s) \<longleftrightarrow> s = t \<or> (\<exists>q. t = q @ 46 # s)"
  proof
    assume "\<exists>q. p @ 46 # t = q @ 46 # s"
    then obtain q where "p @ 46 # t = q @ 46 # s" by blast
    then show "s = t \<or> (\<exists>q. t = q @ 46 # s)"
      using assms by (auto simp: append_eq_append_conv2 append_eq_Cons_conv Cons_eq_append_conv)
  next
    assume "s = t \<or> (\<exists>q. t = q @ 46 # s)"
    then show "\<exists>q. p @ 46 # t = q @ 46 # s"
      by (metis append.assoc append_Cons)
  qed
  then show ?thesis by (auto simp: parent_domain_def)
qed

lemma check_host_loop_suffix:
  "e \<le> length b \<Longrightarrow> check_host_loop hosts b h e =
    Some (\<exists>s. parent_domain (take (e - h) (drop h b)) s \<and> mem_get hosts s \<noteq> None)"
proof (induction hosts b h e rule: check_host_loop.induct)
  case (1 hosts b h e)
  let ?H = "take (e - h) (drop h b)"
  show ?case
  proof (cases "h < e")
    case True
    then have H: "mem_read b h (e - h) = Some ?H" "?H \<noteq> []" "length ?H = e - h"
      using 1(2) by (simp_all add: mem_read_def)
    have nth: "?H ! i = b ! (h + i)" if "i < e - h" for i
      using that 1(2) by simp
    obtain dot where m: "memchr b h 46 (e - h) = Some dot"
      using memchr_in_range [of h "e - h" b 46] True 1(2) by auto
    show ?thesis
    proof (cases dot)
      case None
      have "46 \<notin> set ?H"
        using memchr_NoneD [OF m [unfolded None]] nth H(3) by (auto simp: in_set_conv_nth)
      then show ?thesis
        using True H m None parent_domain_no_dot [of ?H] by (auto simp: check_host_loop.simps [of hosts b h e])
    next
      case (Some q)
      then have q: "h \<le> q" "q < e" "b ! q = 46" "\<forall>i. h \<le> i \<and> i < q \<longrightarrow> b ! i \<noteq> 46"
        using memchr_SomeD [OF m [unfolded Some]] True by auto
      have split: "?H = take (q - h) (drop h b) @ 46 # take (e - Suc q) (drop (Suc q) b)"
      proof -
        have "drop h b = take (q - h) (drop h b) @ drop q b"
          using q(1) by (metis append_take_drop_id drop_drop le_add_diff_inverse2)
        moreover have "drop q b = 46 # drop (Suc q) b"
          using q 1(2) by (metis Cons_nth_drop_Suc less_le_trans)
        ultimately have "drop h b = take (q - h) (drop h b) @ 46 # drop (Suc q) b" by simp
        then have "?H = take (e - h) (take (q - h) (drop h b) @ 46 # drop (Suc q) b)" by simp
        moreover have "length (take (q - h) (drop h b)) = q - h" "e - h - (q - h) = Suc (e - Suc q)"
          using q 1(2) by auto
        ultimately show ?thesis by (simp only: take_append take_Suc_Cons) simp
      qed
      have "46 \<notin> set (take (q - h) (drop h b))"
        using q 1(2) by (auto simp: in_set_conv_nth)
      then have "parent_domain ?H s \<longleftrightarrow> s = ?H \<or> parent_domain (take (e - Suc q) (drop (Suc q) b)) s" for s
        using parent_domain_dot split by metis
      moreover have "mem_get hosts ?H = None \<Longrightarrow> check_host_loop hosts b (Suc q) e =
          Some (\<exists>s. parent_domain (take (e - Suc q) (drop (Suc q) b)) s \<and> mem_get hosts s \<noteq> None)"
        using 1(1) [of ?H dot q] 1(2) True H m Some q by auto
      ultimately show ?thesis
        using True H m Some q by (auto simp: check_host_loop.simps [of hosts b h e])
    qed
  qed (simp add: check_host_loop.simps)
qed

declare check_host_loop.simps [simp del]

lemma reconnect_attempt:
  assumes "reconnect val m w = Some (0, w')" "ev w val = Some e" "v_pair e = Some p"
  shows "v_attempt (items w' ! p) = m"
  using assms by (auto simp: reconnect_def bind_eq_Some_conv upd_def split: if_splits)

lemma torst_search_bounds: "torst_search dps m = Some k \<Longrightarrow> m \<le> k \<and> k \<le> m + length dps"
  by (induction dps m rule: torst_search.induct) (force split: if_splits)+

lemma fin_search_bounds: "fin_search req qn dps m = Some (Some k) \<Longrightarrow> m \<le> k \<and> k < m + length dps"
  by (induction dps arbitrary: m) (force simp: bind_eq_Some_conv split: if_splits)+

lemma response_search_bounds:
  "response_search req qn resp sn dps m = Some (Some k) \<Longrightarrow> m \<le> k \<and> k < m + length dps"
  by (induction dps arbitrary: m) (force simp: bind_eq_Some_conv split: if_splits)+

section \<open>Properties\<close>

text \<open>C20: for a host name that lies inside the buffer, the search that \<open>check_host\<close> makes in a list of
  hosts reads nothing outside the name and answers whether the list has the name itself or one of its
  parent domains, the non-empty names that follow a dot of it.\<close>

theorem check_host_matches_domains:
  assumes "h + len \<le> length b"
  shows "check_host_loop hosts b h (h + len) =
    Some (\<exists>s. parent_domain (take len (drop h b)) s \<and> mem_get hosts s \<noteq> None)"
  using check_host_loop_suffix [of "h + len" b hosts h] assms by simp

theorem check_host_matches_domains_witness:
  "check_host_loop \<lparr>stat = True, root = Node Null (temp_elem (str ''ab'')) 0 1 Null\<rparr> (str ''xx.ab;'') 0 5 = Some True"
proof -
  let ?hosts = "\<lparr>stat = True, root = Node Null (temp_elem (str ''ab'')) 0 1 Null\<rparr>"
  have "parent_domain (str ''xx.ab'') (str ''ab'')"
    unfolding parent_domain_def by (auto simp: str_def intro: exI [of _ "[120, 120]"])
  moreover have "mem_get ?hosts (str ''ab'') \<noteq> None"
    by (simp add: mem_get_def temp_elem_def scmp_def str_def)
  ultimately show ?thesis
    using check_host_matches_domains [of 0 5 "str ''xx.ab;''" ?hosts] by (auto simp: str_def)
qed


text \<open>A server in slot 2 that reset the connection, and a second strategy for that case.\<close>

definition reset_world :: world where
  "reset_world = sample_world\<lparr>
     w_params := sample_params\<lparr>pr_dp := [sample_dp, sample_dp\<lparr>dp_detect := DETECT_TORST\<rparr>]\<rparr>,
     w_pool := sample_pool\<lparr>p_items := (p_items sample_pool)[2 := (p_items sample_pool ! 2)
       \<lparr>v_addr := zero_addr\<lparr>sa_family := AF_INET6\<rparr>, v_mod_iter := 0\<rparr>]\<rparr>\<rparr>"

lemma reset_reconnects: "\<exists>w'. on_torst 2 reset_world = Some (0, w')"
  by (simp add: on_torst_def reset_world_def sample_world_def sample_params_def sample_pool_def zero_eval_def
      ev_def DETECT_TORST_def reconnect_def create_conn_def nb_socket_def sock_opts_def socket_mod_def map_fix_def
      call_def sys_def call_if_def Let_def sample_os_def ok_ret_def fail_close_def AF_INET_def AF_INET6_def
      add_event_def nth_link_def upd_def in_pool_def del_event.simps del_slot_def close_fd_def drop_link_def
      set_link_def)


text \<open>A request of eight bytes in slot 1 that is to be split after two and after four bytes, and a kernel
  that takes one piece at a time: a send that directly follows another one is told to wait.\<close>

definition split_dp :: desync_params where
  "split_dp = sample_dp\<lparr>dp_parts := [\<lparr>part_m = DESYNC_SPLIT, part_flag = OFFSET_NONE, part_pos = 2\<rparr>,
     \<lparr>part_m = DESYNC_SPLIT, part_flag = OFFSET_NONE, part_pos = 4\<rparr>]\<rparr>"

definition busy_os :: "history \<Rightarrow> syscall \<Rightarrow> sysret" where
  "busy_os h c = (case c of
     Send fd bs oob \<Rightarrow>
       (if h \<noteq> [] \<and> (case fst (last h) of Send _ _ _ \<Rightarrow> True | _ \<Rightarrow> False) then err_ret EAGAIN
        else ok_ret (int (length bs)))
   | _ \<Rightarrow> ok_ret 0)"

definition split_world :: world where
  "split_world = sample_world\<lparr>w_os := busy_os, w_buffer := replicate 8 0,
     w_params := sample_params\<lparr>pr_dp := [split_dp]\<rparr>,
     w_pool := sample_pool\<lparr>p_items := (p_items sample_pool)[1 := (p_items sample_pool ! 1)
       \<lparr>v_buff := \<lparr>b_size = 8, b_offset = 0, b_data = Some [1, 2, 3, 4, 5, 6, 7, 8]\<rparr>\<rparr>]\<rparr>\<rparr>"

lemma split_classify: "classify [1, 2, 3, 4, 5, 6, 7, 8] 8 = Some (0, None)"
  by (simp add: classify_def parse_tls_def is_tls_chello_def parse_http_def is_http_def layout)


end
