(* ===== verification/Datagrams.thy ===== *)
theory Datagrams
  imports Frames
begin

text \<open>
  UDP associations: what the client receives for a datagram from the destination, and three ways in
  which setting one up or using it goes wrong.
\<close>

section \<open>Definitions\<close>

text \<open>The header of a datagram from the address \<open>a\<close>.\<close>

definition header :: "sockaddr_ina \<Rightarrow> byte list" where
  "header a = (if sa_family a = AF_INET then [0, 0, 0, S_ATP_I4] @ sa_word4 a @ le16 (sa_port a)
     else [0, 0, 0, S_ATP_I6] @ sa_addr16 a @ le16 (sa_port a))"

definition header_addr :: "sockaddr_ina \<Rightarrow> sockaddr_ina" where
  "header_addr a = (if sa_family a = AF_INET
     then zero_addr\<lparr>sa_family := AF_INET, sa_word4 := sa_word4 a, sa_port := sa_port a\<rparr>
     else zero_addr\<lparr>sa_family := AF_INET6, sa_addr16 := sa_addr16 a, sa_port := sa_port a\<rparr>)"

section \<open>Lemmas\<close>

lemma s5_set_addr_end:
  assumes "22 \<le> off" "22 \<le> n"
  shows "s5_set_addr b off n a True =
    s5_set_addr b (off - (if sa_family a = AF_INET then S_SIZE_I4 else S_SIZE_I6)) n a False"
  using assms by (simp add: s5_set_addr_def socks_sizes)

lemma header_length: "addr_ok a \<Longrightarrow> length (header a) = (if sa_family a = AF_INET then 10 else 22)"
  by (simp add: header_def addr_ok_def le16_def)

lemma set_header:
  assumes "addr_ok a"
  shows "s5_set_addr (replicate 22 0 @ vs) 22 22 a True =
    Some (int (length (header a)), replicate (22 - length (header a)) 0 @ header a @ vs)"
proof -
  have r: "replicate 22 (0 :: byte) = replicate 12 0 @ 0 # 0 # 0 # 0 # replicate 4 0 @ [0, 0]"
    "replicate 22 (0 :: byte) = [] @ 0 # 0 # 0 # 0 # replicate 16 0 @ [0, 0]"
    by (simp_all add: numeral_eq_Suc)
  have l: "length (sa_word4 a) = 4" "length (sa_addr16 a) = 16" using assms by (simp_all add: addr_ok_def)
  show ?thesis
  proof (cases "sa_family a = AF_INET")
    case True
    then show ?thesis
      using s5_set_addr_known(1) [of "replicate 12 0" 12 "replicate 4 0" "sa_word4 a" a 0 0 0 0 0 0 vs] l header_length [OF assms]
      by (simp add: s5_set_addr_end r(1) S_SIZE_I6_def S_SIZE_I4_def header_def)
  next
    case False
    then show ?thesis
      using s5_set_addr_known(2) [of "[]" 0 "replicate 16 0" "sa_addr16 a" a 0 0 0 0 0 0 vs] l header_length [OF assms]
      by (simp add: s5_set_addr_end r(2) S_SIZE_I6_def S_SIZE_I4_def header_def)
  qed
qed

lemma get_header:
  assumes "addr_ok a" "sa_family a = AF_INET \<or> sa_family a = AF_INET6 \<and> pr_ipv6 (w_params w)"
  shows "s5_get_addr (header a @ vs) 0 (length (header a) + n) zero_addr ty w =
    Some (int (length (header a)), header_addr a, w)"
proof -
  have l: "length (sa_word4 a) = 4" "length (sa_addr16 a) = 16" "sa_port a < 65536"
    using assms by (simp_all add: addr_ok_def)
  note h = header_length [OF assms(1)]
  show ?thesis
  proof (cases "sa_family a = AF_INET")
    case True
    have b: "header a @ vs = [] @ 0 # 0 # 0 # S_ATP_I4 # sa_word4 a @ le16 (sa_port a) @ vs"
      using True by (simp add: header_def)
    note r = read_req [OF refl l(1) _ l(3) _ b, of 10, unfolded list.size(3)]
    have "s5_get_addr (header a @ vs) 0 (length (header a) + n) zero_addr ty w =
        Some (int 10, zero_addr\<lparr>sa_family := AF_INET, sa_word4 := sa_word4 a, sa_port := sa_port a\<rparr>, w)"
      by (rule s5_get_addr_known(1) [OF r(1) r(2) r(4) _ refl _ r(3)]) (simp_all add: h True S_SIZE_I4_def)
    then show ?thesis by (simp add: h True header_addr_def)
  next
    case False
    have b: "header a @ vs = [] @ 0 # 0 # 0 # S_ATP_I6 # sa_addr16 a @ le16 (sa_port a) @ vs"
      using False by (simp add: header_def)
    note r = read_req [OF refl l(2) _ l(3) _ b, of 22, unfolded list.size(3)]
    have "s5_get_addr (header a @ vs) 0 (length (header a) + n) zero_addr ty w =
        Some (int 22, zero_addr\<lparr>sa_family := AF_INET6, sa_addr16 := sa_addr16 a, sa_port := sa_port a\<rparr>, w)"
      by (rule s5_get_addr_known(2) [OF r(1) r(2) r(4) _ refl _ r(3)]) (use assms(2) False in \<open>simp_all add: h S_SIZE_I6_def\<close>)
    then show ?thesis by (simp add: h False header_addr_def)
  qed
qed

lemma map_fix_ok: "addr_ok a \<Longrightarrow> addr_ok (map_fix a b)"
  by (simp add: map_fix_def addr_ok_def v4_mapped_def AF_INET_def AF_INET6_def)

section \<open>Properties\<close>


text \<open>A client in slot 1, its two UDP sockets in slots 3 (to the client) and 2 (to the destination).\<close>

definition udp_world :: world where
  "udp_world = sample_world\<lparr>w_buffer := replicate 22 0 @ [1, 2, 3],
     w_pool := sample_pool\<lparr>p_count := 4, p_items := [zero_eval\<lparr>v_fd := 4\<rparr>,
       zero_eval\<lparr>v_fd := 5, v_index := 1, v_type := EV_IGNORE, v_pair := Some 3\<rparr>,
       zero_eval\<lparr>v_fd := 6, v_index := 2, v_type := EV_UDP_TUNNEL, v_pair := Some 1\<rparr>,
       zero_eval\<lparr>v_fd := 7, v_index := 3, v_type := EV_UDP_TUNNEL, v_pair := Some 2, v_flag := FLAG_CONN\<rparr>,
       zero_eval]\<rparr>\<rparr>"




text \<open>C37: with a buffer of fewer than 22 bytes, which the option for its size allows, the size that
  \<open>on_udp_tunnel\<close> computes for the datagrams of the destination wraps around, and a datagram is received
  behind the end of the buffer.\<close>

theorem udp_small_buffer_overflows:
  assumes "ev w val = Some e" "v_flag e \<noteq> FLAG_CONN" "bfsize < 22" "length (w_buffer w) = bfsize"
  shows "on_udp_tunnel val bfsize w = None"
  using assms by (auto simp: on_udp_tunnel_def udp_loop.simps [of val] recv_at_def S_SIZE_I6_def usub_def)

theorem udp_small_buffer_overflows_witness:
  "on_udp_tunnel 1 8 (sample_world\<lparr>w_buffer := replicate 8 0\<rparr>) = None"
  by (rule udp_small_buffer_overflows [of _ _ "items sample_world ! 1"])
    (simp_all add: ev_def sample_world_def sample_pool_def zero_eval_def FLAG_CONN_def)

end
