(* ===== verification/Settings.thy ===== *)
theory Settings
  imports Options
begin

text \<open>
  What the command line guarantees: the settings that the options leave are in range, a host list holds
  the words of its file, escapes denote the bytes they stand for, and the string of short options is
  the one that the table describes.
\<close>

section \<open>Definitions\<close>

definition dp_in_range :: "desync_params \<Rightarrow> bool" where
  "dp_in_range d \<longleftrightarrow> 0 \<le> dp_ttl d \<and> dp_ttl d \<le> 255 \<and> 0 \<le> dp_udp_fake_count d \<and>
     dp_udp_fake_count d \<le> INT_MAX \<and> (\<forall>p\<in>set (dp_tlsrec d). part_pos p \<le> 65535)"

definition in_range :: "params \<Rightarrow> bool" where
  "in_range p \<longleftrightarrow> pr_dp p \<noteq> [] \<and> (\<forall>d\<in>set (pr_dp p). dp_in_range d) \<and>
     0 < pr_bfsize p \<and> int (pr_bfsize p) \<le> INT_MAX div 4 \<and> 0 < pr_max_open p \<and> pr_max_open p < 65535 div 2 \<and>
     0 < pr_cache_ttl p \<and> 0 \<le> pr_def_ttl p \<and> pr_def_ttl p \<le> 255 \<and> (pr_custom_ttl p \<longrightarrow> 0 < pr_def_ttl p) \<and>
     0 \<le> pr_sfdelay p \<and> pr_sfdelay p < 1000 \<and> pr_timeout p < 2 ^ 32 \<and> 0 \<le> pr_debug p"

section \<open>Lemmas\<close>

lemma set_params_params [simp]: "w_params (set_params f w) = f (w_params w)"
  by (simp add: set_params_def)

lemma call_settings [simp]: "w_params (snd (call c w)) = w_params w"
  by (simp add: call_def split_beta)

lemma call_if_settings [simp]: "w_params (snd (call_if b c w)) = w_params w"
  by (simp add: call_if_def)

lemma set_dp_in_range:
  assumes "in_range (w_params w)" "\<And>d. dp_in_range d \<Longrightarrow> dp_in_range (f d)"
  shows "in_range (w_params (set_dp f w))"
proof -
  let ?ds = "pr_dp (w_params w)"
  have "last ?ds \<in> set ?ds" using assms(1) by (simp add: in_range_def)
  then show ?thesis
    using assms by (auto simp: in_range_def set_dp_def dest: in_set_butlastD)
qed

lemma add_settings [simp]: "w_params (snd (add xs z k w)) = w_params w"
  by (auto simp: add_def split_beta Let_def)

lemma add_last: "fst (add xs z k w) = Some ys \<Longrightarrow> ys = xs @ [z]"
  by (auto simp: add_def split_beta Let_def split: if_splits)

lemma ftob_settings [simp]: "w_params (snd (ftob s w)) = w_params w"
  by (auto simp: ftob_def data_from_str_def split_beta Let_def split: if_splits)

lemma get_addr_settings [simp]: "w_params (snd (snd (get_addr s a w))) = w_params w"
  by (auto simp: get_addr_def split_beta Let_def split: if_splits)

lemma pool_mem_add_settings: "pool_mem_add hdr s w = Some (v, hdr', w') \<Longrightarrow> w_params w' = w_params w"
  by (auto simp: pool_mem_add_def split_beta Let_def bind_eq_Some_conv split: if_splits)

lemma hosts_loop_settings: "hosts_loop cs cur hdr w = Some (r, w') \<Longrightarrow> w_params w' = w_params w"
proof (induction cs arbitrary: cur hdr w)
  case Nil
  then show ?case by (auto simp: bind_eq_Some_conv split: if_splits dest!: pool_mem_add_settings)
next
  case (Cons c cs)
  show ?case
  proof (cases "is_sep c \<and> cur \<noteq> []")
    case True
    then obtain v hdr' w1 where a: "pool_mem_add hdr cur w = Some (v, hdr', w1)"
        "(if v = None then Some (None, w1) else hosts_loop cs [] hdr' w1) = Some (r, w')"
      using Cons.prems by (auto simp: bind_eq_Some_conv)
    then show ?thesis using Cons.IH [of "[]" hdr' w1] pool_mem_add_settings [OF a(1)] by (auto split: if_splits)
  next
    case False
    with Cons show ?thesis by (auto split: if_splits)
  qed
qed

lemma parse_hosts_settings: "parse_hosts s w = Some (r, w') \<Longrightarrow> w_params w' = w_params w"
  by (auto simp: parse_hosts_def split_beta Let_def split: option.splits dest!: hosts_loop_settings)

lemma num_option_in_range:
  "num_option s good f w = Some (Next, w') \<Longrightarrow> (\<And>v. good v \<Longrightarrow> in_range (w_params (f v w))) \<Longrightarrow>
    in_range (w_params w')"
  by (auto simp: num_option_def number_def bind_eq_Some_conv split: if_splits)

lemma number_options_in_range:
  assumes "in_range (w_params w)"
  shows "port_option s w = Some (Next, w') \<Longrightarrow> in_range (w_params w')"
    "bfsize_option s w = Some (Next, w') \<Longrightarrow> in_range (w_params w')"
    "max_open_option s w = Some (Next, w') \<Longrightarrow> in_range (w_params w')"
    "cache_ttl_option s w = Some (Next, w') \<Longrightarrow> in_range (w_params w')"
    "def_ttl_option s w = Some (Next, w') \<Longrightarrow> in_range (w_params w')"
    "ttl_option s w = Some (Next, w') \<Longrightarrow> in_range (w_params w')"
    "fake_offset_option s w = Some (Next, w') \<Longrightarrow> in_range (w_params w')"
    "udp_fake_option s w = Some (Next, w') \<Longrightarrow> in_range (w_params w')"
    "debug_option s w = Some (Next, w') \<Longrightarrow> in_range (w_params w')"
    "delay_option s w = Some (Next, w') \<Longrightarrow> in_range (w_params w')"
    "timeout_option msec s w = Some (Next, w') \<Longrightarrow> in_range (w_params w')"
    "pf_option s w = Some (Next, w') \<Longrightarrow> in_range (w_params w')"
proof -
  note N = num_option_in_range [where w = w and w' = w' and s = s]
  show "port_option s w = Some (Next, w') \<Longrightarrow> in_range (w_params w')"
    unfolding port_option_def using assms by (elim N) (simp add: in_range_def)
  show "bfsize_option s w = Some (Next, w') \<Longrightarrow> in_range (w_params w')"
    unfolding bfsize_option_def using assms by (elim N) (simp add: in_range_def)
  show "max_open_option s w = Some (Next, w') \<Longrightarrow> in_range (w_params w')"
    unfolding max_open_option_def using assms by (elim N) (auto simp: in_range_def nat_less_iff)
  show "cache_ttl_option s w = Some (Next, w') \<Longrightarrow> in_range (w_params w')"
    unfolding cache_ttl_option_def using assms by (elim N) (simp add: in_range_def)
  show "def_ttl_option s w = Some (Next, w') \<Longrightarrow> in_range (w_params w')"
    unfolding def_ttl_option_def using assms by (elim N) (simp add: in_range_def)
  show "ttl_option s w = Some (Next, w') \<Longrightarrow> in_range (w_params w')"
    unfolding ttl_option_def by (elim N, rule set_dp_in_range [OF assms]) (simp add: dp_in_range_def)
  show "fake_offset_option s w = Some (Next, w') \<Longrightarrow> in_range (w_params w')"
    unfolding fake_offset_option_def by (elim N, rule set_dp_in_range [OF assms]) (simp add: dp_in_range_def)
  show "udp_fake_option s w = Some (Next, w') \<Longrightarrow> in_range (w_params w')"
    unfolding udp_fake_option_def by (elim N, rule set_dp_in_range [OF assms]) (simp add: dp_in_range_def)
  show "debug_option s w = Some (Next, w') \<Longrightarrow> in_range (w_params w')"
    using assms by (auto simp: debug_option_def in_range_def bind_eq_Some_conv split: if_splits)
  show "delay_option s w = Some (Next, w') \<Longrightarrow> in_range (w_params w')"
    using assms by (auto simp: delay_option_def in_range_def bind_eq_Some_conv split: if_splits)
  show "timeout_option msec s w = Some (Next, w') \<Longrightarrow> in_range (w_params w')"
    using assms by (auto simp: timeout_option_def in_range_def bind_eq_Some_conv nat_less_iff split: if_splits prod.splits)
  show "pf_option s w = Some (Next, w') \<Longrightarrow> in_range (w_params w')"
    using assms by (auto simp: pf_option_def bind_eq_Some_conv Let_def split: if_splits
        intro!: set_dp_in_range simp: dp_in_range_def)
qed

lemma auto_option_in_range:
  assumes "in_range (w_params w)" and a: "auto_option s w = Some (Next, w')"
  shows "in_range (w_params w')"
proof -
  have n: "in_range (w_params (snd (add_dp w)))"
    using assms by (auto simp: add_dp_def add_def in_range_def dp_in_range_def zero_dp_def INT_MAX_def split_beta Let_def)
  have f: "in_range (w_params (set_dp (\<lambda>d. d\<lparr>dp_detect := x\<rparr>) (snd (add_dp w))))" for x
    by (rule set_dp_in_range [OF n]) (simp add: dp_in_range_def)
  show ?thesis
    using a f by (auto simp: auto_option_def flag_option_def bind_eq_Some_conv split_beta split: if_splits)
qed

lemma tlsrec_option_in_range:
  assumes "in_range (w_params w)" and a: "tlsrec_option s w = Some (Next, w')"
  shows "in_range (w_params w')"
proof -
  have set: "in_range (w_params (set_dp f x))" if "w_params x = w_params w" "\<And>d. dp_in_range d \<Longrightarrow> dp_in_range (f d)" for f x
    using set_dp_in_range [of x f] assms that by simp
  from a obtain ps part where ps: "fst (add (dp_tlsrec (last (pr_dp (w_params w)))) zero_part 16 w) = Some ps"
      "\<not> part_pos part > 65535"
      "w' = set_dp (\<lambda>d. d\<lparr>dp_tlsrec := butlast ps @ [part]\<rparr>) (snd (add (dp_tlsrec (last (pr_dp (w_params w)))) zero_part 16 w))"
    by (auto simp: tlsrec_option_def last_dp_def bind_eq_Some_conv split_beta Let_def split: if_splits option.splits)
  have "last (pr_dp (w_params w)) \<in> set (pr_dp (w_params w))" using assms by (simp add: in_range_def)
  then have "dp_in_range (last (pr_dp (w_params w)))" using assms by (simp add: in_range_def)
  then show ?thesis
    using ps(2) add_last [OF ps(1)] unfolding ps(3) by (intro set) (auto simp: dp_in_range_def)
qed

lemma hosts_option_in_range:
  assumes "in_range (w_params w)" and a: "hosts_option s w = Some (Next, w')"
  shows "in_range (w_params w')"
proof -
  have set: "in_range (w_params (set_dp f x))" if "w_params x = w_params w" "\<And>d. dp_in_range d \<Longrightarrow> dp_in_range (f d)" for f x
    using set_dp_in_range [of x f] assms that by simp
  have b: "in_range (w_params (set_dp (\<lambda>d. d\<lparr>dp_hosts := h\<rparr>) x))"
    if "parse_hosts cs (set_dp (\<lambda>d. d\<lparr>dp_file := f\<rparr>) (snd (ftob s w))) = Some (h', x)" for h cs f h' x
  proof -
    have "in_range (w_params (set_dp (\<lambda>d. d\<lparr>dp_file := f\<rparr>) (snd (ftob s w))))"
      by (rule set) (simp_all add: dp_in_range_def)
    then have "in_range (w_params x)" using parse_hosts_settings [OF that] by simp
    then show ?thesis by (rule set_dp_in_range) (simp add: dp_in_range_def)
  qed
  from a assms show ?thesis
    by (auto simp: hosts_option_def bind_eq_Some_conv split_beta Let_def split: if_splits option.splits intro: b)
qed

lemma list_options_in_range:
  assumes "in_range (w_params w)"
  shows "flags_option rez s w = Some (Next, w') \<Longrightarrow> in_range (w_params w')"
    "auto_option s w = Some (Next, w') \<Longrightarrow> in_range (w_params w')"
    "part_option rez s w = Some (Next, w') \<Longrightarrow> in_range (w_params w')"
    "tlsrec_option s w = Some (Next, w') \<Longrightarrow> in_range (w_params w')"
    "hosts_option s w = Some (Next, w') \<Longrightarrow> in_range (w_params w')"
    "ip_opt_option arg w = Some (Next, w') \<Longrightarrow> in_range (w_params w')"
    "fake_data_option s w = Some (Next, w') \<Longrightarrow> in_range (w_params w')"
    "tls_sni_option s w = Some (Next, w') \<Longrightarrow> in_range (w_params w')"
    "oob_option s w = Some (Next, w') \<Longrightarrow> in_range (w_params w')"
    "plain_option rez w = Some (Next, w') \<Longrightarrow> in_range (w_params w')"
proof -
  have set: "in_range (w_params (set_dp f x))" if "w_params x = w_params w" "\<And>d. dp_in_range d \<Longrightarrow> dp_in_range (f d)" for f x
    using set_dp_in_range [of x f] assms that by simp
  show "flags_option rez s w = Some (Next, w') \<Longrightarrow> in_range (w_params w')"
    by (auto simp: flags_option_def flag_option_def bind_eq_Some_conv split_beta dp_in_range_def split: if_splits
        intro!: set)
  show "auto_option s w = Some (Next, w') \<Longrightarrow> in_range (w_params w')"
    by (rule auto_option_in_range [OF assms])
  show "part_option rez s w = Some (Next, w') \<Longrightarrow> in_range (w_params w')"
    by (auto simp: part_option_def bind_eq_Some_conv split_beta dp_in_range_def split: if_splits option.splits
        intro!: set)
  show "tlsrec_option s w = Some (Next, w') \<Longrightarrow> in_range (w_params w')"
    by (rule tlsrec_option_in_range [OF assms])
  show "hosts_option s w = Some (Next, w') \<Longrightarrow> in_range (w_params w')"
    by (rule hosts_option_in_range [OF assms])
  show "ip_opt_option arg w = Some (Next, w') \<Longrightarrow> in_range (w_params w')"
    using assms by (auto simp: ip_opt_option_def bind_eq_Some_conv split_beta dp_in_range_def Let_def split: if_splits option.splits
        intro!: set)
  show "fake_data_option s w = Some (Next, w') \<Longrightarrow> in_range (w_params w')"
    using assms by (auto simp: fake_data_option_def bind_eq_Some_conv split_beta dp_in_range_def Let_def split: if_splits option.splits
        intro!: set)
  show "tls_sni_option s w = Some (Next, w') \<Longrightarrow> in_range (w_params w')"
    using assms by (auto simp: tls_sni_option_def bind_eq_Some_conv split: if_splits)
  show "oob_option s w = Some (Next, w') \<Longrightarrow> in_range (w_params w')"
    by (auto simp: oob_option_def dp_in_range_def split: list.splits intro!: set)
  show "plain_option rez w = Some (Next, w') \<Longrightarrow> in_range (w_params w')"
    using assms by (auto simp: plain_option_def split: if_splits intro!: set) (auto simp: in_range_def dp_in_range_def)
qed

lemma in_range_other [simp]:
  "in_range (p\<lparr>pr_laddr := x\<rparr>) = in_range p" "in_range (p\<lparr>pr_baddr := x\<rparr>) = in_range p"
  "in_range (p\<lparr>pr_protect_path := y\<rparr>) = in_range p"
  by (simp_all add: in_range_def)

lemma ifE: "(if b then x else y) = z \<Longrightarrow> (b \<Longrightarrow> x = z \<Longrightarrow> P) \<Longrightarrow> (\<not> b \<Longrightarrow> y = z \<Longrightarrow> P) \<Longrightarrow> P"
  by (simp split: if_splits)

lemma main_option_in_range:
  assumes "in_range (w_params w)" "main_option msec rez arg w = Some (Next, w')"
  shows "in_range (w_params w')"
proof -
  have a: "in_range (w_params w')" if "addr_option s old f w = (Next, w')" "\<And>a p. in_range p \<Longrightarrow> in_range (f a p)" for s old f
    using that assms(1) by (auto simp: addr_option_def split_beta Let_def split: if_splits)
  note L = list_options_in_range [OF assms(1)] number_options_in_range [OF assms(1)]
  show ?thesis
  proof (cases "rez = of_char CHR ''k'' \<or> rez \<notin> set arg_options")
    case True
    with assms(2) L(6,10) show ?thesis by (auto simp: main_option_def split: if_splits)
  next
    case False
    then obtain s where s: "option_arg msec rez s w = Some (Next, w')"
      using assms(2) by (auto simp: main_option_def bind_eq_Some_conv)
    show ?thesis
      using s unfolding option_arg_def
      by (elim ifE) (auto intro: L assms(1) elim!: a)
  qed
qed

lemma options_loop_in_range:
  "options_loop msec opts w = Some (Next, w') \<Longrightarrow> in_range (w_params w) \<Longrightarrow> in_range (w_params w')"
  by (induction msec opts w rule: options_loop.induct)
    (auto simp: bind_eq_Some_conv split: if_splits dest: main_option_in_range)

lemma init_in_range: "in_range (init_params\<lparr>pr_dp := [zero_dp]\<rparr>)"
  by (simp add: in_range_def init_params_def dp_in_range_def zero_dp_def INT_MAX_def)

subsection \<open>Host lists\<close>

text \<open>The words of a text: what is between separators, in lower case, without the empty ones.\<close>

fun pieces :: "byte list \<Rightarrow> byte list list" where
  "pieces [] = [[]]"
| "pieces (c # cs) =
     (if is_sep c then [] # pieces cs else (fst (lower_char c) # hd (pieces cs)) # tl (pieces cs))"

definition words :: "byte list \<Rightarrow> byte list set" where
  "words s = set (pieces s) - {[]}"

lemma pieces_not_Nil [simp]: "pieces s \<noteq> []"
  by (induction s) auto

lemma mem_add_cnt:
  assumes "pool_ok hdr" "room hdr" "mem_add c ml hdr s = Some (v, hdr')"
  shows "cnt (root hdr') \<le> Suc (cnt (root hdr))"
proof -
  obtain e t where i: "kavl_insert scmp (root hdr) (temp_elem s) = Some (e, t)" "cnt t \<le> Suc (cnt (root hdr))"
    using pool.insert_contract [of "root hdr" "temp_elem s", unfolded ekey_temp] assms(1,2)
    by (auto simp: pool_ok_def room_def split: option.splits)
  with assms(3) show ?thesis by (auto simp: mem_add_def split: if_splits)
qed

lemma pool_mem_add_entries:
  assumes "pool_ok hdr" "room hdr" "pool_mem_add hdr s w = Some (v, hdr', w')"
  shows "pool_ok hdr' \<and> cnt (root hdr') \<le> Suc (cnt (root hdr)) \<and>
    (v \<noteq> None \<longrightarrow> (\<forall>k. entries hdr' k \<noteq> None \<longleftrightarrow> k = s \<or> entries hdr k \<noteq> None))"
proof -
  obtain c ml where a: "mem_add c ml hdr s = Some (v, hdr')"
    using assms(3) by (auto simp: pool_mem_add_def split_beta Let_def bind_eq_Some_conv)
  show ?thesis
    using mem_add_cnt [OF assms(1,2) a] pool_map.put_failed [OF assms(1,2)] pool_map.collect [OF assms(1,2)] a assms(1)
    by (cases v) auto
qed

lemma hosts_loop_words:
  assumes "hosts_loop cs cur hdr w = Some (Some hdr', w')" "pool_ok hdr"
    "cnt (root hdr) + length cs + 2 < 2 ^ 31"
  shows "pool_ok hdr' \<and> (\<forall>k. entries hdr' k \<noteq> None \<longleftrightarrow>
    entries hdr k \<noteq> None \<or> k \<noteq> [] \<and> (k = cur @ hd (pieces cs) \<or> k \<in> set (tl (pieces cs))))"
  using assms
proof (induction cs arbitrary: cur hdr w)
  case Nil
  then have "room hdr" by (simp add: room_def)
  show ?case
  proof (cases "cur = []")
    case False
    then obtain v where "pool_mem_add hdr cur w = Some (v, hdr', w')" "v \<noteq> None"
      using Nil.prems(1) by (auto simp: bind_eq_Some_conv split: if_splits)
    with pool_mem_add_entries [OF Nil.prems(2) \<open>room hdr\<close>] False show ?thesis by auto
  qed (use Nil in auto)
next
  case (Cons c cs)
  have room: "room hdr" using Cons.prems(3) by (simp add: room_def)
  show ?case
  proof (cases "is_sep c")
    case False
    with Cons.prems Cons.IH [of "cur @ [fst (lower_char c)]" hdr w] show ?thesis by simp
  next
    case sep: True
    show ?thesis
    proof (cases "cur = []")
      case True
      with sep Cons.prems Cons.IH [of "[]" hdr w] show ?thesis by (cases "pieces cs") auto
    next
      case False
      then obtain v hdr1 w1 where a: "pool_mem_add hdr cur w = Some (v, hdr1, w1)" "v \<noteq> None"
          "hosts_loop cs [] hdr1 w1 = Some (Some hdr', w')"
        using Cons.prems(1) sep by (auto simp: bind_eq_Some_conv split: if_splits)
      note b = pool_mem_add_entries [OF Cons.prems(2) room a(1)]
      with Cons.IH [OF a(3)] Cons.prems(3) a(2) sep False show ?thesis by (cases "pieces cs") auto
    qed
  qed
qed

subsection \<open>Escapes\<close>

text \<open>How to write a byte: as it is if it is printable, otherwise with its two hexadecimal digits.\<close>

definition hex_digit :: "nat \<Rightarrow> byte" where
  "hex_digit n = (if n < 10 then of_nat (48 + n) else of_nat (87 + n))"

definition cform :: "byte \<Rightarrow> byte list" where
  "cform b = (if b = 92 then [92, 92] else if 32 \<le> b \<and> b < 127 then [b]
     else [92, 120, hex_digit (unat b div 16), hex_digit (unat b mod 16)])"

lemma nat16: "n < 16 \<Longrightarrow> n \<in> {0, 1, 2, 3, 4, 5, 6, 7, 8, 9, 10, 11, 12, 13, 14, 15 :: nat}"
  by simp presburger

lemma hex_digit_scan:
  assumes "n < 16"
  shows "is_digit_of 16 (hex_digit n) \<and> digit_val (hex_digit n) = Some n \<and> \<not> isspace (hex_digit n) \<and>
    hex_digit n \<noteq> 45 \<and> hex_digit n \<noteq> 43 \<and> hex_digit n \<noteq> 120 \<and> hex_digit n \<noteq> 88"
  using nat16 [OF assms]
  by (elim insertE emptyE) (simp_all add: hex_digit_def is_digit_of_def digit_val_def isspace_def)

lemma scan_hex:
  "scan_escape (120 # hex_digit (unat (b :: byte) div 16) # hex_digit (unat b mod 16) # s) = Some (b, 3)"
proof -
  have l: "unat b div 16 < 16" "unat b mod 16 < 16"
    using unsigned_less [of b, where ?'a = nat] by (simp_all add: less_mult_imp_div_less)
  have "word_of_nat (unat b div 16 * 16 + unat b mod 16) = b" by simp
  then show ?thesis
    using hex_digit_scan [OF l(1)] hex_digit_scan [OF l(2)]
    by (simp add: scan_escape_def esca_def scan_hh_def scan_prefixed_def scan_digits_def)
qed

lemma parse_cform_cform: "length xs \<le> k \<Longrightarrow> parse_cform k (concat (map cform xs)) = xs"
proof (induction xs arbitrary: k)
  case Nil
  then show ?case by (cases k) simp_all
next
  case (Cons x xs)
  then obtain k' where k: "k = Suc k'" "length xs \<le> k'" by (cases k) auto
  have "scan_escape (92 # s) = Some (92, 1)" for s by (simp add: scan_escape_def esca_def)
  then show ?case using Cons.IH [OF k(2)] k(1) by (auto simp: cform_def scan_hex)
qed

lemma parse_cform_length: "length (parse_cform k s) \<le> k \<and> length (parse_cform k s) \<le> length s"
proof (induction k s rule: parse_cform.induct)
  case (3 k c s)
  show ?case
  proof (cases "c = 92")
    case True
    show ?thesis
    proof (cases "scan_escape s")
      case (Some vn)
      obtain v n where vn: "vn = (v, n)" by fastforce
      have "length (parse_cform k (drop n s)) \<le> k \<and> length (parse_cform k (drop n s)) \<le> length (drop n s)"
        using 3(3) [OF _ Some vn [symmetric]] True by simp
      with True Some vn show ?thesis by auto
    qed (use 3(2) True in auto)
  qed (use 3(1) in auto)
qed simp_all

subsection \<open>The string of short options\<close>

definition short_option :: "option_row \<Rightarrow> byte list" where
  "short_option r = o_val r # replicate (o_has_arg r) 58"

lemma short_option_length [simp]: "length (short_option r) = Suc (o_has_arg r)"
  by (simp add: short_option_def)

lemma wr_append: "length xs = i \<Longrightarrow> wr (xs @ y # ys) i v = Some (xs @ v # ys)"
  by (auto simp: wr_def list_update_append)

lemma put_colons_fill:
  "length xs = Suc pos \<Longrightarrow> length gap = c \<Longrightarrow>
    put_colons c pos (xs @ gap @ ys) = Some (pos + c, xs @ replicate c 58 @ ys)"
proof (induction c arbitrary: pos xs gap)
  case (Suc c)
  then obtain g gap' where g: "gap = g # gap'" "length gap' = c" by (cases gap) auto
  have "put_colons c (Suc pos) ((xs @ [58]) @ gap' @ ys) = Some (Suc pos + c, (xs @ [58]) @ replicate c 58 @ ys)"
    using Suc.prems g by (intro Suc.IH) simp_all
  with Suc.prems g show ?case by (simp add: list_update_append)
qed simp

lemma opt_string_loop_fill:
  assumes "length xs = pos" "length gap = length (concat (map short_option rows))" "z = pos + length gap"
  shows "opt_string_loop z rows pos (xs @ gap @ [0]) = Some (xs @ concat (map short_option rows) @ [0])"
  using assms
proof (induction rows arbitrary: pos xs gap)
  case Nil
  then show ?case by (simp add: opt_string_loop.simps)
next
  case (Cons r rows)
  let ?k = "o_has_arg r"
  obtain g gap1 where g: "gap = g # gap1" "length gap1 = ?k + length (concat (map short_option rows))"
    using Cons.prems(2) by (cases gap) auto
  define gap2 gap3 where "gap2 = take ?k gap1" and "gap3 = drop ?k gap1"
  have g2: "gap1 = gap2 @ gap3" "length gap2 = ?k" "length gap3 = length (concat (map short_option rows))"
    using g(2) by (simp_all add: gap2_def gap3_def)
  have w: "wr (xs @ gap @ [0]) pos (o_val r) = Some ((xs @ [o_val r]) @ gap2 @ gap3 @ [0])"
    using Cons.prems(1) g(1) g2(1) by (simp add: list_update_append)
  have p: "put_colons ?k pos ((xs @ [o_val r]) @ gap2 @ gap3 @ [0]) =
      Some (pos + ?k, (xs @ [o_val r]) @ replicate ?k 58 @ gap3 @ [0])"
    using Cons.prems(1) g2(2) by (intro put_colons_fill) simp_all
  have "opt_string_loop z rows (pos + ?k + 1) ((xs @ short_option r) @ gap3 @ [0]) =
      Some ((xs @ short_option r) @ concat (map short_option rows) @ [0])"
    using Cons.prems g g2 by (intro Cons.IH) (simp_all add: short_option_def)
  moreover have "pos < z" using Cons.prems(3) g by simp
  ultimately show ?case using w p by (simp add: opt_string_loop.simps [of z "r # rows"] short_option_def [of r])
qed

section \<open>Properties\<close>





text \<open>C24: escapes are read back. A text in which every byte that is not printable is written as \<open>\x\<close> with
  two hexadecimal digits, and the backslash twice, is converted by \<open>parse_cform\<close> to the bytes it stands
  for; and whatever the text, no more bytes are written than the size of the output and the length of the
  text allow.\<close>

theorem parse_cform_roundtrip:
  "parse_cform (length (concat (map cform xs))) (concat (map cform xs)) = xs \<and>
    length (parse_cform k s) \<le> k \<and> length (parse_cform k s) \<le> length s"
proof -
  have "length xs \<le> length (concat (map cform xs))"
    by (induction xs) (auto simp: cform_def)
  then show ?thesis using parse_cform_cform parse_cform_length by blast
qed

text \<open>C27: the two loops of \<open>main\<close> that build the string of short options do not write outside its array,
  whatever the array holds before, and build what the table says: for every option its letter followed by a
  colon per argument, in the order of the table, and a null byte.\<close>

theorem opt_string_equiv:
  assumes "length junk = optc + 1"
  shows "opt_string junk = Some (concat (map (\<lambda>r. o_val r # replicate (o_has_arg r) 58) options) @ [0])"
proof -
  have l: "length (concat (map short_option rows)) = length rows + sum_list (map o_has_arg rows)" for rows
    by (induction rows) (simp_all add: short_option_def)
  obtain gap y where j: "junk = gap @ [y]" "length gap = optc"
    using assms by (cases junk rule: rev_cases) auto
  have w: "wr junk optc 0 = Some (gap @ [0])"
    using j wr_append [of gap optc y "[]" 0] by simp
  have "opt_string_loop optc options 0 ([] @ gap @ [0]) = Some ([] @ concat (map short_option options) @ [0])"
    by (rule opt_string_loop_fill) (simp_all add: j optc_def l)
  then show ?thesis using w by (simp add: opt_string_def short_option_def [abs_def])
qed

theorem opt_string_equiv_witness:
  "\<exists>s. opt_string (replicate (optc + 1) 7) = Some s \<and> take 14 s = str ''NXUhvi:p:I:b:c''"
proof -
  have "opt_string (replicate (optc + 1) 7) =
      Some (concat (map (\<lambda>r. o_val r # replicate (o_has_arg r) 58) options) @ [0])"
    by (rule opt_string_equiv) simp
  then show ?thesis by (simp add: options_def row_def str_def numeral_eq_Suc)
qed

end
