(* ===== verification/Spec2Isabelle.thy ===== *)
theory Spec2Isabelle
  imports Packets Mpool Conev Desync Socks Conn Extend Proxy Options Native Handlers Tunnel Loop Teardown Lifecycle Cache
    Descriptors Replies Reactions Datagrams Settings
begin

text \<open>
  \<^bold>\<open>The native core of ToInet Mobile.\<close> The application is a launcher that puts a chain of proxies between
  the phone and the network. Its own native code is \<open>src/app/src/main/cpp\<close>: the entry points for Java
  (\<open>native-lib.c\<close>) around \<open>byedpi\<close>, a SOCKS proxy that sends the first request of a connection in a
  way that a filter on the path does not recognise (in pieces, out of order, with urgent data, after
  decoys that expire on the way), watches the answer, and reconnects with another strategy when the answer
  looks like the work of a filter. This development models all of it, for the Linux build with \<open>epoll\<close>.

  \<^bold>\<open>How the parts work together.\<close> Java calls \<open>jniStartProxy\<close>, which copies the arguments and calls \<open>main\<close>
  (\<open>main.c\<close>). \<open>main\<close> reads the options into the global \<open>params\<close>, an array of strategies with their host
  lists, IP ranges and conditions, and calls \<open>run\<close> (\<open>proxy.c\<close>), which opens the listening socket and
  enters \<open>event_loop\<close>. The loop owns a pool of connections (\<open>conev.c\<close>). It asks the pool for the next
  event and calls the handler of the connection's state: \<open>EV_ACCEPT\<close> to accept a client, \<open>EV_REQUEST\<close> to
  parse a SOCKS request and to connect, \<open>EV_CONNECT\<close> when the connection to the destination is
  established or has failed, \<open>EV_PRE_TUNNEL\<close> until the first request and the first answer have passed
  (\<open>extend.c\<close>), \<open>EV_TUNNEL\<close> to forward bytes, \<open>EV_DESYNC\<close> to go on with a request whose sending had to
  wait, \<open>EV_UDP_TUNNEL\<close> to forward datagrams, \<open>EV_IGNORE\<close> for the TCP side of a UDP association.
  \<open>extend.c\<close> chooses the strategy: by what the request is (\<open>packets.c\<close> finds the host name), by the
  lists of the strategy, and by the cache of what worked for an address, which is a pool of strings
  (\<open>mpool.c\<close>, an AVL tree of \<open>kavl.h\<close>). \<open>desync.c\<close> edits the request and sends it.

  \<^bold>\<open>The model.\<close> Each C function is a function of the same name (a long one is split, its parts named after it). The state of the process is one record,
  \<open>world\<close>: the globals, the pool of connections, the scratch buffer of the event loop, \<open>errno\<close>, the
  history of the calls to the kernel, and the kernel itself, an arbitrary function from the history and
  a call to the result of the call (a parameter; \<open>sys\<close> holds its results to what the manual pages
  promise of sizes). A function that may fail to return a value is into an \<open>option\<close> type: \<open>None\<close>
  stands for undefined behaviour (an access outside an object, a null pointer), for a failed \<open>assert\<close>
  and for a loop that does not end. A connection is an index into the pool, a \<open>char *\<close> an offset into
  the list of all bytes of its object, a \<open>uint32_t\<close> set of flags a \<open>32 word\<close>, a port a number with
  the bytes of a little-endian machine written out, and the other sizes are \<open>nat\<close> and \<open>int\<close>, with the
  wrap-around of \<open>size_t\<close> (\<open>usub\<close>) where the code relies on it or suffers from it.

  \<^bold>\<open>The theories.\<close>

  \<^item> \<open>Prelude\<close>: bytes, buffers, the functions of the C library that the code calls.
  \<^item> \<open>Packets\<close> (\<open>packets.c\<close>): TLS and HTTP messages, found and edited in place. Reads and writes in bounds;
    a record is cut into two well-formed ones; the fake ClientHello carries the name it was given. Where
    the code leaves its buffers, a theorem gives the input that does it.
  \<^item> \<open>Kavl\<close> (\<open>kavl.h\<close>): the AVL tree, with the path array and its maximal depth. The locale \<open>kavl_order\<close>
    states what a comparison has to satisfy; in it, search, insertion and removal are those of a sorted list,
    heights stay balanced, and the path never exceeds the array.
  \<^item> \<open>Mpool\<close> (\<open>mpool.c\<close>): the pool of strings, the tree with a comparison that makes host keys a linear
    order (\<open>hkey\<close>, an instance of \<open>linorder\<close>; the interpretation \<open>pool\<close>). It refines a finite map. The
    locale \<open>string_map\<close> is what the clients rely on; \<open>pool_map\<close> interprets it on the pool. Its clients
    are the host lists (\<open>Settings\<close>) and the cache (\<open>Cache\<close>).
  \<^item> \<open>World\<close> (\<open>proxy.h\<close>, \<open>params.h\<close>, \<open>conev.h\<close>): the shared data types, the kernel and its calls, and what
    a history of calls means: the bytes that were delivered, those that were received, the open descriptors.
  \<^item> \<open>Conev\<close> (\<open>conev.c\<close>): the pool of connections, an array with a permutation of free and used slots. The
    invariant \<open>pool_inv\<close> (slots, pairs, pending events) is kept by adding, changing and deleting connections;
    deletion follows the cycle of partners (\<open>del_event_walk\<close> is its induction rule); \<open>next_event\<close> returns, and with a connection in use.
  \<^item> \<open>Desync\<close> (\<open>desync.c\<close>): the ways to send a part (\<open>sends\<close> is their common contract), the loop over the
    parts, the whole request and datagrams. No strategy changes the stream of bytes that arrives.
  \<^item> \<open>Socks\<close>, \<open>Conn\<close>, \<open>Proxy\<close> (\<open>proxy.c\<close>): addresses and SOCKS headers; sockets, connections and
    associations; the handlers and the event loop. \<open>Conn\<close> also has the parts of \<open>extend.c\<close> it calls.
  \<^item> \<open>Extend\<close> (\<open>extend.c\<close>): strategies, the cache, the reactions to answers, the first request.
  \<^item> \<open>Options\<close> (\<open>main.c\<close>) and \<open>Native\<close> (\<open>native-lib.c\<close>): the command line and the entry points.
  \<^item> \<open>Partial\<close>, \<open>Frames\<close>, \<open>Handlers\<close>: the proof that each handler keeps the invariant of the event loop.
    \<open>ens m Q\<close> is partial correctness for the \<open>option\<close> monad; the functions that do not touch the connections
    are in the collection \<open>frame\<close>; \<open>Inv\<close> adds to \<open>pool_inv\<close> that a connection that is connecting,
    desynchronising or forwarding has a partner whose partner it is.
  \<^item> \<open>Balance\<close>, \<open>Ownership\<close>, \<open>Account\<close>: the proof that each handler keeps the account of the descriptors.
    \<open>balanced\<close> are the functions that leave open what was open (the collection \<open>neutral_fun\<close> those
    that never open anything); \<open>owner B w\<close> says that every open descriptor is one of \<open>B\<close> or belongs to
    exactly one connection in use, \<open>regs_ok\<close> that only connections in use are registered at \<open>epoll\<close>, and
    \<open>hand F w w'\<close> that a function keeps both, but for the descriptors \<open>F\<close> that it still has in its hands.
  \<^item> \<open>Loop\<close>: the event loop as a step relation \<open>turn\<close>. The locale \<open>safe_steps\<close> gives reachable states
    the invariant of the steps, and \<open>turns\<close> interprets it on the loop with the invariant \<open>steady\<close>.
  \<^item> \<open>Teardown\<close>: what \<open>destroy_pool\<close> closes, and with it that \<open>event_loop\<close> and \<open>run\<close> give back every
    descriptor; a run with one client, evaluated.
  \<^item> \<open>Lifecycle\<close>: the loop with calls of the entry points from other threads in between, a step relation \<open>life\<close>
    (\<open>lives\<close> interprets \<open>safe_steps\<close> on it).
  \<^item> \<open>Tunnel\<close>: a tunnel forwards exactly what it receives. \<open>Datagrams\<close>: the same question for UDP.
  \<^item> \<open>Cache\<close>: the cache refines an abstract map with a time to live.
  \<^item> \<open>Descriptors\<close>: which descriptors the error paths of a connection leave open.
  \<^item> \<open>Replies\<close>: what a client is told about its request. \<open>said\<close> is all that the process has sent; \<open>discreet\<close>
    functions send nothing.
  \<^item> \<open>Reactions\<close>: host lists match parent domains; a reconnection uses a later strategy.
  \<^item> \<open>Settings\<close>: the options leave settings in range, escapes and host lists mean what they say.

  A property is a theorem after a text that starts with its number; a theorem whose name ends in \<open>_witness\<close> applies
  it to concrete data.

  \<^bold>\<open>Bounds.\<close> The loops that depend on the kernel (\<open>next_event\<close>, \<open>on_accept\<close>, \<open>tunnel_loop\<close>, \<open>udp_loop\<close>,
  \<open>main_loop\<close>) are partial functions, without fuel: that one returns is the statement that it is some
  value. All other loops end by the type of their definition. A string pool has \<open>room\<close> if it has fewer
  than \<open>2 ^ 31\<close> strings, for which the path array of \<open>KAVL_MAX_DEPTH\<close> is proved to be deep enough.
  The text of a host list is shorter than \<open>2 ^ 30\<close> bytes. The counter of batches of events is an \<open>int\<close>
  that wraps; the theorems on the loop are for the rounds before it has gone through all its values.

  \<^bold>\<open>Hypotheses on the kernel.\<close> \<open>reports_registered\<close>: \<open>epoll_wait\<close> reports what is registered,
  according to the history of the calls. The loop registers connections in use only, so that it may rely on \<open>reports_live\<close>,
  the same promise for the next call, in terms of the pool.
  \<open>fresh_fds\<close>: a new descriptor is not one that is open, nor a standard stream. \<open>sockopt_ok\<close>: \<open>setsockopt\<close> does not fail with
  \<open>EAGAIN\<close>. \<open>never_short\<close>: a \<open>send\<close> takes all bytes or fails. Each is used by name where it is needed.

  \<^bold>\<open>Parameters.\<close> The kernel and the resolver (\<open>w_os\<close>), the contents of files and of uninitialised memory, the
  scanner of options \<open>getopt_long\<close>, the reading of the fraction in the argument of \<open>-T\<close> by \<open>strtof\<close>.

  \<^bold>\<open>Not modelled.\<close> Messages to the log and to the terminal; the Windows service and the Windows branches
  (\<open>win_service.c\<close>); the variant of the pool without \<open>epoll\<close>, which is not built; the code in comments of \<open>packets.c\<close>;
  the parts of \<open>kavl.h\<close> that are not instantiated. \<open>jni/badvpn\<close>, \<open>jni/pdnsd\<close>, \<open>jni/libancillary\<close> and
  \<open>jni/hev-socks5-tunnel\<close> with its libraries are copies of other projects; \<open>jni/system.cpp\<close> is C++ glue
  around \<open>fork\<close> and \<open>exec\<close>; the application around the native code is written in Kotlin and Java.
\<close>

end
